(* ===== verification/Prelude.thy ===== *)
theory Prelude
  imports Main "HOL-Library.Word" "HOL-Library.AList"
begin

text \<open>
  What every component shares: the machine integers and bytes of the C++ code, the
  outcome of a C++ computation (a value, a thrown exception, or a fault: a failed
  assertion, \<open>std::terminate\<close>, undefined behaviour), the two sequencing operators
  over outcomes (\<open>obind\<close> for code without state, \<open>bindc\<close> for code that threads a
  state), bounds-checked memory, and the lemmas on them.

  \<open>assert\<close> is live, as in the build of \<open>run_build.sh\<close>, which sets no build type and so no
  \<open>NDEBUG\<close>; the CI builds \<open>Release\<close>, for which CMake defines it and the assertions are compiled
  out.  The platform is that of the CI: LP64, two's complement, little endian, signed \<open>char\<close>.
\<close>

unbundle bit_operations_syntax

named_theorems cpp_defs \<open>the definitions of the outcome operators\<close>
named_theorems cpp_intros \<open>rules that push a state property through a computation\<close>

section \<open>Machine integers\<close>

type_synonym byte = "8 word"
type_synonym uint = "32 word"   \<comment> \<open>\<open>unsigned int\<close>, \<open>uint32_t\<close>\<close>
type_synonym int32 = "32 word"  \<comment> \<open>\<open>int32_t\<close>: the same bits, read by \<open>sint\<close>\<close>

abbreviation INT_MAX :: nat where
  "INT_MAX \<equiv> 2147483647"

lemma unat_uint_less [simp]: "unat (w :: 32 word) < 4294967296"
  using unsigned_less [of w] by simp

lemma unat_uint_le [simp]: "unat (w :: 32 word) \<le> 4294967295"
  using unat_uint_less [of w] by linarith

lemma unat_of_nat_uint: "n < 4294967296 \<Longrightarrow> unat (of_nat n :: 32 word) = n"
  by (simp add: unat_of_nat take_bit_nat_eq_self)

lemma unat_add_uint:
  "unat v + unat w < 4294967296 \<Longrightarrow> unat (v + w :: 32 word) = unat v + unat w"
  by (simp add: unat_word_ariths)

section \<open>Outcomes\<close>

datatype ub = Out_Of_Bounds | Signed_Overflow | Missing_Return | Division_By_Zero

datatype fault = Assertion_Failed | Terminated | Undefined ub

datatype ('x, 'a) outcome = Ret 'a | Throw 'x | Fault fault

fun obind :: "('x, 'a) outcome \<Rightarrow> ('a \<Rightarrow> ('x, 'b) outcome) \<Rightarrow> ('x, 'b) outcome" where
  "obind (Ret a) k = k a"
| "obind (Throw x) k = Throw x"
| "obind (Fault f) k = Fault f"

definition oassert :: "bool \<Rightarrow> ('x, unit) outcome" where
  "oassert b = (if b then Ret () else Fault Assertion_Failed)"

lemma obind_cong [fundef_cong]:
  "m = m' \<Longrightarrow> (\<And>a. m' = Ret a \<Longrightarrow> k a = k' a) \<Longrightarrow> obind m k = obind m' k'"
  by (cases m') auto

lemma obind_Ret_right [simp]: "obind m Ret = m"
  by (cases m) auto

lemma obind_assoc: "obind (obind m k) l = obind m (\<lambda>a. obind (k a) l)"
  by (cases m) auto

lemma obind_eq_Ret:
  "obind m k = Ret b \<longleftrightarrow> (\<exists>a. m = Ret a \<and> k a = Ret b)"
  by (cases m) auto

lemma obind_eq_Throw:
  "obind m k = Throw x \<longleftrightarrow> m = Throw x \<or> (\<exists>a. m = Ret a \<and> k a = Throw x)"
  by (cases m) auto

lemma oassert_simps [simp]:
  "oassert True = Ret ()" "oassert False = Fault Assertion_Failed"
  by (simp_all add: oassert_def)

section \<open>Computations over a state\<close>

type_synonym ('s, 'x, 'a) comp = "'s \<Rightarrow> ('x, 'a) outcome \<times> 's"

definition retc :: "'a \<Rightarrow> ('s, 'x, 'a) comp" where
  "retc a s = (Ret a, s)"

definition liftc :: "('x, 'a) outcome \<Rightarrow> ('s, 'x, 'a) comp" where
  "liftc out s = (out, s)"

definition bindc :: "('s, 'x, 'a) comp \<Rightarrow> ('a \<Rightarrow> ('s, 'x, 'b) comp) \<Rightarrow> ('s, 'x, 'b) comp" where
  "bindc m k s =
     (case m s of (out, s') \<Rightarrow>
       (case out of Ret a \<Rightarrow> k a s' | Throw x \<Rightarrow> (Throw x, s') | Fault f \<Rightarrow> (Fault f, s')))"

definition getc :: "('s \<Rightarrow> 'a) \<Rightarrow> ('s, 'x, 'a) comp" where
  "getc f s = (Ret (f s), s)"

definition modc :: "('s \<Rightarrow> 's) \<Rightarrow> ('s, 'x, unit) comp" where
  "modc f s = (Ret (), f s)"

definition noexcept :: "('s, 'x, 'a) comp \<Rightarrow> ('s, 'x, 'a) comp" where
  \<comment> \<open>an exception that leaves a \<open>noexcept\<close> function calls \<open>std::terminate\<close>\<close>
  "noexcept m s =
     (case m s of (out, s') \<Rightarrow> (case out of Throw x \<Rightarrow> (Fault Terminated, s') | _ \<Rightarrow> (out, s')))"

lemma retc_apply [simp]: "retc a s = (Ret a, s)"
  by (simp add: retc_def)

lemma liftc_apply [simp]: "liftc out s = (out, s)"
  by (simp add: liftc_def)

lemma getc_apply [simp]: "getc f s = (Ret (f s), s)"
  by (simp add: getc_def)

lemma modc_apply [simp]: "modc f s = (Ret (), f s)"
  by (simp add: modc_def)

lemma bindc_eqs:
  "m s = (Ret a, s') \<Longrightarrow> bindc m k s = k a s'"
  "m s = (Throw x, s') \<Longrightarrow> bindc m k s = (Throw x, s')"
  "m s = (Fault f, s') \<Longrightarrow> bindc m k s = (Fault f, s')"
  by (simp_all add: bindc_def)

lemma noexcept_eqs:
  "m s = (Ret a, s') \<Longrightarrow> noexcept m s = (Ret a, s')"
  "m s = (Throw x, s') \<Longrightarrow> noexcept m s = (Fault Terminated, s')"
  "m s = (Fault f, s') \<Longrightarrow> noexcept m s = (Fault f, s')"
  by (simp_all add: noexcept_def)

lemma bindc_prim [simp]:
  "bindc (retc a) k = k a"
  "bindc (liftc (Ret a)) k = k a"
  "bindc (getc f) k s = k (f s) s"
  "bindc (modc g) k' s = k' () (g s)"
  by (auto simp: bindc_def fun_eq_iff)

lemma bindc_assoc: "bindc (bindc m k) l = bindc m (\<lambda>a. bindc (k a) l)"
  by (auto simp: bindc_def fun_eq_iff split: prod.splits outcome.splits)

lemma bindc_RetE:
  assumes "bindc m k s = (Ret b, s'')"
  obtains a s' where "m s = (Ret a, s')" and "k a s' = (Ret b, s'')"
  using assms by (auto simp: bindc_def split: prod.splits outcome.splits)

lemma bindcE:
  assumes "bindc m k s = (out, s'')"
  obtains a s' where "m s = (Ret a, s')" and "k a s' = (out, s'')"
  | x where "m s = (Throw x, s'')" and "out = Throw x"
  | f where "m s = (Fault f, s'')" and "out = Fault f"
  using assms by (auto simp: bindc_def split: prod.splits outcome.splits)

lemma noexcept_Ret_iff: "noexcept m s = (Ret a, s') \<longleftrightarrow> m s = (Ret a, s')"
  by (auto simp: noexcept_def split: prod.splits outcome.splits)

lemma noexcept_no_Throw: "noexcept m s \<noteq> (Throw x, s')"
  by (auto simp: noexcept_def split: prod.splits outcome.splits)

lemma snd_noexcept [simp]: "snd (noexcept m s) = snd (m s)"
  by (auto simp: noexcept_def split: prod.splits outcome.splits)

subsection \<open>Computations on a part of the state\<close>

definition zoom :: "('s \<Rightarrow> 't) \<Rightarrow> ('t \<Rightarrow> 's \<Rightarrow> 's) \<Rightarrow> ('t, 'x, 'a) comp \<Rightarrow> ('s, 'x, 'a) comp" where
  "zoom get put m s = (case m (get s) of (out, t) \<Rightarrow> (out, put t s))"

definition on_snd :: "('t, 'x, 'a) comp \<Rightarrow> ('p \<times> 't, 'x, 'a) comp" where
  "on_snd = zoom snd (\<lambda>t (p, _). (p, t))"

definition past_fst :: "('p \<times> 't, 'x, 'a) comp \<Rightarrow> ('p \<times> 'q \<times> 't, 'x, 'a) comp" where
  \<comment> \<open>on the first and the last of three parts\<close>
  "past_fst = zoom (\<lambda>(p, q, t). (p, t)) (\<lambda>(p, t) (_, q, _). (p, q, t))"

definition in_scope ::
    "('p \<times> 's, 'x, unit) comp \<Rightarrow> 'p \<Rightarrow> ('p \<times> 's, 'x, 'a) comp \<Rightarrow> ('s, 'x, 'a) comp" where
  \<comment> \<open>the life of a local object: the body runs with it, every way out that is a return
     runs its destructor\<close>
  "in_scope dtor obj body s =
     (case bindc body (\<lambda>r. bindc dtor (\<lambda>_. retc r)) (obj, s) of (out, (_, s')) \<Rightarrow> (out, s'))"

lemma on_snd_eq: "m t = (out, t') \<Longrightarrow> on_snd m (p, t) = (out, (p, t'))"
  by (simp add: on_snd_def zoom_def)

lemma past_fst_eq: "m (p, t) = (out, (p', t')) \<Longrightarrow> past_fst m (p, q, t) = (out, (p', q, t'))"
  by (simp add: past_fst_def zoom_def)

lemma on_snd_iff: "on_snd m (p, t) = (out, s') \<longleftrightarrow> (\<exists>t'. m t = (out, t') \<and> s' = (p, t'))"
  by (auto simp: on_snd_def zoom_def split: prod.splits)

lemma past_fst_iff:
  "past_fst m (p, q, t) = (out, s') \<longleftrightarrow> (\<exists>p' t'. m (p, t) = (out, (p', t')) \<and> s' = (p', q, t'))"
  by (auto simp: past_fst_def zoom_def split: prod.splits)

lemma in_scope_eq:
  "body (obj, s) = (Ret r, (obj', s')) \<Longrightarrow> dtor (obj', s') = (Ret (), (obj'', s''))
    \<Longrightarrow> in_scope dtor obj body s = (Ret r, s'')"
  by (simp add: in_scope_def bindc_eqs)

subsection \<open>Properties every outcome keeps\<close>

text \<open>
  \<open>keeps R m\<close>: whatever the outcome of \<open>m\<close>, the state before and the state after are
  in \<open>R\<close>.  With a reflexive and transitive \<open>R\<close> it goes through sequencing, which is how
  the frame properties (an operation leaves other files alone, even when it fails or
  aborts half-way) are proved.
\<close>

definition keeps :: "('s \<Rightarrow> 's \<Rightarrow> bool) \<Rightarrow> ('s, 'x, 'a) comp \<Rightarrow> bool" where
  "keeps R m \<longleftrightarrow> (\<forall>s. R s (snd (m s)))"

lemma keepsD: "keeps R m \<Longrightarrow> m s = (out, s') \<Longrightarrow> R s s'"
  unfolding keeps_def by (metis snd_conv)

lemma keepsI: "(\<And>s out s'. m s = (out, s') \<Longrightarrow> R s s') \<Longrightarrow> keeps R m"
  unfolding keeps_def by (metis prod.collapse)

lemma keeps_mono: "keeps R m \<Longrightarrow> (\<And>s s'. R s s' \<Longrightarrow> Q s s') \<Longrightarrow> keeps Q m"
  by (simp add: keeps_def)

lemma keeps_retc [cpp_intros]: "reflp R \<Longrightarrow> keeps R (retc a)"
  by (simp add: keeps_def reflpD)

lemma keeps_liftc [cpp_intros]: "reflp R \<Longrightarrow> keeps R (liftc out)"
  by (simp add: keeps_def reflpD)

lemma keeps_getc [cpp_intros]: "reflp R \<Longrightarrow> keeps R (getc f)"
  by (simp add: keeps_def reflpD)

lemma keeps_noexcept [cpp_intros]: "keeps R m \<Longrightarrow> keeps R (noexcept m)"
  by (simp add: keeps_def)

lemma keeps_bindc [cpp_intros]:
  assumes "transp R" and "keeps R m" and "\<And>a. keeps R (k a)"
  shows "keeps R (bindc m k)"
proof (rule keepsI)
  fix s out s''
  assume "bindc m k s = (out, s'')"
  then show "R s s''"
    by (rule bindcE) (use assms in \<open>blast dest: keepsD transpD\<close>)+
qed

text \<open>The same at one state, for operations whose arguments are read from the state.\<close>

definition keeps_at :: "('s \<Rightarrow> 's \<Rightarrow> bool) \<Rightarrow> ('s, 'x, 'a) comp \<Rightarrow> 's \<Rightarrow> bool" where
  "keeps_at R m s \<longleftrightarrow> R s (snd (m s))"

lemma keeps_by_state: "(\<And>s. keeps_at R m s) \<Longrightarrow> keeps R m"
  by (simp add: keeps_def keeps_at_def)

lemma keeps_at_keeps: "keeps R m \<Longrightarrow> keeps_at R m s"
  by (simp add: keeps_def keeps_at_def)

lemma keeps_at_base [simp]:
  "reflp R \<Longrightarrow> keeps_at R (retc a) s" "reflp R \<Longrightarrow> keeps_at R (liftc out) s"
  "reflp R \<Longrightarrow> keeps_at R (getc f) s"
  by (simp_all add: keeps_at_def reflpD)

lemma keeps_by_pair: "(\<And>a b. keeps_at R m (a, b)) \<Longrightarrow> keeps R m"
  by (auto intro: keeps_by_state)

lemma keeps_at_getc [simp]: "keeps_at R (bindc (getc f) k) s = keeps_at R (k (f s)) s"
  by (simp add: keeps_at_def)

lemma keeps_at_bindc:
  assumes "transp R" and "keeps_at R m s"
    and "\<And>a s'. m s = (Ret a, s') \<Longrightarrow> keeps_at R (k a) s'"
  shows "keeps_at R (bindc m k) s"
proof (cases "m s")
  case (Pair out s')
  with assms show ?thesis
    by (cases out) (auto simp: keeps_at_def bindc_eqs dest: transpD)
qed

lemma in_scope_keeps:
  assumes "in_scope dtor obj body s = (out, s')"
    and "reflp R" "transp R" "keeps R body" "keeps R dtor"
  obtains obj' where "R (obj, s) (obj', s')"
proof -
  let ?m = "bindc body (\<lambda>r. bindc dtor (\<lambda>_. retc r))"
  have "keeps R ?m" using assms by (intro keeps_bindc keeps_retc)
  moreover obtain obj' where "?m (obj, s) = (out, (obj', s'))"
    using assms(1) by (auto simp: in_scope_def split: prod.splits)
  ultimately have "R (obj, s) (obj', s')" by (rule keepsD)
  then show thesis by (rule that)
qed

section \<open>Memory\<close>

text \<open>
  An object of the program's memory is the list of its bytes; a pointer into it is the
  list from that byte to the end of the object.  Reading or writing outside the object
  is undefined behaviour.
\<close>

definition mem_get :: "byte list \<Rightarrow> nat \<Rightarrow> ('x, byte) outcome" where
  "mem_get bs i = (if i < length bs then Ret (bs ! i) else Fault (Undefined Out_Of_Bounds))"

definition mem_set :: "byte list \<Rightarrow> nat \<Rightarrow> byte \<Rightarrow> ('x, byte list) outcome" where
  "mem_set bs i v = (if i < length bs then Ret (bs[i := v]) else Fault (Undefined Out_Of_Bounds))"

definition mem_read :: "byte list \<Rightarrow> nat \<Rightarrow> nat \<Rightarrow> ('x, byte list) outcome" where
  \<comment> \<open>\<open>n\<close> bytes at offset \<open>off\<close>\<close>
  "mem_read bs off n =
     (if off + n \<le> length bs then Ret (take n (drop off bs)) else Fault (Undefined Out_Of_Bounds))"

definition overwrite :: "nat \<Rightarrow> 'a list \<Rightarrow> 'a list \<Rightarrow> 'a list" where
  "overwrite off vs bs = take off bs @ vs @ drop (off + length vs) bs"

definition mem_write :: "byte list \<Rightarrow> nat \<Rightarrow> byte list \<Rightarrow> ('x, byte list) outcome" where
  "mem_write bs off vs =
     (if off + length vs \<le> length bs then Ret (overwrite off vs bs)
      else Fault (Undefined Out_Of_Bounds))"

lemma length_overwrite [simp]:
  "off + length vs \<le> length bs \<Longrightarrow> length (overwrite off vs bs) = length bs"
  by (simp add: overwrite_def)

lemma overwrite_Nil [simp]: "overwrite off [] bs = bs"
  by (simp add: overwrite_def)

lemma nth_overwrite:
  assumes "off + length vs \<le> length bs" and "i < length bs"
  shows "overwrite off vs bs ! i =
    (if off \<le> i \<and> i < off + length vs then vs ! (i - off) else bs ! i)"
proof -
  have "min (length bs) off = off" using assms by simp
  then show ?thesis
    using assms by (auto simp: overwrite_def nth_append not_less min_def)
qed

lemma take_drop_overwrite [simp]:
  "off + length vs \<le> length bs \<Longrightarrow> take (length vs) (drop off (overwrite off vs bs)) = vs"
  by (simp add: overwrite_def)

lemma take_drop_overwrite_inner:
  assumes "off + length vs \<le> length bs" and "k + n \<le> length vs"
  shows "take n (drop (off + k) (overwrite off vs bs)) = take n (drop k vs)"
proof -
  have "min (length bs) off = off" using assms by simp
  then show ?thesis using assms by (simp add: overwrite_def)
qed

lemma take_drop_overwrite_other:
  assumes "off + length vs \<le> length bs" and "p + n \<le> off \<or> off + length vs \<le> p"
  shows "take n (drop p (overwrite off vs bs)) = take n (drop p bs)"
proof (rule nth_equalityI)
  show "length (take n (drop p (overwrite off vs bs))) = length (take n (drop p bs))"
    using assms(1) by simp
  fix i
  assume "i < length (take n (drop p (overwrite off vs bs)))"
  then have "i < n" "p + i < length bs" using assms(1) by auto
  then show "take n (drop p (overwrite off vs bs)) ! i = take n (drop p bs) ! i"
    using assms by (auto simp: nth_overwrite)
qed

lemma overwrite_overwrite_adjacent:
  assumes "off + length vs + length ws \<le> length bs"
  shows "overwrite (off + length vs) ws (overwrite off vs bs) = overwrite off (vs @ ws) bs"
proof -
  have "off \<le> length bs" using assms by simp
  then show ?thesis using assms
    by (simp add: overwrite_def ac_simps)
qed

section \<open>Little-endian words\<close>

text \<open>
  The object representation of a \<open>uint8_t\<close>, \<open>uint16_t\<close>, \<open>uint32_t\<close> or \<open>int32_t\<close>: \<open>n\<close>
  bytes, least significant first.
\<close>

definition le_bytes :: "nat \<Rightarrow> 'a::len word \<Rightarrow> byte list" where
  "le_bytes n v = map (\<lambda>i. ucast (drop_bit (8 * i) v)) [0..<n]"

fun le_word :: "byte list \<Rightarrow> 'a::len word" where
  "le_word [] = 0"
| "le_word (b # bs) = (ucast b OR push_bit 8 (le_word bs))"

lemma length_le_bytes [simp]: "length (le_bytes n v) = n"
  by (simp add: le_bytes_def)

lemma nth_le_bytes: "i < n \<Longrightarrow> le_bytes n v ! i = ucast (drop_bit (8 * i) v)"
  by (simp add: le_bytes_def)

lemma le_bytes_Suc: "le_bytes (Suc n) v = ucast v # le_bytes n (drop_bit 8 v)"
proof (rule nth_equalityI)
  show "length (le_bytes (Suc n) v) = length (ucast v # le_bytes n (drop_bit 8 v))"
    by simp
  fix i
  assume "i < length (le_bytes (Suc n) v)"
  then show "le_bytes (Suc n) v ! i = (ucast v # le_bytes n (drop_bit 8 v)) ! i"
    by (cases i) (auto simp: nth_le_bytes ac_simps)
qed

lemma bit_le_word:
  "bit (le_word bs :: 'a::len word) k \<longleftrightarrow>
     k < LENGTH('a) \<and> k div 8 < length bs \<and> bit (bs ! (k div 8)) (k mod 8)"
proof (induction bs arbitrary: k)
  case Nil
  then show ?case by simp
next
  case (Cons b bs)
  show ?case
  proof (cases "k < 8")
    case True
    then show ?thesis
      by (auto simp: bit_or_iff bit_push_bit_iff bit_ucast_iff)
  next
    case False
    then have "k div 8 = Suc ((k - 8) div 8)" "k mod 8 = (k - 8) mod 8"
      by (auto simp: le_div_geq le_mod_geq)
    moreover from False have "\<not> bit b k"
      by (auto dest: bit_imp_le_length)
    ultimately show ?thesis
      using False Cons.IH [of "k - 8"]
      by (auto simp: bit_or_iff bit_push_bit_iff bit_ucast_iff)
  qed
qed

lemma le_word_le_bytes:
  assumes "LENGTH('a::len) \<le> 8 * n"
  shows "le_word (le_bytes n v) = (v :: 'a word)"
proof (rule bit_word_eqI)
  fix k
  assume "k < LENGTH('a)"
  then have "k div 8 < n" using assms by auto
  then show "bit (le_word (le_bytes n v) :: 'a word) k \<longleftrightarrow> bit v k"
    using \<open>k < LENGTH('a)\<close>
    by (simp add: bit_le_word nth_le_bytes bit_ucast_iff bit_drop_bit_eq)
qed

section \<open>Decimal output\<close>

text \<open>What \<open>operator<<\<close> and \<open>std::to_string\<close> print for an integer.\<close>

fun show_nat :: "nat \<Rightarrow> string" where
  "show_nat n = (if n < 10 then [char_of (48 + n)] else show_nat (n div 10) @ [char_of (48 + n mod 10)])"

declare show_nat.simps [simp del]

definition show_int :: "int \<Rightarrow> string" where
  "show_int i = (if i < 0 then CHR ''-'' # show_nat (nat (- i)) else show_nat (nat i))"

definition digits_value :: "string \<Rightarrow> nat" where
  "digits_value cs = foldl (\<lambda>a c. 10 * a + (of_char c - 48)) 0 cs"

lemma digits_value_show_nat: "digits_value (show_nat n) = n"
proof (induction n rule: show_nat.induct)
  case (1 n)
  then show ?case
    by (cases "n < 10") (simp_all add: show_nat.simps [of n] digits_value_def)
qed

lemma show_nat_inj: "show_nat m = show_nat n \<Longrightarrow> m = n"
  by (metis digits_value_show_nat)

end
