(* ===== verification/Errors.thy ===== *)
theory Errors
  imports Prelude
begin

text \<open>
  The error enumerations of the components and their \<open>what\<close> messages
  (\<open>disk_manager_error.h\<close>, \<open>buffer_manager_error.h\<close>, \<open>organizer_error.h\<close>, \<open>type_error.h\<close>), and the
  exceptions the program can throw; before them the names of the types of ids and cursors.
\<close>

text \<open>\<open>disk_manager_types.h\<close> and \<open>buffer_manager_types.h\<close>.\<close>

type_synonym disk_name = string
type_synonym disk_id = int32
type_synonym disk_page_cursor = int32
type_synonym buffer_page_cursor = uint

record disk_descriptor =
  dd_id :: disk_id
  dd_cursor :: disk_page_cursor

datatype DiskManagerErrorCode =
    UNKOWN_ERROR
  | DISK_ALREADY_EXISTS
  | DISK_NOT_FOUND
  | DISK_EXCEEDS_MAX_SIZE
  | INIT_DISK_ERROR
  | CLOSE_DISK_ERROR
  | CREATE_DISK_ERROR
  | DESTROY_DISK_ERROR
  | WRITE_DISK_ERROR
  | READ_DISK_ERROR
  | GET_DISK_SIZE_ERROR

datatype BufferManagerErrorCode =
    BM_UNKOWN_ERROR
  | OUT_OF_MEMORY
  | PAGE_NOT_FOUND
  | BM_DISK_NOT_FOUND
  | DISK_PAGE_CURSOR_NOT_FOUND
  | OUT_OF_PAGES
  | OUT_OF_PAGE_BOUNDS

datatype OrganizerErrorCode = MethodNotImplemented

text \<open>\<open>TypeErrorcode\<close> has no enumerators; its values are those of \<open>int\<close>.\<close>

type_synonym type_errorcode = int32

datatype exn =
    Bad_Optional_Access  \<comment> \<open>\<open>std::optional::value\<close> on an empty optional\<close>
  | BufferManagerError BufferManagerErrorCode
  | OrganizerError OrganizerErrorCode
  | Test_Failure string int string
      \<comment> \<open>thrown by the assertions of the test framework: reason, line, text of the assertion\<close>
  | Runtime_Error string  \<comment> \<open>\<open>std::runtime_error\<close>\<close>
  | Out_Of_Range  \<comment> \<open>\<open>std::map::at\<close> of a key that is not there\<close>

type_synonym ('s, 'a) cpp = "('s, exn, 'a) comp"

section \<open>\<open>what\<close>\<close>

text \<open>\<open>default: assert(0)\<close> is reached by the codes the switch has no case for.\<close>

fun dm_what :: "DiskManagerErrorCode \<Rightarrow> (exn, string) outcome" where
  "dm_what UNKOWN_ERROR = Ret ''disk manager unknown error''"
| "dm_what DISK_ALREADY_EXISTS = Ret ''disk manager disk already exists''"
| "dm_what DISK_NOT_FOUND = Ret ''disk manager disk not found''"
| "dm_what INIT_DISK_ERROR = Ret ''disk manager init disk error''"
| "dm_what CLOSE_DISK_ERROR = Ret ''disk manager deinit disk error''"
| "dm_what CREATE_DISK_ERROR = Ret ''disk manager create disk error''"
| "dm_what DESTROY_DISK_ERROR = Ret ''disk manager destroy disk error''"
| "dm_what WRITE_DISK_ERROR = Ret ''disk manager write disk error''"
| "dm_what READ_DISK_ERROR = Ret ''disk manager read disk error''"
| "dm_what DISK_EXCEEDS_MAX_SIZE = Ret ''disk manager disk exceeds max size''"
| "dm_what GET_DISK_SIZE_ERROR = Fault Assertion_Failed"

fun bm_what :: "BufferManagerErrorCode \<Rightarrow> (exn, string) outcome" where
  "bm_what BM_UNKOWN_ERROR = Ret ''buffer manager unknown error''"
| "bm_what OUT_OF_MEMORY = Ret ''buffer manager out of memory''"
| "bm_what PAGE_NOT_FOUND = Ret ''buffer manager page not found''"
| "bm_what BM_DISK_NOT_FOUND = Ret ''buffer manager disk not found''"
| "bm_what DISK_PAGE_CURSOR_NOT_FOUND = Ret ''buffer manager disk page cursor not found''"
| "bm_what OUT_OF_PAGE_BOUNDS = Ret ''buffer manager read/write out of page bound''"
| "bm_what OUT_OF_PAGES = Ret ''buffer manager out of pages''"

fun organizer_what :: "OrganizerErrorCode \<Rightarrow> (exn, string) outcome" where
  "organizer_what MethodNotImplemented = Ret ''organizer error method not implemented''"

definition type_error_what :: "type_errorcode \<Rightarrow> (exn, string) outcome" where
  "type_error_what err_code = Fault Assertion_Failed"

lemma dm_what_Fault_iff: "dm_what e = Fault f \<longleftrightarrow> e = GET_DISK_SIZE_ERROR \<and> f = Assertion_Failed"
  by (cases e) auto

lemma dm_what_no_Throw [simp]: "dm_what e \<noteq> Throw x"
  by (cases e) auto

lemma dm_what_inj: "dm_what e = dm_what e' \<Longrightarrow> e = e'"
  by (cases e; cases e') simp_all

end
