(* ===== verification/Bitmap.thy ===== *)
theory Bitmap
  imports Errors
begin

text \<open>
  \<open>library/src/bitmap.h\<close> and \<open>bitmap.cpp\<close>: a bitmap over a heap array of bytes.  The
  array is the list of the bytes that were allocated, so every access checks the
  allocation, not the length the object believes it has.  \<open>bits\<close> is the abstract value
  of a bitmap, the list of its bits, and \<open>wf_bitmap\<close> the class invariant under which the
  operations implement the operations on that list.
\<close>

section \<open>The class\<close>

record bitmap =
  num_bits :: uint
  num_bytes :: uint
  bitmap_mem :: "byte list"

definition is_bit_set :: "byte \<Rightarrow> nat \<Rightarrow> bool" where
  "is_bit_set byte b \<longleftrightarrow> (ucast byte :: 32 word) AND push_bit b 1 \<noteq> 0"

definition set_bit_in :: "byte \<Rightarrow> nat \<Rightarrow> byte" where
  "set_bit_in byte b = ucast ((ucast byte :: 32 word) OR push_bit b 1)"

definition unset_bit_in :: "byte \<Rightarrow> nat \<Rightarrow> byte" where
  "unset_bit_in byte b = ucast ((ucast byte :: 32 word) AND NOT (push_bit b 1))"

definition fill_zero :: "byte list \<Rightarrow> nat \<Rightarrow> (exn, byte list) outcome" where
  \<comment> \<open>\<open>std::fill_n(bitmap.get(), n, 0)\<close>\<close>
  "fill_zero mem n = mem_write mem 0 (replicate n 0)"

definition bitmap_new :: "uint \<Rightarrow> (exn, bitmap) outcome" where
  "bitmap_new n =
     (let nbytes = (if n mod 2 \<noteq> 0 then n div 8 + 1 else n div 8);
          mem = replicate (unat (n div 8)) 0
      in obind (fill_zero mem (unat nbytes)) (\<lambda>mem'.
           Ret \<lparr>num_bits = n, num_bytes = nbytes, bitmap_mem = mem'\<rparr>))"

definition serialize :: "bitmap \<Rightarrow> byte list \<Rightarrow> (exn, byte list) outcome" where
  \<comment> \<open>\<open>dest\<close> is the memory from the destination pointer on\<close>
  "serialize b dest =
     obind (mem_read (bitmap_mem b) 0 (unat (num_bytes b))) (\<lambda>bs. mem_write dest 0 bs)"

definition deserialize :: "bitmap \<Rightarrow> byte list \<Rightarrow> (exn, bitmap) outcome" where
  "deserialize b src =
     obind (mem_read src 0 (unat (num_bytes b))) (\<lambda>bs.
     obind (mem_write (bitmap_mem b) 0 bs) (\<lambda>mem. Ret (b\<lparr>bitmap_mem := mem\<rparr>)))"

definition clear_bits :: "bitmap \<Rightarrow> (exn, bitmap) outcome" where
  "clear_bits b =
     obind (fill_zero (bitmap_mem b) (unat (num_bytes b))) (\<lambda>mem. Ret (b\<lparr>bitmap_mem := mem\<rparr>))"

definition read_bit :: "byte list \<Rightarrow> nat \<Rightarrow> (exn, bool) outcome" where
  \<comment> \<open>\<open>IS_BIT_SET(bitmap[i / 8], i % 8)\<close>\<close>
  "read_bit mem i = obind (mem_get mem (i div 8)) (\<lambda>byte. Ret (is_bit_set byte (i mod 8)))"

function free_bits_from :: "byte list \<Rightarrow> nat \<Rightarrow> nat \<Rightarrow> uint \<Rightarrow> (exn, uint) outcome" where
  \<comment> \<open>the loop of \<open>get_num_free_bits\<close>; its counter is an \<open>int\<close>, so \<open>i++\<close> can overflow\<close>
  "free_bits_from mem n i free_bits =
     (if i < n then
        obind (read_bit mem i) (\<lambda>taken.
          if i = INT_MAX then Fault (Undefined Signed_Overflow)
          else free_bits_from mem n (Suc i) (if taken then free_bits else free_bits + 1))
      else Ret free_bits)"
  by pat_completeness auto
termination
  by (relation "measure (\<lambda>(mem, n, i, free_bits). n - i)") auto

definition get_num_free_bits :: "bitmap \<Rightarrow> (exn, uint) outcome" where
  "get_num_free_bits b = free_bits_from (bitmap_mem b) (unat (num_bits b)) 0 0"

definition get_num_taken_bits :: "bitmap \<Rightarrow> (exn, uint) outcome" where
  "get_num_taken_bits b = obind (get_num_free_bits b) (\<lambda>free. Ret (num_bits b - free))"

function first_free_from :: "byte list \<Rightarrow> nat \<Rightarrow> nat \<Rightarrow> (exn, uint option) outcome" where
  "first_free_from mem n i =
     (if i < n then
        obind (read_bit mem i) (\<lambda>taken.
          if \<not> taken then Ret (Some (of_nat i))
          else if i = INT_MAX then Fault (Undefined Signed_Overflow)
          else first_free_from mem n (Suc i))
      else Ret None)"
  by pat_completeness auto
termination
  by (relation "measure (\<lambda>(mem, n, i). n - i)") auto

definition get_first_free_bit :: "bitmap \<Rightarrow> (exn, uint option) outcome" where
  "get_first_free_bit b = first_free_from (bitmap_mem b) (unat (num_bits b)) 0"

definition get_bit_val :: "bitmap \<Rightarrow> uint \<Rightarrow> (exn, bool) outcome" where
  "get_bit_val b bt = read_bit (bitmap_mem b) (unat bt)"

definition set_bit_val :: "bitmap \<Rightarrow> uint \<Rightarrow> bool \<Rightarrow> (exn, bitmap) outcome" where
  "set_bit_val b bt v =
     obind (mem_get (bitmap_mem b) (unat bt div 8)) (\<lambda>byte.
     obind (mem_set (bitmap_mem b) (unat bt div 8)
              (if v then set_bit_in byte (unat bt mod 8) else unset_bit_in byte (unat bt mod 8)))
       (\<lambda>mem. Ret (b\<lparr>bitmap_mem := mem\<rparr>)))"

abbreviation newline :: char where
  "newline \<equiv> CHR 0x0A"

definition get_num_bits :: "bitmap \<Rightarrow> uint" where
  "get_num_bits b = num_bits b"

definition get_num_bytes :: "bitmap \<Rightarrow> uint" where
  "get_num_bytes b = num_bytes b"

lemmas bitmap_getters [simp] = get_num_bits_def get_num_bytes_def

function print_from :: "bitmap \<Rightarrow> nat \<Rightarrow> (exn, string) outcome" where
  \<comment> \<open>the loop of \<open>operator<<\<close> from \<open>index\<close> on: the characters it sends to the stream\<close>
  "print_from b index =
     (if index < unat (get_num_bits b) then
        obind (get_bit_val b (of_nat index)) (\<lambda>v.
          let digit = (if v then CHR ''1'' else CHR ''0'') in
          if Suc index = unat (get_num_bits b) then Ret [digit]
          else obind (print_from b (Suc index)) (\<lambda>rest.
            Ret (digit # (if Suc index mod 32 = 0 then newline else CHR '':'') # rest)))
      else Ret [])"
  by pat_completeness auto
termination
  by (relation "measure (\<lambda>(b, index). unat (num_bits b) - index)") auto

definition print_bitmap :: "bitmap \<Rightarrow> (exn, string) outcome" where
  "print_bitmap b = print_from b 0"

declare free_bits_from.simps [simp del] first_free_from.simps [simp del] print_from.simps [simp del]

section \<open>The bit macros are the bit operations\<close>

lemma is_bit_set_eq: "b < 8 \<Longrightarrow> is_bit_set byte b = bit byte b"
proof -
  assume "b < 8"
  have "is_bit_set byte b \<longleftrightarrow> bit (ucast byte :: 32 word) b"
    unfolding is_bit_set_def by (simp add: and_exp_eq_0_iff_not_bit push_bit_eq_mult mult.commute)
  with \<open>b < 8\<close> show ?thesis by (simp add: bit_ucast_iff)
qed

lemma set_bit_in_eq: "b < 8 \<Longrightarrow> bit (set_bit_in byte b) k = (k < 8 \<and> (k = b \<or> bit byte k))"
  by (auto simp: set_bit_in_def bit_ucast_iff bit_or_iff bit_exp_iff
      dest: bit_imp_le_length)

lemma unset_bit_in_eq: "b < 8 \<Longrightarrow> bit (unset_bit_in byte b) k = (k < 8 \<and> k \<noteq> b \<and> bit byte k)"
  by (auto simp: unset_bit_in_def bit_ucast_iff bit_and_iff bit_not_iff bit_exp_iff
      dest: bit_imp_le_length)

section \<open>The abstract value and the invariant\<close>

definition wf_bitmap :: "bitmap \<Rightarrow> bool" where
  "wf_bitmap b \<longleftrightarrow> 8 dvd unat (num_bits b) \<and> unat (num_bits b) \<le> INT_MAX
     \<and> unat (num_bytes b) = unat (num_bits b) div 8
     \<and> length (bitmap_mem b) = unat (num_bytes b)"

definition mem_bit :: "byte list \<Rightarrow> nat \<Rightarrow> bool" where
  "mem_bit mem i = bit (mem ! (i div 8)) (i mod 8)"

definition bits :: "bitmap \<Rightarrow> bool list" where
  "bits b = map (mem_bit (bitmap_mem b)) [0..<unat (num_bits b)]"

lemma length_bits [simp]: "length (bits b) = unat (num_bits b)"
  by (simp add: bits_def)

lemma nth_bits: "i < unat (num_bits b) \<Longrightarrow> bits b ! i = mem_bit (bitmap_mem b) i"
  by (simp add: bits_def)

lemma wf_bitmap_bit_in_mem:
  "wf_bitmap b \<Longrightarrow> i < unat (num_bits b) \<Longrightarrow> i div 8 < length (bitmap_mem b)"
  by (auto simp: wf_bitmap_def intro: div_less_mono)

lemma wf_bitmap_sizes:
  assumes "wf_bitmap b"
  shows "length (bitmap_mem b) = unat (num_bytes b)"
    and "unat (num_bits b) = 8 * length (bitmap_mem b)"
  using assms by (auto simp: wf_bitmap_def)

lemma read_bit_in: "i div 8 < length mem \<Longrightarrow> read_bit mem i = Ret (mem_bit mem i)"
  by (simp add: read_bit_def mem_get_def mem_bit_def is_bit_set_eq)

lemma read_bit_out: "length mem \<le> i div 8 \<Longrightarrow> read_bit mem i = Fault (Undefined Out_Of_Bounds)"
  by (simp add: read_bit_def mem_get_def)

section \<open>Construction\<close>

lemma unat_div_8: "unat (n div 8 :: uint) = unat n div 8"
  by (simp add: unat_div)

lemma bitmap_new_sizes:
  "unat (if n mod 2 \<noteq> 0 then n div 8 + 1 else n div 8 :: uint) =
     (if odd (unat n) then unat n div 8 + 1 else unat n div 8)"
proof -
  have "unat n div 8 + 1 < 4294967296" using unat_uint_less [of n] by linarith
  then have "unat (n div 8 + 1) = unat n div 8 + 1"
    using unat_add_uint [of "n div 8" 1] by (simp add: unat_div_8)
  moreover have "n mod 2 = 0 \<longleftrightarrow> unat n mod 2 = 0"
    using unat_eq_zero [of "n mod 2"] by (simp add: unat_mod)
  ultimately show ?thesis by (simp add: unat_div_8 even_iff_mod_2_eq_zero)
qed

lemma bitmap_new_odd: "odd (unat n) \<Longrightarrow> bitmap_new n = Fault (Undefined Out_Of_Bounds)"
  unfolding bitmap_new_def Let_def fill_zero_def bitmap_new_sizes
  by (simp add: mem_write_def bitmap_new_sizes unat_div)

lemma bitmap_new_even:
  assumes "even (unat n)"
  shows "bitmap_new n = Ret \<lparr>num_bits = n, num_bytes = n div 8,
    bitmap_mem = replicate (unat n div 8) 0\<rparr>"
proof -
  have "n mod 2 = 0" using assms unat_eq_zero [of "n mod 2"] by (simp add: unat_mod even_iff_mod_2_eq_zero)
  then show ?thesis
    by (simp add: bitmap_new_def fill_zero_def mem_write_def overwrite_def unat_div_8)
qed

lemma wf_bitmap_new:
  assumes "8 dvd unat n" and "unat n \<le> INT_MAX"
  shows "\<exists>b. bitmap_new n = Ret b \<and> wf_bitmap b \<and> num_bits b = n \<and> bits b = replicate (unat n) False"
proof -
  have even: "even (unat n)" using assms(1) by (auto elim: dvd_trans [rotated])
  let ?b = "\<lparr>num_bits = n, num_bytes = n div 8, bitmap_mem = replicate (unat n div 8) 0\<rparr>"
  have "wf_bitmap ?b" using assms by (simp add: wf_bitmap_def unat_div_8)
  moreover have "bits ?b = replicate (unat n) False"
    using assms by (intro nth_equalityI) (auto simp: nth_bits mem_bit_def div_less_mono)
  ultimately show ?thesis using bitmap_new_even [OF even] by simp
qed

lemma div_8_pred:
  assumes "\<not> 8 dvd (m::nat)"
  shows "m div 8 \<le> (m - 1) div 8"
proof -
  have "8 * (m div 8) + m mod 8 = m" and "m mod 8 \<noteq> 0"
    using assms by (simp_all add: dvd_eq_mod_eq_0)
  then have "m div 8 * 8 \<le> m - 1" by linarith
  then show ?thesis by (simp add: less_eq_div_iff_mult_less_eq)
qed

lemma free_bits_from_overrun:
  assumes "length mem \<le> (n - 1) div 8" and "i < n" and "n \<le> INT_MAX"
  shows "free_bits_from mem n i acc = Fault (Undefined Out_Of_Bounds)"
  using assms
proof (induction mem n i acc rule: free_bits_from.induct)
  case (1 mem n i acc)
  show ?case
  proof (cases "i div 8 < length mem")
    case True
    then have "i \<noteq> n - 1" using "1.prems"(1) by (metis not_less)
    then have "Suc i < n" and "i \<noteq> INT_MAX" using "1.prems" by auto
    then show ?thesis using True "1.prems" "1.IH" [of "mem_bit mem i"]
      by (simp add: free_bits_from.simps [of mem n i] read_bit_in)
  next
    case False
    then show ?thesis using "1.prems" by (simp add: free_bits_from.simps [of mem n i] read_bit_out)
  qed
qed

lemma bitmap_new_undercounts:
  assumes "even (unat n)" and "\<not> 8 dvd unat n" and "unat n \<le> INT_MAX" and "bitmap_new n = Ret b"
  shows "get_num_free_bits b = Fault (Undefined Out_Of_Bounds)"
proof -
  from assms(2) have "0 < unat n" by (metis dvd_0_right gr0I)
  moreover have "length (bitmap_mem b) \<le> (unat n - 1) div 8" and "num_bits b = n"
    using bitmap_new_even [OF assms(1)] div_8_pred [OF assms(2)] assms(4) by auto
  ultimately show ?thesis
    unfolding get_num_free_bits_def using assms(3) by (simp add: free_bits_from_overrun)
qed

section \<open>Reading and writing bits\<close>

lemma get_bit_val_eq:
  "wf_bitmap b \<Longrightarrow> unat bt < unat (num_bits b) \<Longrightarrow> get_bit_val b bt = Ret (bits b ! unat bt)"
  by (simp add: get_bit_val_def read_bit_in wf_bitmap_bit_in_mem nth_bits)

lemma get_bit_val_out:
  "wf_bitmap b \<Longrightarrow> unat (num_bits b) \<le> unat bt
    \<Longrightarrow> get_bit_val b bt = Fault (Undefined Out_Of_Bounds)"
  unfolding get_bit_val_def by (rule read_bit_out) (auto simp: wf_bitmap_def)

lemma mem_bit_update:
  assumes "j < length mem"
  shows "mem_bit (mem[j := v]) i = (if i div 8 = j then bit v (i mod 8) else mem_bit mem i)"
  using assms by (auto simp: mem_bit_def)

lemma set_bit_val_eq:
  assumes "wf_bitmap b" and "unat bt < unat (num_bits b)"
  shows "\<exists>b'. set_bit_val b bt v = Ret b' \<and> wf_bitmap b' \<and> num_bits b' = num_bits b
    \<and> bits b' = (bits b)[unat bt := v]"
proof -
  let ?j = "unat bt div 8" and ?k = "unat bt mod 8" and ?m = "bitmap_mem b"
  let ?byte = "if v then set_bit_in (?m ! ?j) ?k else unset_bit_in (?m ! ?j) ?k"
  let ?b = "b\<lparr>bitmap_mem := ?m[?j := ?byte]\<rparr>"
  have j: "?j < length ?m" using assms by (rule wf_bitmap_bit_in_mem)
  have "set_bit_val b bt v = Ret ?b"
    using j by (simp add: set_bit_val_def mem_get_def mem_set_def)
  moreover have "wf_bitmap ?b" using assms(1) by (simp add: wf_bitmap_def)
  moreover have "bits ?b = (bits b)[unat bt := v]"
  proof (rule nth_equalityI)
    fix i
    assume "i < length (bits ?b)"
    moreover have "i = unat bt \<longleftrightarrow> i div 8 = ?j \<and> i mod 8 = ?k"
      by (metis div_mult_mod_eq)
    ultimately show "bits ?b ! i = (bits b)[unat bt := v] ! i"
      using j by (auto simp: nth_bits nth_list_update mem_bit_update set_bit_in_eq
          unset_bit_in_eq mem_bit_def)
  qed simp
  ultimately show ?thesis by (intro exI [of _ ?b]) simp
qed

section \<open>Counting and searching\<close>

lemma free_bits_from_eq:
  assumes "wf_bitmap b" and "i \<le> unat (num_bits b)"
  shows "free_bits_from (bitmap_mem b) (unat (num_bits b)) i acc =
    Ret (acc + of_nat (count_list (drop i (bits b)) False))"
  using assms(2)
proof (induction "unat (num_bits b) - i" arbitrary: i acc)
  case 0
  then show ?case by (simp add: free_bits_from.simps)
next
  case (Suc k)
  then have i: "i < unat (num_bits b)" by simp
  with assms(1) have "i \<noteq> INT_MAX" by (auto simp: wf_bitmap_def)
  moreover have "drop i (bits b) = bits b ! i # drop (Suc i) (bits b)"
    using i by (simp add: Cons_nth_drop_Suc)
  moreover have "k = unat (num_bits b) - Suc i" using Suc by simp
  ultimately show ?case
    using i Suc.hyps(1) [of "Suc i"] read_bit_in [OF wf_bitmap_bit_in_mem [OF assms(1) i]]
    by (simp add: free_bits_from.simps [of _ _ i] nth_bits)
qed

lemma get_num_free_bits_eq:
  "wf_bitmap b \<Longrightarrow> get_num_free_bits b = Ret (of_nat (count_list (bits b) False))"
  by (simp add: get_num_free_bits_def free_bits_from_eq)

lemma count_list_bool: "count_list xs False + count_list xs True = length xs"
  by (induction xs) auto

lemma get_num_taken_bits_eq:
  assumes "wf_bitmap b"
  shows "get_num_taken_bits b = Ret (of_nat (count_list (bits b) True))"
proof -
  have "unat (num_bits b) = count_list (bits b) False + count_list (bits b) True"
    using count_list_bool [of "bits b"] by simp
  then have "num_bits b = of_nat (count_list (bits b) False + count_list (bits b) True)"
    by (metis of_nat_unat ucast_id)
  then show ?thesis using assms
    by (simp add: get_num_taken_bits_def get_num_free_bits_eq)
qed

definition first_False :: "bool list \<Rightarrow> nat option" where
  \<comment> \<open>the least index that holds \<open>False\<close>\<close>
  "first_False xs = (if False \<in> set xs then Some (length (takeWhile (\<lambda>x. x) xs)) else None)"

lemma first_free_from_eq:
  assumes "wf_bitmap b" and "i \<le> unat (num_bits b)"
  shows "first_free_from (bitmap_mem b) (unat (num_bits b)) i =
    Ret (map_option (\<lambda>k. of_nat (i + k)) (first_False (drop i (bits b))))"
  using assms(2)
proof (induction "unat (num_bits b) - i" arbitrary: i)
  case 0
  then show ?case by (simp add: first_free_from.simps first_False_def)
next
  case (Suc k)
  then have i: "i < unat (num_bits b)" by simp
  with assms(1) have "i \<noteq> INT_MAX" by (auto simp: wf_bitmap_def)
  moreover have "drop i (bits b) = bits b ! i # drop (Suc i) (bits b)"
    using i by (simp add: Cons_nth_drop_Suc)
  moreover have "k = unat (num_bits b) - Suc i" using Suc by simp
  ultimately show ?case
    using i Suc.hyps(1) [of "Suc i"] read_bit_in [OF wf_bitmap_bit_in_mem [OF assms(1) i]]
    by (auto simp: first_free_from.simps [of _ _ i] nth_bits first_False_def)
qed

lemma get_first_free_bit_eq:
  "wf_bitmap b \<Longrightarrow> get_first_free_bit b = Ret (map_option of_nat (first_False (bits b)))"
  by (simp add: get_first_free_bit_def first_free_from_eq)

lemma first_False_SomeD:
  assumes "first_False xs = Some k"
  shows "k < length xs" and "\<not> xs ! k" and "\<And>i. i < k \<Longrightarrow> xs ! i"
proof -
  have k: "k = length (takeWhile (\<lambda>x. x) xs)" and "False \<in> set xs"
    using assms by (auto simp: first_False_def split: if_splits)
  then have "takeWhile (\<lambda>x. x) xs \<noteq> xs" by (auto simp: takeWhile_eq_all_conv)
  then show "k < length xs" unfolding k
    by (metis length_takeWhile_le nat_less_le takeWhile_eq_take take_all order_refl)
  then show "\<not> xs ! k" unfolding k by (rule nth_length_takeWhile)
  fix i assume "i < k"
  then have "takeWhile (\<lambda>x. x) xs ! i \<in> set (takeWhile (\<lambda>x. x) xs)" unfolding k by (rule nth_mem)
  then show "xs ! i" using \<open>i < k\<close> unfolding k by (auto simp: takeWhile_nth dest: set_takeWhileD)
qed

lemma first_False_None_iff: "first_False xs = None \<longleftrightarrow> False \<notin> set xs"
  by (simp add: first_False_def)

section \<open>Serialisation\<close>

lemma serialize_eq:
  assumes "wf_bitmap b" and "unat (num_bytes b) \<le> length dest"
  shows "serialize b dest = Ret (overwrite 0 (bitmap_mem b) dest)"
  using assms by (simp add: serialize_def mem_read_def mem_write_def wf_bitmap_def)

lemma serialize_overrun:
  assumes "wf_bitmap b" and "length dest < unat (num_bytes b)"
  shows "serialize b dest = Fault (Undefined Out_Of_Bounds)"
  using assms by (simp add: serialize_def mem_read_def mem_write_def wf_bitmap_def)

lemma deserialize_eq:
  assumes "wf_bitmap b" and "unat (num_bytes b) \<le> length src"
  shows "deserialize b src = Ret (b\<lparr>bitmap_mem := take (unat (num_bytes b)) src\<rparr>)"
  using assms by (simp add: deserialize_def mem_read_def mem_write_def wf_bitmap_def overwrite_def)

lemma wf_bitmap_mem_update:
  "wf_bitmap b \<Longrightarrow> length mem = length (bitmap_mem b) \<Longrightarrow> wf_bitmap (b\<lparr>bitmap_mem := mem\<rparr>)"
  by (simp add: wf_bitmap_def)

lemma clear_bits_eq:
  assumes "wf_bitmap b"
  shows "\<exists>b'. clear_bits b = Ret b' \<and> wf_bitmap b' \<and> num_bits b' = num_bits b
    \<and> bits b' = replicate (unat (num_bits b)) False"
proof -
  let ?b = "b\<lparr>bitmap_mem := replicate (unat (num_bytes b)) 0\<rparr>"
  have "clear_bits b = Ret ?b"
    using assms by (simp add: clear_bits_def fill_zero_def mem_write_def overwrite_def wf_bitmap_def)
  moreover have "wf_bitmap ?b" using assms by (simp add: wf_bitmap_def)
  moreover have "bits ?b = replicate (unat (num_bits b)) False"
    using wf_bitmap_sizes [OF assms]
    by (intro nth_equalityI) (auto simp: nth_bits mem_bit_def intro!: nth_replicate [THEN arg_cong])
  ultimately show ?thesis by (intro exI [of _ ?b]) simp
qed

section \<open>Printing\<close>

definition digit_of :: "bool \<Rightarrow> char" where
  "digit_of v = (if v then CHR ''1'' else CHR ''0'')"

definition separator_after :: "nat \<Rightarrow> char" where
  "separator_after i = (if Suc i mod 32 = 0 then newline else CHR '':'')"

text \<open>The printed form: the digits from index \<open>i\<close> on, each but the last with its separator.\<close>

fun rendering :: "nat \<Rightarrow> bool list \<Rightarrow> string" where
  "rendering i [] = []"
| "rendering i [v] = [digit_of v]"
| "rendering i (v # w # vs) = digit_of v # separator_after i # rendering (Suc i) (w # vs)"

lemma print_from_eq:
  assumes "wf_bitmap b" and "i \<le> unat (num_bits b)"
  shows "print_from b i = Ret (rendering i (drop i (bits b)))"
  using assms(2)
proof (induction "unat (num_bits b) - i" arbitrary: i)
  case 0
  then show ?case by (simp add: print_from.simps)
next
  case (Suc k)
  then have i: "i < unat (num_bits b)" by simp
  then have "i < 4294967296" using unat_uint_less [of "num_bits b"] by linarith
  then have get: "get_bit_val b (of_nat i) = Ret (bits b ! i)"
    using get_bit_val_eq [OF assms(1), of "of_nat i"] i by (simp add: unat_of_nat_uint)
  have drop: "drop i (bits b) = bits b ! i # drop (Suc i) (bits b)"
    using i by (simp add: Cons_nth_drop_Suc)
  show ?case
  proof (cases "Suc i = unat (num_bits b)")
    case True
    then show ?thesis using i get by (simp add: print_from.simps [of b i] drop digit_of_def)
  next
    case False
    then have "drop (Suc i) (bits b) = bits b ! Suc i # drop (Suc (Suc i)) (bits b)"
      using i by (simp add: Cons_nth_drop_Suc)
    moreover have "print_from b (Suc i) = Ret (rendering (Suc i) (drop (Suc i) (bits b)))"
      using Suc i by simp
    ultimately show ?thesis using i get False
      by (simp add: print_from.simps [of b i] drop digit_of_def separator_after_def Let_def)
  qed
qed

text \<open>Reading the digits of a printed form back gives the bits.\<close>

definition read_back :: "string \<Rightarrow> bool list" where
  "read_back cs = map (\<lambda>c. c = CHR ''1'') (filter (\<lambda>c. c = CHR ''0'' \<or> c = CHR ''1'') cs)"

lemma read_back_rendering [simp]: "read_back (rendering i vs) = vs"
  by (induction i vs rule: rendering.induct)
    (auto simp: read_back_def digit_of_def separator_after_def)

lemma length_rendering: "length (rendering i vs) = 2 * length vs - 1"
  by (induction i vs rule: rendering.induct) auto

end
