(* ===== verification/Logger.thy ===== *)
theory Logger
  imports Errors
begin

text \<open>
  \<open>library/src/logger.h\<close>: a \<open>LoggerStream\<close> collects a message and writes it, with its
  tag, to the registered output streams when it is destroyed.  The output streams are
  numbered and their contents are the map \<open>outs\<close>; \<open>OsStreams\<close> is the vector of numbers.
\<close>

type_synonym os_stream_ids = "nat list"

datatype LogLevel = TRACE | INFO | WARNING | ERROR | FATAL

record log_opts =
  log_level :: LogLevel
  log_file :: string
  log_func :: string
  log_line :: int
  log_date :: string
  log_time :: string

record logger_stream =
  os_streams :: os_stream_ids
  logger_stream_print_opts :: log_opts
  stream_buffer :: string
  printed_tag :: bool

definition logger_stream_new :: "os_stream_ids \<Rightarrow> log_opts \<Rightarrow> logger_stream" where
  "logger_stream_new streams opts =
     \<lparr>os_streams = streams, logger_stream_print_opts = opts, stream_buffer = [], printed_tag = False\<rparr>"

fun level_tag :: "LogLevel \<Rightarrow> string" where
  "level_tag TRACE = ''[TRACE]-''"
| "level_tag INFO = ''[INFO]--''"
| "level_tag WARNING = ''[WARN]--''"
| "level_tag ERROR = ''[ERROR]-''"
| "level_tag FATAL = ''[FATAL]-''"

fun find_last_slash :: "string \<Rightarrow> string option \<Rightarrow> string option" where
  \<comment> \<open>the \<open>while\<close> over \<open>file\<close>: \<open>last_slash\<close> is the C string after the last slash seen\<close>
  "find_last_slash [] last_slash = last_slash"
| "find_last_slash (c # cs) last_slash =
     find_last_slash cs (if c = CHR ''/'' then Some cs else last_slash)"

definition log_put :: "logger_stream \<Rightarrow> string \<Rightarrow> logger_stream" where
  \<comment> \<open>\<open>operator<<\<close>\<close>
  "log_put ls msg = ls\<lparr>stream_buffer := stream_buffer ls @ msg\<rparr>"

definition print_tag :: "logger_stream \<Rightarrow> (exn, logger_stream) outcome" where
  "print_tag ls =
     (let opts = logger_stream_print_opts ls;
          buf = stream_buffer ls @ level_tag (log_level opts) @ ''['' @ log_time opts @ '']-'' @ ''[''
      in case find_last_slash (log_file opts) None of
           None \<Rightarrow> Fault Assertion_Failed
         | Some last_slash \<Rightarrow>
             Ret (ls\<lparr>stream_buffer := buf @ last_slash @ ''+'' @ log_func opts @ ''+'' @
                       show_int (log_line opts) @ '']'' @ ''> '',
                     logger_stream_print_opts := opts\<lparr>log_file := []\<rparr>,
                     printed_tag := True\<rparr>))"

definition flush :: "logger_stream \<Rightarrow> (nat \<Rightarrow> string) \<Rightarrow> (exn, logger_stream \<times> (nat \<Rightarrow> string)) outcome" where
  \<comment> \<open>\<open>stream_buffer.clear()\<close> resets the state flags of the buffer, not its contents\<close>
  "flush ls outs =
     obind (if printed_tag ls then Ret ls else print_tag ls) (\<lambda>ls'.
       Ret (ls', fold (\<lambda>os o'. o'(os := o' os @ stream_buffer ls')) (os_streams ls') outs))"

text \<open>
  The manipulators that the statements use insert characters; \<open>flush\<close> of the standard library
  inserts none.
\<close>

datatype manip = Endl | Ends | Flush

fun manip_text :: "manip \<Rightarrow> string" where
  "manip_text Endl = [CHR 0x0A]"
| "manip_text Ends = [CHR 0x00]"
| "manip_text Flush = []"

definition log_manip :: "logger_stream \<Rightarrow> manip \<Rightarrow> logger_stream" where
  \<comment> \<open>the overload of \<open>operator<<\<close> for manipulators: \<open>manip(stream_buffer)\<close>\<close>
  "log_manip ls manip = ls\<lparr>stream_buffer := stream_buffer ls @ manip_text manip\<rparr>"

datatype log_arg = Message string | Manip manip

fun log_arg_put :: "logger_stream \<Rightarrow> log_arg \<Rightarrow> logger_stream" where
  "log_arg_put ls (Message msg) = log_put ls msg"
| "log_arg_put ls (Manip m) = log_manip ls m"

definition logger_stream_destroy ::
    "logger_stream \<Rightarrow> (nat \<Rightarrow> string) \<Rightarrow> (exn, nat \<Rightarrow> string) outcome" where
  "logger_stream_destroy ls outs = obind (flush ls outs) (\<lambda>(ls, outs'). Ret outs')"

text \<open>The static vector \<open>Logger::os_streams\<close>, empty until \<open>init\<close>, and the streams of the program.\<close>

record logger =
  static_streams :: os_stream_ids
  written :: "nat \<Rightarrow> string"

definition logger_start :: logger where
  "logger_start = \<lparr>static_streams = [], written = (\<lambda>os. [])\<rparr>"

definition logger_init :: "os_stream_ids \<Rightarrow> logger \<Rightarrow> logger" where
  "logger_init streams lg = lg\<lparr>static_streams := streams\<rparr>"

definition logger_log :: "log_opts \<Rightarrow> logger \<Rightarrow> logger_stream" where
  "logger_log opts lg = logger_stream_new (static_streams lg) opts"

datatype log_stmt = Init os_stream_ids | Log log_opts "log_arg list"

fun log_stmt_run :: "log_stmt \<Rightarrow> logger \<Rightarrow> (exn, logger) outcome" where
  \<comment> \<open>\<open>Logger::init(streams);\<close> and \<open>LOG(level) << a1 << ... << an;\<close>, whose temporary is destroyed at
     the end of the statement\<close>
  "log_stmt_run (Init streams) lg = Ret (logger_init streams lg)"
| "log_stmt_run (Log opts args) lg =
     obind (logger_stream_destroy (foldl log_arg_put (logger_log opts lg) args) (written lg)) (\<lambda>outs'.
       Ret (lg\<lparr>written := outs'\<rparr>))"

fun log_run :: "log_stmt list \<Rightarrow> logger \<Rightarrow> (exn, logger) outcome" where
  "log_run [] lg = Ret lg"
| "log_run (st # sts) lg = obind (log_stmt_run st lg) (log_run sts)"

section \<open>What the statements write\<close>

definition base_name :: "string \<Rightarrow> string" where
  "base_name file = rev (takeWhile (\<lambda>c. c \<noteq> CHR ''/'') (rev file))"

definition log_tag :: "log_opts \<Rightarrow> string" where
  "log_tag opts =
     level_tag (log_level opts) @ ''['' @ log_time opts @ '']-['' @ base_name (log_file opts) @ ''+'' @ log_func opts
       @ ''+'' @ show_int (log_line opts) @ '']> ''"

fun arg_text :: "log_arg \<Rightarrow> string" where
  "arg_text (Message msg) = msg"
| "arg_text (Manip m) = manip_text m"

definition log_line_text :: "log_opts \<Rightarrow> log_arg list \<Rightarrow> string" where
  "log_line_text opts args = concat (map arg_text args) @ log_tag opts"

fun log_expected :: "nat list \<Rightarrow> log_stmt list \<Rightarrow> nat \<Rightarrow> string" where
  \<comment> \<open>what is added to a stream: each statement once per registration\<close>
  "log_expected streams [] os = []"
| "log_expected streams (Init streams' # sts) os = log_expected streams' sts os"
| "log_expected streams (Log opts args # sts) os =
     concat (replicate (count_list streams os) (log_line_text opts args)) @ log_expected streams sts os"

fun has_dir :: "log_stmt \<Rightarrow> bool" where
  "has_dir (Init streams) = True"
| "has_dir (Log opts args) = (CHR ''/'' \<in> set (log_file opts))"

lemma find_last_slash_None: "CHR ''/'' \<notin> set cs \<Longrightarrow> find_last_slash cs l = l"
  by (induction cs) auto

lemma find_last_slash_eq:
  "find_last_slash file None = (if CHR ''/'' \<in> set file then Some (base_name file) else None)"
proof (cases "CHR ''/'' \<in> set file")
  case True
  then obtain dir base where f: "file = dir @ CHR ''/'' # base" "CHR ''/'' \<notin> set base"
    by (metis split_list_last)
  have "find_last_slash (dir @ CHR ''/'' # base) l = Some base" for l
    using f(2) by (induction dir arbitrary: l) (simp_all add: find_last_slash_None)
  moreover have "base_name file = base"
    using f by (simp add: base_name_def takeWhile_append takeWhile_eq_all_conv [THEN iffD2])
  ultimately show ?thesis using f(1) by simp
qed (simp add: find_last_slash_None)

lemma fold_append_streams:
  "fold (\<lambda>os o'. o'(os := o' os @ w)) ss texts = (\<lambda>os. texts os @ concat (replicate (count_list ss os) w))"
  by (induction ss arbitrary: texts) (auto simp: fun_eq_iff replicate_append_same)

lemma log_arg_put_foldl:
  "foldl log_arg_put ls args = ls\<lparr>stream_buffer := stream_buffer ls @ concat (map arg_text args)\<rparr>"
proof (induction args arbitrary: ls)
  case (Cons a args)
  have "log_arg_put ls a = ls\<lparr>stream_buffer := stream_buffer ls @ arg_text a\<rparr>"
    by (cases a) (simp_all add: log_put_def log_manip_def)
  with Cons.IH show ?case by simp
qed simp

lemma log_stmt_run_eq:
  "log_stmt_run (Log opts args) lg =
    (if CHR ''/'' \<in> set (log_file opts)
     then Ret (lg\<lparr>written := (\<lambda>os. written lg os
            @ concat (replicate (count_list (static_streams lg) os) (log_line_text opts args)))\<rparr>)
     else Fault Assertion_Failed)"
  by (simp add: logger_log_def logger_stream_destroy_def log_arg_put_foldl flush_def logger_stream_new_def
      print_tag_def Let_def find_last_slash_eq fold_append_streams log_line_text_def log_tag_def)

lemma log_run_eq:
  "list_all has_dir sts \<Longrightarrow> \<exists>lg'. log_run sts lg = Ret lg'
    \<and> written lg' = (\<lambda>os. written lg os @ log_expected (static_streams lg) sts os)"
proof (induction sts arbitrary: lg)
  case (Cons st sts)
  obtain lg1 where "log_stmt_run st lg = Ret lg1"
    and "(\<lambda>os. written lg1 os @ log_expected (static_streams lg1) sts os) =
      (\<lambda>os. written lg os @ log_expected (static_streams lg) (st # sts) os)"
    using Cons.prems by (cases st) (simp_all add: log_stmt_run_eq logger_init_def del: log_stmt_run.simps(2))
  with Cons show ?case by (fastforce simp del: log_stmt_run.simps)
qed simp

lemma log_run_fails: "\<not> list_all has_dir sts \<Longrightarrow> log_run sts lg = Fault Assertion_Failed"
proof (induction sts arbitrary: lg)
  case (Cons st sts)
  show ?case
  proof (cases "has_dir st")
    case True
    with Cons show ?thesis
      by (cases st) (simp_all add: log_stmt_run_eq del: log_stmt_run.simps(2))
  next
    case False
    then show ?thesis by (cases st) (simp_all add: log_stmt_run_eq del: log_stmt_run.simps(2))
  qed
qed simp

end
