(* ===== verification/Test_Log.thy ===== *)
theory Test_Log
  imports Logger
begin

text \<open>
  \<open>tests/src/tests_helper.cpp\<close>: what a test does to the log.  \<open>Tests::init\<close> and the static logger are
  the state; the process and thread ids, in their printed forms, are arguments, and so are \<open>__FILE__\<close>,
  \<open>__DATE__\<close> and \<open>__TIME__\<close>.  The locks are left out: the program has one thread.
\<close>

record test_log =
  init_done :: bool
  logger_of :: logger

record build_info =
  build_file :: string
  build_date :: string
  build_time :: string

definition cerr :: nat where
  "cerr = 2"

definition helper_opts :: "build_info \<Rightarrow> string \<Rightarrow> int \<Rightarrow> log_opts" where
  \<comment> \<open>the argument of \<open>LOG(LogLevel::INFO)\<close> at a line of the file\<close>
  "helper_opts b func line =
     \<lparr>log_level = INFO, log_file = build_file b, log_func = func, log_line = line,
      log_date = build_date b, log_time = build_time b\<rparr>"

definition log_stmts :: "log_stmt list \<Rightarrow> test_log \<Rightarrow> (exn, test_log) outcome" where
  "log_stmts sts s = obind (log_run sts (logger_of s)) (\<lambda>lg. Ret (s\<lparr>logger_of := lg\<rparr>))"

definition begin_stmts :: "build_info \<Rightarrow> string \<Rightarrow> string \<Rightarrow> log_stmt list" where
  "begin_stmts b pid thread_id =
     [Log (helper_opts b ''test_begin'' 19) [Message ''pid: '', Message pid, Manip Endl],
      Log (helper_opts b ''test_begin'' 22) [Message ''thread_id: '', Message thread_id, Manip Endl]]"

definition test_begin :: "build_info \<Rightarrow> string \<Rightarrow> string \<Rightarrow> test_log \<Rightarrow> (exn, test_log) outcome" where
  "test_begin b pid thread_id s =
     obind (if \<not> init_done s
            then obind (log_stmts [Init [cerr]] s) (\<lambda>s. Ret (s\<lparr>init_done := True\<rparr>))
            else Ret s)
       (log_stmts (begin_stmts b pid thread_id))"

fun test_begins :: "build_info \<Rightarrow> string \<Rightarrow> string \<Rightarrow> nat \<Rightarrow> test_log \<Rightarrow> (exn, test_log) outcome" where
  \<comment> \<open>the tests of a program, each of which calls \<open>test_begin\<close> first\<close>
  "test_begins b pid thread_id 0 s = Ret s"
| "test_begins b pid thread_id (Suc n) s = obind (test_begin b pid thread_id s) (test_begins b pid thread_id n)"

definition test_log_start :: test_log where
  "test_log_start = \<lparr>init_done = False, logger_of = logger_start\<rparr>"

definition begin_text :: "build_info \<Rightarrow> string \<Rightarrow> string \<Rightarrow> string" where
  "begin_text b pid thread_id = log_expected [cerr] (begin_stmts b pid thread_id) cerr"

lemma begin_stmts_run:
  assumes "CHR ''/'' \<in> set (build_file b)" and "static_streams lg = [cerr]"
  shows "log_run (begin_stmts b pid thread_id) lg =
    Ret (lg\<lparr>written := (written lg)(cerr := written lg cerr @ begin_text b pid thread_id)\<rparr>)"
  using assms
  by (simp add: begin_stmts_def begin_text_def log_stmt_run_eq helper_opts_def fun_eq_iff cong: if_cong
      del: log_stmt_run.simps(2))

text \<open>The log is set up by the first test only, and every test adds its two lines to \<open>std::cerr\<close>.\<close>

lemma test_begin_run:
  assumes "CHR ''/'' \<in> set (build_file b)" and "init_done s \<longrightarrow> static_streams (logger_of s) = [cerr]"
  obtains s' where "test_begin b pid thread_id s = Ret s'" and "init_done s'"
    and "static_streams (logger_of s') = [cerr]"
    and "written (logger_of s') = (written (logger_of s))(cerr := written (logger_of s) cerr @ begin_text b pid thread_id)"
proof (rule that)
  let ?lg = "logger_init [cerr] (logger_of s)"
  have lg: "static_streams ?lg = [cerr]" "written ?lg = written (logger_of s)" by (simp_all add: logger_init_def)
  have "init_done s \<Longrightarrow> logger_of s = ?lg" using assms(2) by (simp add: logger_init_def)
  then show "test_begin b pid thread_id s = Ret (s\<lparr>init_done := True, logger_of :=
      ?lg\<lparr>written := (written ?lg)(cerr := written ?lg cerr @ begin_text b pid thread_id)\<rparr>\<rparr>)"
    using begin_stmts_run [OF assms(1) lg(1)] begin_stmts_run [OF assms(1), of "logger_of s"] assms(2)
    by (cases "init_done s") (simp_all add: test_begin_def log_stmts_def)
qed (simp_all add: logger_init_def)

lemma test_begins_run:
  assumes "CHR ''/'' \<in> set (build_file b)"
  shows "\<exists>s'. test_begins b pid thread_id n test_log_start = Ret s'
    \<and> written (logger_of s') cerr = concat (replicate n (begin_text b pid thread_id))"
proof -
  have "\<exists>s'. test_begins b pid thread_id n s = Ret s'
      \<and> written (logger_of s') cerr = written (logger_of s) cerr @ concat (replicate n (begin_text b pid thread_id))"
    if "init_done s \<longrightarrow> static_streams (logger_of s) = [cerr]" for s
    using that
  proof (induction n arbitrary: s)
    case (Suc n)
    obtain s1 where "test_begin b pid thread_id s = Ret s1" "init_done s1" "static_streams (logger_of s1) = [cerr]"
      "written (logger_of s1) = (written (logger_of s))(cerr := written (logger_of s) cerr @ begin_text b pid thread_id)"
      using test_begin_run [OF assms Suc.prems] by blast
    with Suc.IH [of s1] show ?case by auto
  qed simp
  from this [of test_log_start] show ?thesis by (simp add: test_log_start_def logger_start_def)
qed

lemma test_begin_fails:
  assumes "CHR ''/'' \<notin> set (build_file b)"
  shows "test_begin b pid thread_id s = Fault Assertion_Failed"
proof -
  have "log_run (begin_stmts b pid thread_id) lg = Fault Assertion_Failed" for lg
    using assms log_run_fails [of "begin_stmts b pid thread_id" lg]
    by (simp add: begin_stmts_def helper_opts_def del: log_run.simps)
  then show ?thesis by (cases "init_done s") (simp_all add: test_begin_def log_stmts_def)
qed

end
