(* ===== verification/Result_Class.thy ===== *)
theory Result_Class
  imports Errors
begin

text \<open>
  \<open>library/src/result.h\<close>: the class \<open>Result<R, E>\<close>, its specialisation \<open>Result<void, E>\<close>
  and the two macros that return early on an error.  The first section is the class as
  it is written, two optionals; the second is the sum \<open>'e + 'r\<close> the other theories use
  for it (\<open>obj_of_methods\<close>: the class behaves as the sum); the third is the macros.
\<close>

section \<open>The class\<close>

definition opt_value :: "'a option \<Rightarrow> (exn, 'a) outcome" where
  \<comment> \<open>\<open>std::optional::value\<close>\<close>
  "opt_value v = (case v of None \<Rightarrow> Throw Bad_Optional_Access | Some a \<Rightarrow> Ret a)"

lemma opt_value_simps [simp]:
  "opt_value (Some a) = Ret a" "opt_value None = Throw Bad_Optional_Access"
  by (simp_all add: opt_value_def)

record ('r, 'e) result_obj =
  m_value_opt :: "'r option"
  m_error_opt :: "'e option"

definition result_of_value :: "'r \<Rightarrow> ('r, 'e) result_obj" where
  "result_of_value r = \<lparr>m_value_opt = Some r, m_error_opt = None\<rparr>"

definition result_of_error :: "'e \<Rightarrow> ('r, 'e) result_obj" where
  "result_of_error e = \<lparr>m_value_opt = None, m_error_opt = Some e\<rparr>"

definition obj_is_error :: "('r, 'e) result_obj \<Rightarrow> bool" where
  "obj_is_error r \<longleftrightarrow> m_error_opt r \<noteq> None"

definition obj_is_value :: "('r, 'e) result_obj \<Rightarrow> bool" where
  "obj_is_value r \<longleftrightarrow> m_value_opt r \<noteq> None"

definition obj_get_value ::
    "('e \<Rightarrow> (exn, string) outcome) \<Rightarrow> ('r, 'e) result_obj \<Rightarrow> (exn, 'r) outcome" where
  \<comment> \<open>on an error the message is logged first, which calls \<open>what\<close>; the \<open>assert\<close> of a
     string literal that follows never fails, so control reaches \<open>m_value_opt.value()\<close>\<close>
  "obj_get_value what r =
     (if obj_is_error r
      then obind (opt_value (m_error_opt r)) (\<lambda>e. obind (what e) (\<lambda>_. opt_value (m_value_opt r)))
      else opt_value (m_value_opt r))"

definition obj_get_error :: "('r, 'e) result_obj \<Rightarrow> (exn, 'e) outcome" where
  "obj_get_error r =
     obind (oassert (obj_is_error r \<and> m_error_opt r \<noteq> None)) (\<lambda>_. opt_value (m_error_opt r))"

definition obj_value_or ::
    "('e \<Rightarrow> (exn, string) outcome) \<Rightarrow> ('e \<Rightarrow> (exn, 'r) outcome) \<Rightarrow> ('r, 'e) result_obj
      \<Rightarrow> (exn, 'r) outcome" where
  "obj_value_or what func r =
     (if obj_is_error r then obind (obj_get_error r) func else obj_get_value what r)"

text \<open>\<open>Result<void, E>\<close> keeps the error only.\<close>

record 'e void_result_obj =
  v_error_opt :: "'e option"

datatype VoidValue = Ok

definition void_result_ok :: "VoidValue \<Rightarrow> 'e void_result_obj" where
  "void_result_ok v = \<lparr>v_error_opt = None\<rparr>"

definition void_result_of_error :: "'e \<Rightarrow> 'e void_result_obj" where
  "void_result_of_error e = \<lparr>v_error_opt = Some e\<rparr>"

definition void_is_error :: "'e void_result_obj \<Rightarrow> bool" where
  "void_is_error r \<longleftrightarrow> v_error_opt r \<noteq> None"

definition void_is_value :: "'e void_result_obj \<Rightarrow> bool" where
  "void_is_value r \<longleftrightarrow> \<not> v_error_opt r \<noteq> None"

definition void_get_value ::
    "('e \<Rightarrow> (exn, string) outcome) \<Rightarrow> 'e void_result_obj \<Rightarrow> (exn, unit) outcome" where
  "void_get_value what r =
     (if void_is_error r
      then obind (opt_value (v_error_opt r)) (\<lambda>e. obind (what e) (\<lambda>_. Ret ()))
      else Ret ())"

definition void_get_error :: "'e void_result_obj \<Rightarrow> (exn, 'e) outcome" where
  "void_get_error r =
     obind (oassert (void_is_error r \<and> v_error_opt r \<noteq> None)) (\<lambda>_. opt_value (v_error_opt r))"

section \<open>Results as sums\<close>

text \<open>
  There is no default constructor and no assignment to the optionals, so an object is
  always one of the two constructors' values; \<open>'e + 'r\<close> is the type of those.
\<close>

type_synonym ('r, 'e) result = "'e + 'r"

definition is_error :: "('r, 'e) result \<Rightarrow> bool" where
  "is_error r = (case r of Inl _ \<Rightarrow> True | Inr _ \<Rightarrow> False)"

definition is_value :: "('r, 'e) result \<Rightarrow> bool" where
  "is_value r = (case r of Inl _ \<Rightarrow> False | Inr _ \<Rightarrow> True)"

definition get_value :: "('e \<Rightarrow> (exn, string) outcome) \<Rightarrow> ('r, 'e) result \<Rightarrow> (exn, 'r) outcome" where
  "get_value what r =
     (case r of Inl e \<Rightarrow> obind (what e) (\<lambda>_. Throw Bad_Optional_Access) | Inr v \<Rightarrow> Ret v)"

definition get_error :: "('r, 'e) result \<Rightarrow> (exn, 'e) outcome" where
  "get_error r = (case r of Inl e \<Rightarrow> Ret e | Inr _ \<Rightarrow> Fault Assertion_Failed)"

definition value_or :: "('e \<Rightarrow> (exn, 'r) outcome) \<Rightarrow> ('r, 'e) result \<Rightarrow> (exn, 'r) outcome" where
  "value_or func r = (case r of Inl e \<Rightarrow> func e | Inr v \<Rightarrow> Ret v)"

lemma result_simps [simp]:
  "is_error (Inl e)" "\<not> is_error (Inr v)" "\<not> is_value (Inl e)" "is_value (Inr v)"
  "get_error (Inl e) = Ret e" "get_error (Inr v) = Fault Assertion_Failed"
  "get_value what (Inr v) = Ret v"
  "get_value what (Inl e) = obind (what e) (\<lambda>_. Throw Bad_Optional_Access)"
  "value_or func (Inl e) = func e" "value_or func (Inr v) = Ret v"
  by (simp_all add: is_error_def is_value_def get_error_def get_value_def value_or_def)

lemma is_value_not_error: "is_value r \<longleftrightarrow> \<not> is_error r"
  by (cases r) simp_all

fun obj_of :: "('r, 'e) result \<Rightarrow> ('r, 'e) result_obj" where
  "obj_of (Inl e) = result_of_error e"
| "obj_of (Inr v) = result_of_value v"

lemmas obj_defs = result_of_value_def result_of_error_def obj_is_error_def obj_is_value_def
  obj_get_value_def obj_get_error_def obj_value_or_def

text \<open>
  On the objects its constructors make every method of the class is the sum's; \<open>get_value\<close> of an
  error never returns a value.
\<close>

lemma obj_of_methods:
  "obj_is_error (obj_of r) = is_error r" "obj_is_value (obj_of r) = is_value r"
  "obj_get_value what (obj_of r) = get_value what r" "obj_get_error (obj_of r) = get_error r"
  "obj_value_or what func (obj_of r) = value_or func r"
  by (cases r, simp_all add: obj_defs)+

text \<open>\<open>Result<void, E>\<close> is the sum with the one value \<open>()\<close>, but for \<open>get_value\<close>, which returns on an error.\<close>

fun void_obj_of :: "(unit, 'e) result \<Rightarrow> 'e void_result_obj" where
  "void_obj_of (Inl e) = void_result_of_error e"
| "void_obj_of (Inr u) = void_result_ok Ok"

lemma void_obj_of_methods:
  "void_is_error (void_obj_of r) = is_error r" "void_is_value (void_obj_of r) = is_value r"
  "void_get_error (void_obj_of r) = get_error r"
  "void_get_value what (void_obj_of r) = (case r of Inl e \<Rightarrow> obind (what e) (\<lambda>_. Ret ()) | Inr u \<Rightarrow> Ret ())"
  by (cases r, simp_all add: void_result_ok_def void_result_of_error_def void_is_error_def void_is_value_def
      void_get_error_def void_get_value_def)+

lemma get_value_of_error: "is_error r \<longleftrightarrow> (\<forall>v. get_value what r \<noteq> Ret v)"
  by (cases r) (simp_all add: obind_eq_Ret)

section \<open>The early-return macros\<close>

text \<open>
  A macro argument is an expression, not a value: \<open>PROP_IF_ERROR\<close> evaluates it a second
  time when it was an error, \<open>UNWRAP_OR_PROP_ERROR\<close> evaluates it twice on either path.
  So both take the computation, and run it again.
\<close>

definition prop_if_error ::
    "('s, ('r, 'e) result) cpp \<Rightarrow> ('s, ('q, 'e) result) cpp \<Rightarrow> ('s, ('q, 'e) result) cpp" where
  "prop_if_error m rest =
     bindc m (\<lambda>r.
       if is_error r
       then bindc m (\<lambda>r2. bindc (liftc (get_error r2)) (\<lambda>e. retc (Inl e)))
       else rest)"

definition unwrap_or_prop_error ::
    "('e \<Rightarrow> (exn, string) outcome) \<Rightarrow> ('s, ('r, 'e) result) cpp
      \<Rightarrow> ('r \<Rightarrow> ('s, ('q, 'e) result) cpp) \<Rightarrow> ('s, ('q, 'e) result) cpp" where
  "unwrap_or_prop_error what m k =
     bindc m (\<lambda>r.
       if is_error r
       then bindc m (\<lambda>r2. bindc (liftc (get_error r2)) (\<lambda>e. retc (Inl e)))
       else bindc m (\<lambda>r2. bindc (liftc (get_value what r2)) k))"

text \<open>When both evaluations give the same result the macros are the sequencing of results.\<close>

lemma prop_if_error_value: "m s = (Ret (Inr v), s') \<Longrightarrow> prop_if_error m rest s = rest s'"
  by (simp add: prop_if_error_def bindc_eqs)

lemma prop_if_error_error:
  "m s = (Ret (Inl e), s') \<Longrightarrow> m s' = (Ret (Inl e'), s'')
    \<Longrightarrow> prop_if_error m rest s = (Ret (Inl e'), s'')"
  by (simp add: prop_if_error_def bindc_eqs)

lemma unwrap_value:
  "m s = (Ret (Inr v), s') \<Longrightarrow> m s' = (Ret (Inr v'), s'')
    \<Longrightarrow> unwrap_or_prop_error what m k s = k v' s''"
  by (simp add: unwrap_or_prop_error_def bindc_eqs)

lemma unwrap_error:
  "m s = (Ret (Inl e), s') \<Longrightarrow> m s' = (Ret (Inl e'), s'')
    \<Longrightarrow> unwrap_or_prop_error what m k s = (Ret (Inl e'), s'')"
  by (simp add: unwrap_or_prop_error_def bindc_eqs)

lemma unwrapE:
  assumes "unwrap_or_prop_error what m k s = (out, s'')"
  obtains v v' s1 s2 where "m s = (Ret (Inr v), s1)" "m s1 = (Ret (Inr v'), s2)" "k v' s2 = (out, s'')"
  | o1 where "m s = (o1, s'')" "\<And>r. out \<noteq> Ret (Inr r)"
  | o1 s1 o2 where "m s = (o1, s1)" "m s1 = (o2, s'')" "\<And>r. out \<noteq> Ret (Inr r)"
proof -
  obtain o1 s1 where 1: "m s = (o1, s1)" by (cases "m s")
  obtain o2 s2 where 2: "m s1 = (o2, s2)" by (cases "m s1")
  show thesis
  proof (cases o1)
    case (Ret a)
    show thesis
    proof (cases "\<exists>v v'. o1 = Ret (Inr v) \<and> o2 = Ret (Inr v')")
      case True
      with 1 2 assms show thesis
        by (auto simp: unwrap_or_prop_error_def bindc_eqs intro: that(1))
    next
      case False
      have "out \<noteq> Ret (Inr r) \<and> s'' = s2" for r
        using assms Ret 1 2 False
        by (cases a; cases o2)
          (auto simp: unwrap_or_prop_error_def bindc_def is_error_def get_error_def get_value_def obind_eq_Ret
            split: sum.splits outcome.splits prod.splits)
      with 1 2 show thesis by (intro that(3) [of o1 s1 o2]) auto
    qed
  qed (use 1 assms in \<open>auto simp: unwrap_or_prop_error_def bindc_eqs intro!: that(2)\<close>)
qed

lemma prop_if_errorE:
  assumes "prop_if_error m rest s = (out, s'')"
  obtains v s1 where "m s = (Ret (Inr v), s1)" "rest s1 = (out, s'')"
  | o1 where "m s = (o1, s'')" "\<And>r. out \<noteq> Ret (Inr r)"
  | o1 s1 o2 where "m s = (o1, s1)" "m s1 = (o2, s'')" "\<And>r. out \<noteq> Ret (Inr r)"
proof -
  obtain o1 s1 where 1: "m s = (o1, s1)" by (cases "m s")
  obtain o2 s2 where 2: "m s1 = (o2, s2)" by (cases "m s1")
  show thesis
  proof (cases o1)
    case (Ret a)
    show thesis
    proof (cases a)
      case (Inl e)
      have "out \<noteq> Ret (Inr r) \<and> s'' = s2" for r
        using assms Ret Inl 1 2
        by (cases o2) (auto simp: prop_if_error_def bindc_def is_error_def get_error_def obind_eq_Ret
            split: sum.splits outcome.splits prod.splits)
      with 1 2 show thesis by (intro that(3) [of o1 s1 o2]) auto
    next
      case (Inr v)
      with 1 Ret assms show thesis by (intro that(1)) (auto simp: prop_if_error_value)
    qed
  qed (use 1 assms in \<open>auto simp: prop_if_error_def bindc_eqs intro!: that(2)\<close>)
qed

text \<open>When they differ, the error is unwrapped as a value or the other way round.\<close>

lemma unwrap_value_then_error:
  "m s = (Ret (Inr v), s') \<Longrightarrow> m s' = (Ret (Inl e), s'') \<Longrightarrow> what e = Ret msg
    \<Longrightarrow> unwrap_or_prop_error what m k s = (Throw Bad_Optional_Access, s'')"
  by (simp add: unwrap_or_prop_error_def bindc_eqs bindc_def)

lemma unwrap_error_then_value:
  "m s = (Ret (Inl e), s') \<Longrightarrow> m s' = (Ret (Inr v), s'')
    \<Longrightarrow> unwrap_or_prop_error what m k s = (Fault Assertion_Failed, s'')"
  by (simp add: unwrap_or_prop_error_def bindc_eqs bindc_def)

lemma prop_if_error_error_then_value:
  "m s = (Ret (Inl e), s') \<Longrightarrow> m s' = (Ret (Inr v), s'')
    \<Longrightarrow> prop_if_error m rest s = (Fault Assertion_Failed, s'')"
  by (simp add: prop_if_error_def bindc_eqs bindc_def)

text \<open>Plain sequencing, and when the macros are it.\<close>

definition seq_result ::
    "('s, ('r, 'e) result) cpp \<Rightarrow> ('s, ('q, 'e) result) cpp \<Rightarrow> ('s, ('q, 'e) result) cpp" where
  "seq_result m rest = bindc m (\<lambda>r. case r of Inl e \<Rightarrow> retc (Inl e) | Inr v \<Rightarrow> rest)"

definition bind_result ::
    "('s, ('r, 'e) result) cpp \<Rightarrow> ('r \<Rightarrow> ('s, ('q, 'e) result) cpp) \<Rightarrow> ('s, ('q, 'e) result) cpp" where
  "bind_result m k = bindc m (\<lambda>r. case r of Inl e \<Rightarrow> retc (Inl e) | Inr v \<Rightarrow> k v)"

definition error_repeats :: "('s, ('r, 'e) result) cpp \<Rightarrow> 's \<Rightarrow> bool" where
  "error_repeats m s \<longleftrightarrow> (\<forall>e s'. m s = (Ret (Inl e), s') \<longrightarrow> m s' = (Ret (Inl e), s'))"

definition result_repeats :: "('s, ('r, 'e) result) cpp \<Rightarrow> 's \<Rightarrow> bool" where
  "result_repeats m s \<longleftrightarrow> (\<forall>r s'. m s = (Ret r, s') \<longrightarrow> m s' = (Ret r, s'))"

lemma prop_if_error_seq:
  assumes "error_repeats m s"
  shows "prop_if_error m rest s = seq_result m rest s"
proof -
  obtain out s1 where run: "m s = (out, s1)" by fastforce
  show ?thesis
  proof (cases out)
    case (Ret r)
    then show ?thesis
    proof (cases r)
      case (Inl e)
      with run Ret assms have "m s1 = (Ret (Inl e), s1)" by (simp add: error_repeats_def)
      with run Ret Inl show ?thesis by (simp add: prop_if_error_error seq_result_def bindc_eqs)
    qed (use run Ret in \<open>simp add: prop_if_error_value seq_result_def bindc_eqs\<close>)
  qed (use run in \<open>simp_all add: prop_if_error_def seq_result_def bindc_eqs\<close>)
qed

lemma bindc_get_error_Ret:
  "bindc m (\<lambda>r. bindc (liftc (get_error r)) (\<lambda>e. retc (Inl e))) s = (Ret (Inl e), s')
    \<longleftrightarrow> m s = (Ret (Inl e), s')"
  by (auto simp: bindc_def get_error_def split: prod.splits outcome.splits sum.splits)

lemma prop_if_error_seq_iff:
  "(\<forall>rest :: ('s, ('q, 'e) result) cpp. prop_if_error m rest s = seq_result m rest s) \<longleftrightarrow> error_repeats m s"
proof (intro iffI allI)
  assume eq: "\<forall>rest :: ('s, ('q, 'e) result) cpp. prop_if_error m rest s = seq_result m rest s"
  show "error_repeats m s" unfolding error_repeats_def
  proof (intro allI impI)
    fix e s'
    assume run: "m s = (Ret (Inl e), s')"
    let ?rest = "undefined :: ('s, ('q, 'e) result) cpp"
    have "seq_result m ?rest s = (Ret (Inl e), s')"
      using run by (simp add: seq_result_def bindc_eqs)
    then have "prop_if_error m ?rest s = (Ret (Inl e), s')" using eq by simp
    then show "m s' = (Ret (Inl e), s')"
      using run by (simp add: prop_if_error_def bindc_eqs bindc_get_error_Ret)
  qed
qed (rule prop_if_error_seq)

lemma unwrap_bind:
  assumes "result_repeats m s"
  shows "unwrap_or_prop_error what m k s = bind_result m k s"
proof -
  obtain out s1 where run: "m s = (out, s1)" by fastforce
  show ?thesis
  proof (cases out)
    case (Ret r)
    with run assms have again: "m s1 = (Ret r, s1)" by (simp add: result_repeats_def)
    show ?thesis
    proof (cases r)
      case (Inl e)
      with run Ret again show ?thesis by (simp add: unwrap_error bind_result_def bindc_eqs)
    next
      case (Inr v)
      with run Ret again show ?thesis by (simp add: unwrap_value bind_result_def bindc_eqs)
    qed
  qed (use run in \<open>simp_all add: unwrap_or_prop_error_def bind_result_def bindc_eqs\<close>)
qed

lemma bindc_get_value_Ret:
  "bindc m (\<lambda>r. bindc (liftc (get_value what r)) (\<lambda>v. retc (Inr v))) s = (Ret (Inr v), s')
    \<longleftrightarrow> m s = (Ret (Inr v), s')"
  by (auto simp: bindc_def get_value_def obind_eq_Ret split: prod.splits outcome.splits sum.splits)

lemma unwrap_bind_iff:
  "(\<forall>k :: 'r \<Rightarrow> ('s, ('r, 'e) result) cpp. unwrap_or_prop_error what m k s = bind_result m k s)
    \<longleftrightarrow> result_repeats m s"
proof (intro iffI allI)
  assume eq: "\<forall>k :: 'r \<Rightarrow> ('s, ('r, 'e) result) cpp. unwrap_or_prop_error what m k s = bind_result m k s"
  show "result_repeats m s" unfolding result_repeats_def
  proof (intro allI impI)
    fix r s'
    assume run: "m s = (Ret r, s')"
    have "bind_result m (\<lambda>v. retc (Inr v)) s = (Ret r, s')"
      using run by (cases r) (simp_all add: bind_result_def bindc_eqs)
    then have "unwrap_or_prop_error what m (\<lambda>v. retc (Inr v)) s = (Ret r, s')" using eq by simp
    then show "m s' = (Ret r, s')"
      using run by (cases r)
        (simp_all add: unwrap_or_prop_error_def bindc_eqs bindc_get_error_Ret bindc_get_value_Ret)
  qed
qed (rule unwrap_bind)

lemma keeps_prop_if_error [cpp_intros]:
  assumes "reflp R" and "transp R" and "keeps R m" and "keeps R rest"
  shows "keeps R (prop_if_error m rest)"
  unfolding prop_if_error_def using assms by (auto intro!: cpp_intros)

lemma keeps_unwrap_or_prop_error [cpp_intros]:
  assumes "reflp R" and "transp R" and "keeps R m" and "\<And>v. keeps R (k v)"
  shows "keeps R (unwrap_or_prop_error what m k)"
  unfolding unwrap_or_prop_error_def using assms by (auto intro!: cpp_intros)

end
