(* ===== verification/Test_Framework.thy ===== *)
theory Test_Framework
  imports Errors "HOL-Library.List_Lexorder" "HOL-Library.Char_ord"
begin

text \<open>
  \<open>tests/src/unit_test_framework.hpp\<close>: assertions, test cases and the suite with its command line.
  A test is a computation on the program's state \<open>'s\<close>; the runner's state has the suite, what was
  written to \<open>std::cout\<close> and the program's state.  The framework is built without
  \<open>UNIT_TEST_ENABLE_REGEXP\<close>.  \<open>test_program\<close> says what a run of the program amounts to: the tests wanted
  are run in their order and the exit status is that of their verdicts; \<open>test_main_runs\<close> shows that
  \<open>test_main\<close>, with its maps, messages and counts, does that.
\<close>

section \<open>Assertions\<close>

definition assert_true :: "bool \<Rightarrow> int \<Rightarrow> string \<Rightarrow> (exn, unit) outcome" where
  "assert_true b line txt =
     (if b then Ret () else Throw (Test_Failure ''Expected true, but was false'' line txt))"

definition assert_false :: "bool \<Rightarrow> int \<Rightarrow> string \<Rightarrow> (exn, unit) outcome" where
  "assert_false b line txt =
     (if \<not> b then Ret () else Throw (Test_Failure ''Expected false, but was true'' line txt))"

definition equals_size_int :: "64 word \<Rightarrow> int32 \<Rightarrow> bool" where
  \<comment> \<open>\<open>safe_equals_helper(std::size_t, int)\<close>\<close>
  "equals_size_int a b \<longleftrightarrow> sint b \<ge> 0 \<and> sint a = sint b"

definition equals_int_size :: "int32 \<Rightarrow> 64 word \<Rightarrow> bool" where
  "equals_int_size a b \<longleftrightarrow> sint a \<ge> 0 \<and> sint a = sint b"

definition differs_size_int :: "64 word \<Rightarrow> int32 \<Rightarrow> bool" where
  "differs_size_int a b \<longleftrightarrow> sint b < 0 \<or> sint a \<noteq> sint b"

definition differs_int_size :: "int32 \<Rightarrow> 64 word \<Rightarrow> bool" where
  "differs_int_size a b \<longleftrightarrow> sint a < 0 \<or> sint a \<noteq> sint b"

definition assert_equal ::
    "('a \<Rightarrow> 'b \<Rightarrow> bool) \<Rightarrow> ('a \<Rightarrow> string) \<Rightarrow> ('b \<Rightarrow> string) \<Rightarrow> 'a \<Rightarrow> 'b \<Rightarrow> int \<Rightarrow> string
      \<Rightarrow> (exn, unit) outcome" where
  \<comment> \<open>the comparison and the two printers are those of the argument types\<close>
  "assert_equal eq print1 print2 a b line txt =
     (if eq a b then Ret () else Throw (Test_Failure (print1 a @ '' != '' @ print2 b) line txt))"

definition assert_not_equal ::
    "('a \<Rightarrow> 'b \<Rightarrow> bool) \<Rightarrow> ('a \<Rightarrow> string) \<Rightarrow> ('b \<Rightarrow> string) \<Rightarrow> 'a \<Rightarrow> 'b \<Rightarrow> int \<Rightarrow> string
      \<Rightarrow> (exn, unit) outcome" where
  "assert_not_equal eq print1 print2 a b line txt =
     (if \<not> eq a b then Ret ()
      else Throw (Test_Failure (''Values unexpectedly equal: '' @ print1 a @ '' == '' @ print2 b) line txt))"

lemma sint_size_t: "sint (a :: 64 word) = (if uint a < 2 ^ 63 then uint a else uint a - 2 ^ 64)"
proof -
  have u: "uint a < 2 ^ 64" "0 \<le> uint a" using uint_lt2p [of a] by simp_all
  have "bit (uint a) 63 \<longleftrightarrow> \<not> uint a < 2 ^ 63"
  proof
    assume b: "bit (uint a) 63"
    show "\<not> uint a < 2 ^ 63"
    proof
      assume "uint a < 2 ^ 63"
      then have "uint a div 2 ^ 63 = 0" using u(2) by (simp add: div_pos_pos_trivial)
      with b show False by (simp add: bit_iff_odd)
    qed
  next
    assume "\<not> uint a < 2 ^ 63"
    then have "uint a div 2 ^ 63 = 1" using u by simp
    then show "bit (uint a) 63" by (simp add: bit_iff_odd)
  qed
  moreover have "take_bit 64 (uint a) = uint a" using u by (simp add: take_bit_int_eq_self)
  ultimately show ?thesis by (simp add: sint_uint signed_take_bit_eq_take_bit_minus)
qed

lemma equals_size_int: "equals_size_int a b \<longleftrightarrow> int (unat a) = sint b"
proof -
  have "sint b < 2 ^ 31" using sint_lt [of b] by simp
  moreover have "uint a < 2 ^ 64" using uint_lt2p [of a] by simp
  moreover have "uint a = sint b \<Longrightarrow> 0 \<le> sint b" by (metis uint_ge_0)
  ultimately show ?thesis by (auto simp: equals_size_int_def sint_size_t)
qed

lemma differs_equals:
  "differs_size_int a b \<longleftrightarrow> \<not> equals_size_int a b" "equals_int_size b a \<longleftrightarrow> equals_size_int a b"
  "differs_int_size b a \<longleftrightarrow> \<not> equals_size_int a b"
  by (auto simp: differs_size_int_def equals_size_int_def equals_int_size_def differs_int_size_def)

text \<open>The printed form of a sequence, and the comparison of two.\<close>

fun print_elems :: "('a \<Rightarrow> string) \<Rightarrow> 'a list \<Rightarrow> string" where
  "print_elems pr [] = []"
| "print_elems pr (x # xs) = '', '' @ pr x @ print_elems pr xs"

fun print_sequence :: "('a \<Rightarrow> string) \<Rightarrow> 'a list \<Rightarrow> string" where
  "print_sequence pr [] = ''{}''"
| "print_sequence pr (x # xs) = ''{ '' @ pr x @ print_elems pr xs @ '' }''"

definition print_pair :: "('a \<Rightarrow> string) \<Rightarrow> ('b \<Rightarrow> string) \<Rightarrow> 'a \<times> 'b \<Rightarrow> string" where
  "print_pair pr1 pr2 t = ''('' @ pr1 (fst t) @ '','' @ pr2 (snd t) @ '')''"

definition print_char_array :: "string \<Rightarrow> string" where
  \<comment> \<open>an array with a null character is printed as the string before it\<close>
  "print_char_array arr =
     (if CHR 0x00 \<in> set arr then takeWhile (\<lambda>c. c \<noteq> CHR 0x00) arr else print_sequence (\<lambda>c. [c]) arr)"

definition print_object :: "string \<Rightarrow> 'a \<Rightarrow> string" where
  \<comment> \<open>the print of a type that has no stream operator\<close>
  "print_object cls x = ''<'' @ cls @ '' object>''"

fun first_difference :: "('a \<Rightarrow> 'b \<Rightarrow> bool) \<Rightarrow> nat \<Rightarrow> 'a list \<Rightarrow> 'b list \<Rightarrow> (nat \<times> 'a \<times> 'b) option" where
  "first_difference eq position (x # xs) (y # ys) =
     (if \<not> eq x y then Some (position, x, y) else first_difference eq (Suc position) xs ys)"
| "first_difference eq position _ _ = None"

definition assert_sequence_equal ::
    "('a \<Rightarrow> 'b \<Rightarrow> bool) \<Rightarrow> ('a \<Rightarrow> string) \<Rightarrow> ('b \<Rightarrow> string) \<Rightarrow> 'a list \<Rightarrow> 'b list \<Rightarrow> int \<Rightarrow> string
      \<Rightarrow> (exn, unit) outcome" where
  "assert_sequence_equal eq print1 print2 xs ys line txt =
     (let differ = print_sequence print1 xs @ '' != '' @ print_sequence print2 ys in
      if length xs \<noteq> length ys
      then Throw (Test_Failure (differ @ '' (sizes differ: '' @ show_nat (length xs) @ '' != ''
             @ show_nat (length ys) @ '')'') line txt)
      else
        (case first_difference eq 0 xs ys of
           None \<Rightarrow> Ret ()
         | Some (position, x, y) \<Rightarrow>
             Throw (Test_Failure (differ @ '' (elements at position '' @ show_nat position @ '' differ: ''
               @ print1 x @ '' != '' @ print2 y @ '')'') line txt)))"

lemma first_difference_None:
  "length xs = length ys \<Longrightarrow> first_difference eq k xs ys = None \<longleftrightarrow> list_all2 eq xs ys"
  by (induction eq k xs ys rule: first_difference.induct) auto

lemma assert_sequence_equal_Ret:
  "assert_sequence_equal eq pr1 pr2 xs ys line txt = Ret () \<longleftrightarrow> list_all2 eq xs ys"
  using first_difference_None [of xs ys eq 0]
  by (auto simp: assert_sequence_equal_def Let_def list_all2_lengthD split: option.splits)

section \<open>Test cases\<close>

record 's test_case =
  tc_name :: string
  test_func :: "('s, unit) cpp"
  failure_msg :: string
  exception_msg :: string

definition test_case_new :: "string \<Rightarrow> ('s, unit) cpp \<Rightarrow> 's test_case" where
  "test_case_new name f = \<lparr>tc_name = name, test_func = f, failure_msg = [], exception_msg = []\<rparr>"

record 's test_suite =
  registered :: "(string \<times> 's test_case) list"
  quiet_mode :: bool
  incomplete :: bool

record 's runner =
  suite :: "'s test_suite"
  cout :: string
  world :: 's

abbreviation endl :: string where
  "endl \<equiv> [CHR 0x0A]"

definition print_cout :: "string \<Rightarrow> ('s runner, unit) cpp" where
  "print_cout s = modc (\<lambda>r. r\<lparr>cout := cout r @ s\<rparr>)"

definition print_loud :: "bool \<Rightarrow> string \<Rightarrow> ('s runner, unit) cpp" where
  \<comment> \<open>\<open>if (not quiet_mode) std::cout << ...\<close>\<close>
  "print_loud quiet s = (if quiet then retc () else print_cout s)"

definition test_failure_string :: "string \<Rightarrow> int \<Rightarrow> string \<Rightarrow> string" where
  \<comment> \<open>\<open>TestFailure::to_string\<close>\<close>
  "test_failure_string reason line txt = ''In '' @ txt @ '', line '' @ show_int line @ '':'' @ endl @ reason @ endl"

fun std_exception :: "exn \<Rightarrow> (string \<times> (exn, string) outcome) option" where
  \<comment> \<open>the name and \<open>what()\<close> of an exception that a handler for \<open>std::exception\<close> catches;
     \<open>OrganizerError\<close> inherits from it privately, and a \<open>TestFailure\<close> is none\<close>
  "std_exception Bad_Optional_Access = Some (''std::bad_optional_access'', Ret ''bad optional access'')"
| "std_exception (BufferManagerError e) = Some (''BufferManagerError'', bm_what e)"
| "std_exception (Runtime_Error msg) = Some (''std::runtime_error'', Ret msg)"
| "std_exception Out_Of_Range = Some (''std::out_of_range'', Ret ''map::at'')"
| "std_exception (OrganizerError e) = None"
| "std_exception (Test_Failure reason line txt) = None"

definition exception_string :: "string \<Rightarrow> string \<Rightarrow> string \<Rightarrow> string" where
  "exception_string cls name msg =
     ''Uncaught '' @ cls @ '' in test '' @ CHR 0x22 # name @ CHR 0x22 # '': '' @ endl @ msg @ endl"

definition test_case_run :: "bool \<Rightarrow> 's test_case \<Rightarrow> ('s runner, 's test_case) cpp" where
  "test_case_run quiet tc =
     bindc (print_loud quiet (''Running test: '' @ tc_name tc @ endl)) (\<lambda>_ r.
       case test_func tc (world r) of
         (Ret _, w) \<Rightarrow> bindc (print_loud quiet (''PASS'' @ endl)) (\<lambda>_. retc tc) (r\<lparr>world := w\<rparr>)
       | (Fault f, w) \<Rightarrow> (Fault f, r\<lparr>world := w\<rparr>)
       | (Throw (Test_Failure reason line txt), w) \<Rightarrow>
           bindc (print_loud quiet (''FAIL'' @ endl)) (\<lambda>_.
             retc (tc\<lparr>failure_msg := test_failure_string reason line txt\<rparr>)) (r\<lparr>world := w\<rparr>)
       | (Throw x, w) \<Rightarrow>
           (case std_exception x of
              None \<Rightarrow> (Throw x, r\<lparr>world := w\<rparr>)
            | Some (cls, what) \<Rightarrow>
                bindc (liftc what) (\<lambda>msg.
                bindc (print_loud quiet (''ERROR'' @ endl)) (\<lambda>_.
                  retc (tc\<lparr>exception_msg := exception_string cls (tc_name tc) msg\<rparr>))) (r\<lparr>world := w\<rparr>)))"

definition test_case_print :: "bool \<Rightarrow> 's test_case \<Rightarrow> string" where
  "test_case_print quiet tc =
     (if quiet then tc_name tc @ '': '' else ''** Test case '' @ CHR 0x22 # tc_name tc @ CHR 0x22 # '': '')
     @ (if failure_msg tc \<noteq> [] then ''FAIL'' @ endl @ (if quiet then [] else failure_msg tc @ endl)
        else if exception_msg tc \<noteq> [] then ''ERROR'' @ endl @ (if quiet then [] else exception_msg tc @ endl)
        else ''PASS'' @ endl)"

section \<open>The suite\<close>

definition suite_start :: "'s test_suite" where
  \<comment> \<open>\<open>TestSuite::get()\<close> of the first registration\<close>
  "suite_start = \<lparr>registered = [], quiet_mode = False, incomplete = False\<rparr>"

fun map_insert :: "string \<Rightarrow> 'v \<Rightarrow> (string \<times> 'v) list \<Rightarrow> (string \<times> 'v) list" where
  \<comment> \<open>\<open>std::map::insert\<close>, which keeps an element that is there\<close>
  "map_insert k v [] = [(k, v)]"
| "map_insert k v (x # xs) =
     (if k < fst x then (k, v) # x # xs else if k = fst x then x # xs else x # map_insert k v xs)"

definition add_test :: "string \<Rightarrow> ('s, unit) cpp \<Rightarrow> 's test_suite \<Rightarrow> 's test_suite" where
  "add_test name f su = su\<lparr>registered := map_insert name (test_case_new name f) (registered su)\<rparr>"

definition print_test_names :: "('s runner, unit) cpp" where
  "print_test_names =
     bindc (getc (registered \<circ> suite)) (\<lambda>ts. print_cout (concat (map (\<lambda>p. fst p @ endl) ts)))"

definition enable_quiet_mode :: "('s runner, unit) cpp" where
  "enable_quiet_mode = modc (\<lambda>r. r\<lparr>suite := (suite r)\<lparr>quiet_mode := True\<rparr>\<rparr>)"

definition usage :: "string \<Rightarrow> string" where
  "usage prog =
     ''usage: '' @ prog @ '' [-h] [-n] [-q] [[TEST_NAME] ...]'' @ endl
     @ ''optional arguments:'' @ endl
     @ '' -h, --help'' @ [CHR 0x09, CHR 0x09] @ '' show this help message and exit'' @ endl
     @ '' -n, --show_test_names'' @ [CHR 0x09] @ '' print the names of all discovered test cases and exit'' @ endl
     @ '' -q, --quiet'' @ [CHR 0x09, CHR 0x09] @ '' print a reduced summary of test results'' @ endl
     @ '' TEST_NAME ...'' @ [CHR 0x09, CHR 0x09] @ '' run only the test cases whose names are listed here. ''
     @ ''Note: If no test names are specified, all discovered tests are run by default.'' @ endl"

definition shows_names :: "string \<Rightarrow> bool" where
  "shows_names arg \<longleftrightarrow> arg = ''--show_test_names'' \<or> arg = ''-n''"

definition asks_quiet :: "string \<Rightarrow> bool" where
  "asks_quiet arg \<longleftrightarrow> arg = ''--quiet'' \<or> arg = ''-q''"

definition asks_help :: "string \<Rightarrow> bool" where
  "asks_help arg \<longleftrightarrow> arg = ''--help'' \<or> arg = ''-h''"

fun scan_args :: "string \<Rightarrow> string list \<Rightarrow> string list \<Rightarrow> ('s runner, int + string list) cpp" where
  \<comment> \<open>the loop over \<open>argv\<close>; a thrown \<open>ExitSuite\<close> is \<open>Inl\<close> its status\<close>
  "scan_args prog [] names = retc (Inr names)"
| "scan_args prog (arg # args) names =
     (if shows_names arg then bindc print_test_names (\<lambda>_. retc (Inl 0))
      else if asks_quiet arg then bindc enable_quiet_mode (\<lambda>_. scan_args prog args names)
      else if asks_help arg then bindc (print_cout (usage prog)) (\<lambda>_. retc (Inl 0))
      else scan_args prog args (names @ [arg]))"

definition get_test_names_to_run :: "string \<Rightarrow> string list \<Rightarrow> ('s runner, int + string list) cpp" where
  "get_test_names_to_run prog args =
     bindc (scan_args prog args []) (\<lambda>res.
       case res of
         Inl status \<Rightarrow> retc (Inl status)
       | Inr names \<Rightarrow>
           if names = [] then bindc (getc (registered \<circ> suite)) (\<lambda>ts. retc (Inr (map fst ts)))
           else retc (Inr names))"

fun check_names :: "string list \<Rightarrow> ('s runner, unit) cpp" where
  "check_names [] = retc ()"
| "check_names (name # names) =
     bindc (getc (registered \<circ> suite)) (\<lambda>ts.
       if map_of ts name = None
       then liftc (Throw (Runtime_Error (''Test '' @ name @ '' not found'')))
       else check_names names)"

definition test_at :: "string \<Rightarrow> ('s runner, 's test_case) cpp" where
  \<comment> \<open>\<open>tests_.at(name)\<close>\<close>
  "test_at name =
     bindc (getc (registered \<circ> suite)) (\<lambda>ts.
       case map_of ts name of None \<Rightarrow> liftc (Throw Out_Of_Range) | Some tc \<Rightarrow> retc tc)"

definition put_test :: "string \<Rightarrow> 's test_case \<Rightarrow> ('s runner, unit) cpp" where
  "put_test name tc = modc (\<lambda>r. r\<lparr>suite := (suite r)\<lparr>registered := AList.update name tc (registered (suite r))\<rparr>\<rparr>)"

fun run_named :: "string list \<Rightarrow> ('s runner, unit) cpp" where
  "run_named [] = retc ()"
| "run_named (name # names) =
     bindc (test_at name) (\<lambda>tc.
     bindc (getc (quiet_mode \<circ> suite)) (\<lambda>quiet.
     bindc (test_case_run quiet tc) (\<lambda>tc'.
     bindc (put_test name tc') (\<lambda>_. run_named names))))"

fun print_named :: "string list \<Rightarrow> ('s runner, unit) cpp" where
  "print_named [] = retc ()"
| "print_named (name # names) =
     bindc (test_at name) (\<lambda>tc.
     bindc (getc (quiet_mode \<circ> suite)) (\<lambda>quiet.
     bindc (print_cout (test_case_print quiet tc)) (\<lambda>_. print_named names)))"

definition summary :: "nat \<Rightarrow> nat \<Rightarrow> nat \<Rightarrow> string" where
  "summary n failures errors =
     ''*** Summary ***'' @ endl @ ''Out of '' @ show_nat n @ '' tests run:'' @ endl
     @ show_nat failures @ '' failure(s), '' @ show_nat errors @ '' error(s)'' @ endl"

definition finish :: "string list \<Rightarrow> ('s runner, int) cpp" where
  \<comment> \<open>the end of \<open>run_tests\<close>: the failures are counted over all tests of the suite\<close>
  "finish names =
     bindc (getc suite) (\<lambda>su.
       let failures = length (filter (\<lambda>p. failure_msg (snd p) \<noteq> []) (registered su));
           errors = length (filter (\<lambda>p. exception_msg (snd p) \<noteq> []) (registered su))
       in bindc (print_loud (quiet_mode su) (summary (length names) failures errors)) (\<lambda>_.
            retc (if failures = 0 \<and> errors = 0 then 0 else 1)))"

definition run_chosen :: "string list \<Rightarrow> ('s runner, int) cpp" where
  "run_chosen names =
     bindc (check_names names) (\<lambda>_.
     bindc (run_named names) (\<lambda>_.
     bindc (print_cout (endl @ ''*** Results ***'' @ endl)) (\<lambda>_.
     bindc (print_named names) (\<lambda>_. finish names))))"

definition set_incomplete :: "bool \<Rightarrow> 's runner \<Rightarrow> 's runner" where
  "set_incomplete b r = r\<lparr>suite := (suite r)\<lparr>incomplete := b\<rparr>\<rparr>"

definition run_tests :: "string \<Rightarrow> string list \<Rightarrow> ('s runner, int) cpp" where
  \<comment> \<open>the destructor of \<open>SetComplete\<close> runs on a return and on an exception\<close>
  "run_tests prog args r =
     (case bindc (get_test_names_to_run prog args) (\<lambda>res.
         case res of Inl status \<Rightarrow> retc status | Inr names \<Rightarrow> run_chosen names) (set_incomplete True r) of
        (Fault f, r') \<Rightarrow> (Fault f, r')
      | (out, r') \<Rightarrow> (out, set_incomplete False r'))"

definition test_main :: "string \<Rightarrow> string list \<Rightarrow> ('s runner, int) cpp" where
  \<comment> \<open>\<open>TEST_MAIN\<close>: an exception that leaves \<open>main\<close> ends the process\<close>
  "test_main prog args = noexcept (run_tests prog args)"

definition register_tests :: "(string \<times> ('s, unit) cpp) list \<Rightarrow> 's test_suite" where
  \<comment> \<open>the \<open>TestRegisterer\<close> objects of the \<open>TEST\<close> macros, in the order of the file\<close>
  "register_tests ts = foldl (\<lambda>su (name, f). add_test name f su) suite_start ts"

section \<open>Verdicts\<close>

datatype verdict = Pass | Fail | Error

fun is_failure :: "exn \<Rightarrow> bool" where
  "is_failure (Test_Failure reason line txt) = True"
| "is_failure x = False"

definition run_case :: "('s, unit) cpp \<Rightarrow> ('s, verdict) cpp" where
  \<comment> \<open>a failed assertion of the code or an exception that is not caught ends the program\<close>
  "run_case t s =
     (case t s of
        (Ret _, s') \<Rightarrow> (Ret Pass, s')
      | (Throw x, s') \<Rightarrow>
          (if is_failure x then Ret Fail else if std_exception x = None then Throw x else Ret Error, s')
      | (Fault f, s') \<Rightarrow> (Fault f, s'))"

fun run_cases :: "('s, unit) cpp list \<Rightarrow> ('s, verdict list) cpp" where
  "run_cases [] = retc []"
| "run_cases (t # ts) = bindc (run_case t) (\<lambda>v. bindc (run_cases ts) (\<lambda>vs. retc (v # vs)))"

fun status_of :: "verdict list \<Rightarrow> int" where
  "status_of vs = (if \<forall>v \<in> set vs. v = Pass then 0 else 1)"

definition failed :: "'s test_case \<Rightarrow> bool" where
  "failed tc \<longleftrightarrow> failure_msg tc \<noteq> [] \<or> exception_msg tc \<noteq> []"

definition funcs :: "'s test_suite \<Rightarrow> string \<Rightarrow> ('s, unit) cpp option" where
  "funcs su name = map_option test_func (map_of (registered su) name)"

definition marked :: "'s test_suite \<Rightarrow> bool" where
  "marked su \<longleftrightarrow> (\<exists>name tc. map_of (registered su) name = Some tc \<and> failed tc)"

definition suite_ok :: "'s test_suite \<Rightarrow> bool" where
  "suite_ok su \<longleftrightarrow> distinct (map fst (registered su))"

lemma print_loud_run: "\<exists>out. print_loud quiet s r = (Ret (), r\<lparr>cout := out\<rparr>)"
  by (cases quiet) (auto simp: print_loud_def print_cout_def intro: exI [of _ "cout r"])

lemma print_cout_run: "print_cout s r = (Ret (), r\<lparr>cout := cout r @ s\<rparr>)"
  by (simp add: print_cout_def)

lemma bm_what_Ret: "\<exists>msg. bm_what e = Ret msg"
  by (cases e) auto

lemma std_exception_what: "std_exception x = Some (cls, what) \<Longrightarrow> \<exists>msg. what = Ret msg"
  by (cases x) (auto simp: bm_what_Ret)

lemma test_case_run_verdict:
  assumes "run_case (test_func tc) (world r) = (Ret v, w)"
  obtains tc' out where "test_case_run quiet tc r = (Ret tc', r\<lparr>cout := out, world := w\<rparr>)"
    and "test_func tc' = test_func tc" and "v = Pass \<longrightarrow> tc' = tc" and "v \<noteq> Pass \<longrightarrow> failed tc'"
proof -
  obtain out where 1: "print_loud quiet (''Running test: '' @ tc_name tc @ endl) r = (Ret (), r\<lparr>cout := out\<rparr>)"
    using print_loud_run by blast
  obtain res where res: "test_func tc (world r) = (res, w)" using assms
    by (auto simp: run_case_def split: prod.splits outcome.splits if_splits)
  let ?r = "r\<lparr>cout := out, world := w\<rparr>"
  show thesis
  proof (cases res)
    case (Ret u)
    obtain out' where "print_loud quiet (''PASS'' @ endl) ?r = (Ret (), ?r\<lparr>cout := out'\<rparr>)"
      using print_loud_run by blast
    then show thesis using 1 res Ret assms
      by (intro that [of tc out']) (simp_all add: test_case_run_def bindc_eqs run_case_def)
  next
    case (Throw x)
    show thesis
    proof (cases "is_failure x")
      case True
      then obtain reason line t where x: "x = Test_Failure reason line t" by (cases x) auto
      let ?tc = "tc\<lparr>failure_msg := test_failure_string reason line t\<rparr>"
      obtain out' where "print_loud quiet (''FAIL'' @ endl) ?r = (Ret (), ?r\<lparr>cout := out'\<rparr>)"
        using print_loud_run by blast
      then show thesis using 1 res Throw x assms
        by (intro that [of ?tc out'])
          (simp_all add: test_case_run_def bindc_eqs run_case_def failed_def test_failure_string_def)
    next
      case False
      then obtain cls what where e: "std_exception x = Some (cls, what)" and v: "v = Error"
        using assms res Throw by (auto simp: run_case_def split: if_splits)
      then obtain msg where what: "what = Ret msg" using std_exception_what by blast
      let ?tc = "tc\<lparr>exception_msg := exception_string cls (tc_name tc) msg\<rparr>"
      obtain out' where p: "print_loud quiet (''ERROR'' @ endl) ?r = (Ret (), ?r\<lparr>cout := out'\<rparr>)"
        using print_loud_run by blast
      have "test_case_run quiet tc r = (Ret ?tc, ?r\<lparr>cout := out'\<rparr>)"
        using 1 res Throw p e what False by (cases x) (simp_all add: test_case_run_def bindc_eqs)
      then show thesis using v
        by (intro that [of ?tc out']) (simp_all add: failed_def exception_string_def)
    qed
  qed (use assms res in \<open>simp add: run_case_def\<close>)
qed

section \<open>Running named tests\<close>

definition func_at :: "'s test_suite \<Rightarrow> string \<Rightarrow> ('s, unit) cpp" where
  "func_at su name = the (funcs su name)"

lemma run_named_run:
  assumes "run_cases (map (func_at (suite r)) names) (world r) = (Ret vs, w)"
    and "\<forall>name \<in> set names. funcs (suite r) name \<noteq> None" and "suite_ok (suite r)"
  shows "\<exists>su out. run_named names r = (Ret (), r\<lparr>suite := su, cout := out, world := w\<rparr>)
    \<and> map fst (registered su) = map fst (registered (suite r)) \<and> suite_ok su
    \<and> (marked su \<longleftrightarrow> marked (suite r) \<or> (\<exists>v \<in> set vs. v \<noteq> Pass))"
  using assms
proof (induction names arbitrary: r vs)
  case Nil
  then show ?case by (auto intro!: exI [of _ "suite r"] exI [of _ "cout r"])
next
  case (Cons name names)
  from Cons.prems(2) obtain tc where tc: "map_of (registered (suite r)) name = Some tc"
    by (auto simp: funcs_def)
  from Cons.prems(1) obtain v w1 vs' where v: "run_case (test_func tc) (world r) = (Ret v, w1)"
    and rest: "run_cases (map (func_at (suite r)) names) w1 = (Ret vs', w)" and vs: "vs = v # vs'"
  proof -
    have "func_at (suite r) name = test_func tc" using tc by (simp add: func_at_def funcs_def)
    with Cons.prems(1) show thesis by (auto elim!: bindc_RetE intro: that)
  qed
  from v obtain tc' out where 1: "test_case_run (quiet_mode (suite r)) tc r = (Ret tc', r\<lparr>cout := out, world := w1\<rparr>)"
    and tc': "test_func tc' = test_func tc" "v = Pass \<longrightarrow> tc' = tc" "v \<noteq> Pass \<longrightarrow> failed tc'"
    by (rule test_case_run_verdict)
  let ?su = "(suite r)\<lparr>registered := AList.update name tc' (registered (suite r))\<rparr>"
  let ?r = "r\<lparr>cout := out, world := w1, suite := ?su\<rparr>"
  have keys: "map fst (registered ?su) = map fst (registered (suite r))"
    using tc by (simp add: update_keys) (metis map_of_SomeD fst_conv image_eqI)
  have f: "funcs ?su = funcs (suite r)" using tc tc'(1) by (auto simp: funcs_def update_conv' fun_eq_iff)
  then have "func_at ?su = func_at (suite r)" by (simp add: func_at_def fun_eq_iff)
  then have "run_cases (map (func_at (suite ?r)) names) (world ?r) = (Ret vs', w)" using rest by simp
  moreover have "\<forall>name \<in> set names. funcs (suite ?r) name \<noteq> None" using Cons.prems(2) f by simp
  moreover have "suite_ok (suite ?r)" using Cons.prems(3) keys by (simp add: suite_ok_def)
  ultimately obtain su2 out2 where 2: "run_named names ?r = (Ret (), ?r\<lparr>suite := su2, cout := out2, world := w\<rparr>)"
    "map fst (registered su2) = map fst (registered ?su)" "suite_ok su2"
    "marked su2 \<longleftrightarrow> marked ?su \<or> (\<exists>v \<in> set vs'. v \<noteq> Pass)"
    using Cons.IH [of ?r vs'] by auto
  have "marked ?su \<longleftrightarrow> marked (suite r) \<or> v \<noteq> Pass"
  proof (cases "v = Pass")
    case True
    then have "map_of (registered ?su) = map_of (registered (suite r))"
      using tc tc' by (auto simp: update_conv' fun_eq_iff)
    then show ?thesis using True by (simp add: marked_def)
  next
    case False
    then have "map_of (registered ?su) name = Some tc' \<and> failed tc'" using tc' by (simp add: update_conv')
    then show ?thesis using False unfolding marked_def by blast
  qed
  moreover have "run_named (name # names) r = (Ret (), r\<lparr>suite := su2, cout := out2, world := w\<rparr>)"
    using tc 1 2(1) by (simp add: test_at_def put_test_def bindc_eqs)
  ultimately show ?case using 2 keys vs by auto
qed

lemma print_named_run:
  assumes "\<forall>name \<in> set names. name \<in> set (map fst (registered (suite r)))"
  shows "\<exists>out. print_named names r = (Ret (), r\<lparr>cout := out\<rparr>)"
  using assms
proof (induction names arbitrary: r)
  case Nil
  then show ?case by (auto intro: exI [of _ "cout r"])
next
  case (Cons name names)
  then obtain tc where tc: "map_of (registered (suite r)) name = Some tc"
    by (auto simp: dom_map_of_conv_image_fst [symmetric] image_iff dest: map_of_eq_None_iff [THEN iffD1])
  let ?r = "r\<lparr>cout := cout r @ test_case_print (quiet_mode (suite r)) tc\<rparr>"
  obtain out where "print_named names ?r = (Ret (), ?r\<lparr>cout := out\<rparr>)"
    using Cons.IH [of ?r] Cons.prems by auto
  then show ?case using tc by (auto simp: test_at_def print_cout_run bindc_eqs)
qed

lemma check_names_run:
  "check_names names r =
    (case find (\<lambda>name. name \<notin> set (map fst (registered (suite r)))) names of
       None \<Rightarrow> Ret () | Some name \<Rightarrow> Throw (Runtime_Error (''Test '' @ name @ '' not found'')), r)"
  by (induction names) (auto simp: map_of_eq_None_iff)

lemma finish_run:
  assumes "suite_ok (suite r)"
  shows "\<exists>out. finish names r = (Ret (if marked (suite r) then 1 else 0), r\<lparr>cout := out\<rparr>)"
proof -
  let ?ts = "registered (suite r)"
  have "(\<exists>p \<in> set ?ts. failure_msg (snd p) \<noteq> [] \<or> exception_msg (snd p) \<noteq> []) \<longleftrightarrow> marked (suite r)"
    using assms by (force simp: suite_ok_def marked_def failed_def)
  then have "length (filter (\<lambda>p. failure_msg (snd p) \<noteq> []) ?ts) = 0
      \<and> length (filter (\<lambda>p. exception_msg (snd p) \<noteq> []) ?ts) = 0 \<longleftrightarrow> \<not> marked (suite r)"
    by (auto simp: filter_empty_conv)
  moreover obtain out where "print_loud (quiet_mode (suite r)) (summary (length names)
      (length (filter (\<lambda>p. failure_msg (snd p) \<noteq> []) ?ts)) (length (filter (\<lambda>p. exception_msg (snd p) \<noteq> []) ?ts))) r
      = (Ret (), r\<lparr>cout := out\<rparr>)" using print_loud_run by blast
  ultimately show ?thesis by (auto simp: finish_def Let_def bindc_eqs)
qed


lemma run_cases_stops:
  assumes "run_cases (map (func_at (suite r)) names) (world r) = (out, w)" and "\<forall>vs. out \<noteq> Ret vs"
    and "\<forall>name \<in> set names. funcs (suite r) name \<noteq> None" and "suite_ok (suite r)"
  shows "\<exists>r'. run_named names r = (obind out (\<lambda>_. Ret ()), r') \<and> world r' = w"
  using assms
proof (induction names arbitrary: r out)
  case Nil
  then show ?case by auto
next
  case (Cons name names)
  from Cons.prems(3) obtain tc where tc: "map_of (registered (suite r)) name = Some tc"
    by (auto simp: funcs_def)
  have f0: "func_at (suite r) name = test_func tc" using tc by (simp add: func_at_def funcs_def)
  obtain res w1 where res: "run_case (test_func tc) (world r) = (res, w1)" by (metis surj_pair)
  show ?case
  proof (cases res)
    case (Ret v)
    from res [unfolded Ret] obtain tc' out' where
      1: "test_case_run (quiet_mode (suite r)) tc r = (Ret tc', r\<lparr>cout := out', world := w1\<rparr>)"
      and tc': "test_func tc' = test_func tc" by (rule test_case_run_verdict)
    let ?su = "(suite r)\<lparr>registered := AList.update name tc' (registered (suite r))\<rparr>"
    let ?r = "r\<lparr>cout := out', world := w1, suite := ?su\<rparr>"
    have f: "funcs ?su = funcs (suite r)" using tc tc' by (auto simp: funcs_def update_conv' fun_eq_iff)
    then have fa: "func_at ?su = func_at (suite r)" by (simp add: func_at_def fun_eq_iff)
    obtain out2 where o2: "run_cases (map (func_at (suite r)) names) w1 = (out2, w)" "\<forall>vs. out2 \<noteq> Ret vs"
      "obind out2 (\<lambda>_. Ret ()) = (obind out (\<lambda>_. Ret ()) :: (exn, unit) outcome)"
      using Cons.prems(1,2) res Ret f0
      by (cases "run_cases (map (func_at (suite r)) names) w1") (auto simp: bindc_def split: outcome.splits)
    have "\<exists>r'. run_named names ?r = (obind out2 (\<lambda>_. Ret ()), r') \<and> world r' = w"
      using Cons.prems(3,4) o2 f fa tc by (intro Cons.IH) (auto simp: suite_ok_def distinct_update)
    then show ?thesis using tc 1 o2(3) by (auto simp: test_at_def put_test_def bindc_eqs)
  next
    case (Throw x)
    then have "test_func tc (world r) = (Throw x, w1)" and x: "\<not> is_failure x" "std_exception x = None"
      using res by (auto simp: run_case_def split: prod.splits outcome.splits if_splits)
    moreover have "out = Throw x" "w = w1" using Cons.prems(1) res Throw f0 by (auto simp: bindc_def)
    moreover obtain out1 where "print_loud (quiet_mode (suite r)) (''Running test: '' @ tc_name tc @ endl) r
        = (Ret (), r\<lparr>cout := out1\<rparr>)" using print_loud_run by blast
    ultimately show ?thesis using tc
      by (cases x) (auto simp: test_at_def put_test_def bindc_eqs test_case_run_def)
  next
    case (Fault f)
    then have "test_func tc (world r) = (Fault f, w1)"
      using res by (auto simp: run_case_def split: prod.splits outcome.splits if_splits)
    moreover have "out = Fault f" "w = w1" using Cons.prems(1) res Fault f0 by (auto simp: bindc_def)
    moreover obtain out1 where "print_loud (quiet_mode (suite r)) (''Running test: '' @ tc_name tc @ endl) r
        = (Ret (), r\<lparr>cout := out1\<rparr>)" using print_loud_run by blast
    ultimately show ?thesis using tc
      by (auto simp: test_at_def put_test_def bindc_eqs test_case_run_def)
  qed
qed

section \<open>The command line\<close>

definition exits :: "string list \<Rightarrow> bool" where
  "exits args \<longleftrightarrow> (\<exists>arg \<in> set args. shows_names arg \<or> asks_help arg)"

definition named :: "string list \<Rightarrow> string list" where
  "named args = filter (\<lambda>arg. \<not> asks_quiet arg) args"

definition chosen :: "string list \<Rightarrow> 's test_suite \<Rightarrow> string list" where
  \<comment> \<open>the tests that a command line without help or listing asks for: those named, or all\<close>
  "chosen args su = (if named args = [] then map fst (registered su) else named args)"

lemma not_quiet: "shows_names arg \<or> asks_help arg \<Longrightarrow> \<not> asks_quiet arg"
  by (auto simp: shows_names_def asks_help_def asks_quiet_def)

lemma scan_args_run:
  "\<exists>q out. scan_args prog args names r =
    (Ret (if exits args then Inl 0 else Inr (names @ named args)),
     r\<lparr>suite := (suite r)\<lparr>quiet_mode := q\<rparr>, cout := out\<rparr>)"
proof (induction args arbitrary: names r)
  case Nil
  show ?case
    by (rule exI [of _ "quiet_mode (suite r)"], rule exI [of _ "cout r"]) (simp add: exits_def named_def)
next
  case (Cons arg args)
  consider "shows_names arg" | "\<not> shows_names arg" "asks_quiet arg"
    | "\<not> shows_names arg" "\<not> asks_quiet arg" "asks_help arg"
    | "\<not> shows_names arg" "\<not> asks_quiet arg" "\<not> asks_help arg" by blast
  then show ?case
  proof cases
    case 1
    then show ?thesis
      by (auto simp: exits_def print_test_names_def print_cout_def bindc_eqs intro!: exI [of _ "quiet_mode (suite r)"])
  next
    case 2
    let ?r = "r\<lparr>suite := (suite r)\<lparr>quiet_mode := True\<rparr>\<rparr>"
    obtain q out where "scan_args prog args names ?r =
      (Ret (if exits args then Inl 0 else Inr (names @ named args)),
       ?r\<lparr>suite := (suite ?r)\<lparr>quiet_mode := q\<rparr>, cout := out\<rparr>)" using Cons.IH [of names ?r] by blast
    moreover have "exits (arg # args) = exits args" "named (arg # args) = named args"
      using 2 not_quiet [of arg] by (auto simp: exits_def named_def)
    ultimately show ?thesis using 2 by (auto simp: enable_quiet_mode_def)
  next
    case 3
    then show ?thesis
      by (auto simp: exits_def print_cout_def bindc_eqs intro!: exI [of _ "quiet_mode (suite r)"])
  next
    case 4
    obtain q out where "scan_args prog args (names @ [arg]) r =
      (Ret (if exits args then Inl 0 else Inr ((names @ [arg]) @ named args)),
       r\<lparr>suite := (suite r)\<lparr>quiet_mode := q\<rparr>, cout := out\<rparr>)" using Cons.IH [of "names @ [arg]" r] by blast
    moreover have "exits (arg # args) = exits args" "named (arg # args) = arg # named args"
      using 4 by (auto simp: exits_def named_def)
    ultimately show ?thesis using 4 by auto
  qed
qed

lemma names_to_run:
  "\<exists>q out. get_test_names_to_run prog args r =
    (Ret (if exits args then Inl 0 else Inr (chosen args (suite r))),
     r\<lparr>suite := (suite r)\<lparr>quiet_mode := q\<rparr>, cout := out\<rparr>)"
proof -
  obtain q out where "scan_args prog args [] r =
    (Ret (if exits args then Inl 0 else Inr (named args)),
     r\<lparr>suite := (suite r)\<lparr>quiet_mode := q\<rparr>, cout := out\<rparr>)" using scan_args_run [of prog args "[]" r] by auto
  then show ?thesis
    by (intro exI [of _ q] exI [of _ out]) (simp add: get_test_names_to_run_def bindc_eqs chosen_def)
qed

section \<open>The test program\<close>

lemma run_chosen_run:
  assumes "run_cases (map (func_at (suite r)) names) (world r) = (Ret vs, w)"
    and "set names \<subseteq> set (map fst (registered (suite r)))" and "suite_ok (suite r)" and "\<not> marked (suite r)"
  shows "\<exists>r'. run_chosen names r = (Ret (status_of vs), r') \<and> world r' = w"
proof -
  have "find (\<lambda>name. name \<notin> set (map fst (registered (suite r)))) names = None"
    using assms(2) by (auto simp: find_None_iff)
  then have 1: "check_names names r = (Ret (), r)" by (simp add: check_names_run del: set_map)
  have "\<forall>name \<in> set names. funcs (suite r) name \<noteq> None"
    using assms(2) by (auto simp: funcs_def map_of_eq_None_iff)
  from run_named_run [OF assms(1) this assms(3)] obtain su out where
    2: "run_named names r = (Ret (), r\<lparr>suite := su, cout := out, world := w\<rparr>)"
    and su: "map fst (registered su) = map fst (registered (suite r))" "suite_ok su"
      "marked su \<longleftrightarrow> marked (suite r) \<or> (\<exists>v \<in> set vs. v \<noteq> Pass)" by blast
  define title where "title = endl @ ''*** Results ***'' @ endl"
  let ?r = "r\<lparr>suite := su, world := w, cout := out @ title\<rparr>"
  obtain out3 where 3: "print_named names ?r = (Ret (), ?r\<lparr>cout := out3\<rparr>)"
    using print_named_run [of names ?r] assms(2) su(1) by auto
  obtain out4 where "finish names (?r\<lparr>cout := out3\<rparr>) =
      (Ret (if marked su then 1 else 0), ?r\<lparr>cout := out3, cout := out4\<rparr>)"
    using finish_run [of "?r\<lparr>cout := out3\<rparr>" names] su(2) by auto
  then show ?thesis using 1 2 3 su(3) assms(4)
    unfolding run_chosen_def title_def [symmetric] by (simp add: bindc_eqs print_cout_run)
qed

section \<open>Registration\<close>

definition sorted_keys :: "(string \<times> 'v) list \<Rightarrow> bool" where
  "sorted_keys xs \<longleftrightarrow> sorted_wrt (<) (map fst xs)"

lemma set_map_insert: "fst ` set (map_insert k v xs) = insert k (fst ` set xs)"
  by (induction xs) auto

lemma sorted_map_insert: "sorted_keys xs \<Longrightarrow> sorted_keys (map_insert k v xs)"
proof (induction xs)
  case (Cons x xs)
  then have ih: "sorted_keys (map_insert k v xs)" and x: "\<forall>y \<in> fst ` set xs. fst x < y"
    by (auto simp: sorted_keys_def)
  show ?case using Cons.prems ih x set_map_insert [of k v xs]
    by (cases "k < fst x"; cases "k = fst x") (auto simp: sorted_keys_def)
qed (simp add: sorted_keys_def)

lemma map_of_map_insert:
  "sorted_keys xs \<Longrightarrow> map_of (map_insert k v xs) = (if k \<in> fst ` set xs then map_of xs else (map_of xs)(k \<mapsto> v))"
proof (induction xs)
  case (Cons x xs)
  then have ih: "map_of (map_insert k v xs) = (if k \<in> fst ` set xs then map_of xs else (map_of xs)(k \<mapsto> v))"
    and x: "\<forall>y \<in> fst ` set xs. fst x < y" by (auto simp: sorted_keys_def)
  show ?case
  proof (cases "k < fst x")
    case True
    with x have "k \<notin> fst ` set xs" by force
    with True show ?thesis by (cases x) auto
  next
    case False
    with ih show ?thesis by (cases x) (auto simp: fun_eq_iff)
  qed
qed simp

definition registers :: "(string \<times> ('s, unit) cpp) list \<Rightarrow> 's test_suite \<Rightarrow> 's test_suite \<Rightarrow> bool" where
  \<comment> \<open>the second suite is the first with the tests added\<close>
  "registers ts su su' \<longleftrightarrow> sorted_keys (registered su')
     \<and> fst ` set (registered su') = fst ` set (registered su) \<union> fst ` set ts
     \<and> map_of (registered su') = map_of (registered su) ++ map_of (map (\<lambda>(name, f). (name, test_case_new name f)) ts)"

lemma register_run:
  assumes "sorted_keys (registered su)" and "distinct (map fst ts)" and "fst ` set ts \<inter> fst ` set (registered su) = {}"
  shows "registers ts su (foldl (\<lambda>su (name, f). add_test name f su) su ts)"
  using assms
proof (induction ts arbitrary: su)
  case (Cons t ts)
  obtain name f where t: "t = (name, f)" by (cases t)
  let ?su = "add_test name f su"
  have keys: "fst ` set (registered ?su) = insert name (fst ` set (registered su))"
    by (simp add: add_test_def set_map_insert)
  have new: "name \<notin> fst ` set (registered su)" using Cons.prems(3) t by auto
  have s: "sorted_keys (registered ?su)" using Cons.prems(1) by (simp add: add_test_def sorted_map_insert)
  have d: "distinct (map fst ts)" "fst ` set ts \<inter> fst ` set (registered ?su) = {}"
    using Cons.prems(2,3) t keys by auto
  have m: "map_of (registered ?su) = (map_of (registered su))(name \<mapsto> test_case_new name f)"
    using map_of_map_insert [OF Cons.prems(1), of name "test_case_new name f"] new by (simp add: add_test_def)
  have "name \<notin> fst ` set ts" using Cons.prems(2) t by simp
  then have "name \<notin> dom (map_of (map (\<lambda>(name, f). (name, test_case_new name f)) ts))"
    by (auto simp: dom_map_of_conv_image_fst image_image split_def)
  then have "(map_of (registered su))(name \<mapsto> test_case_new name f) ++ map_of (map (\<lambda>(name, f). (name, test_case_new name f)) ts)
      = map_of (registered su) ++ map_of (map (\<lambda>(name, f). (name, test_case_new name f)) (t # ts))"
    by (simp add: t map_add_upd_left fun_upd_def map_add_def fun_eq_iff dom_def split: option.split)
  then show ?case using Cons.IH [OF s d] keys m by (simp add: t registers_def)
qed (auto simp: registers_def)

lemma register_tests_run:
  assumes "distinct (map fst ts)"
  shows "sorted_wrt (<) (map fst (registered (register_tests ts)))"
    and "set (map fst (registered (register_tests ts))) = fst ` set ts"
    and "funcs (register_tests ts) = map_of ts"
    and "suite_ok (register_tests ts)" and "\<not> marked (register_tests ts)"
proof -
  have s: "sorted_keys (registered (suite_start :: 'a test_suite))" by (simp add: suite_start_def sorted_keys_def)
  have e: "fst ` set ts \<inter> fst ` set (registered (suite_start :: 'a test_suite)) = {}" by (simp add: suite_start_def)
  have R: "registers ts suite_start (register_tests ts)" using register_run [OF s assms e] unfolding register_tests_def .
  show sorted: "sorted_wrt (<) (map fst (registered (register_tests ts)))" using R by (simp add: registers_def sorted_keys_def)
  then show "suite_ok (register_tests ts)" by (simp add: suite_ok_def strict_sorted_iff)
  show "set (map fst (registered (register_tests ts))) = fst ` set ts" using R by (simp add: registers_def suite_start_def)
  have m: "map_of (registered (register_tests ts)) = map_of (map (\<lambda>(name, f). (name, test_case_new name f)) ts)"
    using R by (simp add: registers_def suite_start_def)
  show "funcs (register_tests ts) = map_of ts"
    unfolding funcs_def m by (rule ext, induction ts) (auto simp: test_case_new_def)
  show "\<not> marked (register_tests ts)"
    unfolding marked_def m by (auto simp: failed_def test_case_new_def dest!: map_of_SomeD)
qed

lemma run_chosen_outcome:
  assumes "run_cases (map (func_at (suite r)) names) (world r) = (out, w)"
    and "set names \<subseteq> set (map fst (registered (suite r)))" and "suite_ok (suite r)" and "\<not> marked (suite r)"
  shows "\<exists>r'. run_chosen names r = (obind out (\<lambda>vs. Ret (status_of vs)), r') \<and> world r' = w"
proof (cases "\<exists>vs. out = Ret vs")
  case True
  then show ?thesis using run_chosen_run assms by (auto simp del: status_of.simps)
next
  case False
  have "find (\<lambda>name. name \<notin> set (map fst (registered (suite r)))) names = None"
    using assms(2) by (auto simp: find_None_iff)
  then have 1: "check_names names r = (Ret (), r)" by (simp add: check_names_run del: set_map)
  have "\<forall>name \<in> set names. funcs (suite r) name \<noteq> None"
    using assms(2) by (auto simp: funcs_def map_of_eq_None_iff)
  then obtain r' where "run_named names r = (obind out (\<lambda>_. Ret ()), r')" "world r' = w"
    using run_cases_stops [OF assms(1) _ _ assms(3)] False by blast
  then show ?thesis using 1 False by (cases out) (auto simp: run_chosen_def bindc_eqs)
qed

lemma run_tests_set:
  assumes "get_test_names_to_run prog args (set_incomplete True r) = (Ret res, r1)"
    and "(case res of Inl status \<Rightarrow> retc status | Inr names \<Rightarrow> run_chosen names) r1 = (out, r2)"
  shows "\<exists>r'. test_main prog args r = (case out of Throw x \<Rightarrow> Fault Terminated | _ \<Rightarrow> out, r') \<and> world r' = world r2"
  using assms
  by (cases out) (auto simp: test_main_def run_tests_def noexcept_def bindc_eqs set_incomplete_def)

text \<open>
  \<open>test_program\<close> is what the test program does to the program's state, without the output: the tests wanted are
  run in their order and the exit status is that of their verdicts.
\<close>

definition names_wanted :: "(string \<times> ('s, unit) cpp) list \<Rightarrow> string list \<Rightarrow> string list" where
  \<comment> \<open>the tests named on the command line, or all in the order of their names\<close>
  "names_wanted ts args = (if named args = [] then sort (map fst ts) else named args)"

definition test_program :: "(string \<times> ('s, unit) cpp) list \<Rightarrow> string list \<Rightarrow> ('s, int) cpp" where
  "test_program ts args =
     (if exits args then retc 0
      else if \<exists>name \<in> set (names_wanted ts args). map_of ts name = None then liftc (Fault Terminated)
      else noexcept (bindc (run_cases (map (\<lambda>name. the (map_of ts name)) (names_wanted ts args)))
        (\<lambda>vs. retc (status_of vs))))"

definition runner_start :: "(string \<times> ('s, unit) cpp) list \<Rightarrow> 's \<Rightarrow> 's runner" where
  "runner_start ts s = \<lparr>suite = register_tests ts, cout = [], world = s\<rparr>"

lemma register_chosen:
  assumes "distinct (map fst ts)"
  shows "chosen args (register_tests ts) = names_wanted ts args"
proof -
  have "map fst (registered (register_tests ts)) = sort (map fst ts)"
    using register_tests_run [OF assms] assms
    by (intro sorted_distinct_set_unique) (auto simp: strict_sorted_iff)
  then show ?thesis by (simp add: chosen_def names_wanted_def)
qed

lemma test_main_runs:
  assumes "distinct (map fst ts)"
  shows "apsnd world (test_main prog args (runner_start ts s)) = test_program ts args s"
proof -
  let ?r = "set_incomplete True (runner_start ts s)"
  let ?names = "names_wanted ts args"
  note R = register_tests_run [OF assms]
  obtain q out where n: "get_test_names_to_run prog args ?r =
      (Ret (if exits args then Inl 0 else Inr (chosen args (suite ?r))),
       ?r\<lparr>suite := (suite ?r)\<lparr>quiet_mode := q\<rparr>, cout := out\<rparr>)" using names_to_run by blast
  let ?r1 = "?r\<lparr>suite := (suite ?r)\<lparr>quiet_mode := q\<rparr>, cout := out\<rparr>"
  have reg: "registered (suite ?r1) = registered (register_tests ts)" and w: "world ?r1 = s"
    by (simp_all add: set_incomplete_def runner_start_def)
  have "chosen args (suite ?r) = ?names" using register_chosen [OF assms, of args]
    by (simp add: chosen_def set_incomplete_def runner_start_def split: if_splits)
  with n have n: "get_test_names_to_run prog args ?r = (Ret (if exits args then Inl 0 else Inr ?names), ?r1)" by simp
  have f: "func_at (suite ?r1) = (\<lambda>name. the (map_of ts name))"
    using R(3) unfolding func_at_def funcs_def reg by (simp add: fun_eq_iff)
  have ok: "suite_ok (suite ?r1)" "\<not> marked (suite ?r1)" using R(4,5) unfolding suite_ok_def marked_def reg by auto
  have keys: "set (map fst (registered (suite ?r1))) = fst ` set ts" using R(2) unfolding reg .
  consider "exits args" | "\<not> exits args" "\<exists>name \<in> set ?names. map_of ts name = None"
    | "\<not> exits args" "\<forall>name \<in> set ?names. map_of ts name \<noteq> None"
    by (cases "exits args"; cases "\<exists>name \<in> set ?names. map_of ts name = None") auto
  then show ?thesis
  proof cases
    case 1
    then show ?thesis using run_tests_set [OF n, of "Ret 0"] w by (auto simp: test_program_def)
  next
    case 2
    then have "find (\<lambda>name. name \<notin> fst ` set ts) ?names \<noteq> None" by (auto simp: find_None_iff map_of_eq_None_iff)
    then obtain x where "check_names ?names ?r1 = (Throw x, ?r1)"
      unfolding check_names_run keys by auto
    then have "run_chosen ?names ?r1 = (Throw x, ?r1)" by (simp add: run_chosen_def bindc_eqs)
    then show ?thesis using run_tests_set [OF n, of "Throw x" ?r1] 2 w by (auto simp: test_program_def)
  next
    case 3
    obtain res s' where run: "run_cases (map (\<lambda>name. the (map_of ts name)) ?names) s = (res, s')" by (metis surj_pair)
    have "set ?names \<subseteq> fst ` set ts" using 3(2) by (auto simp: map_of_eq_None_iff)
    with run obtain r2 where "run_chosen ?names ?r1 = (obind res (\<lambda>vs. Ret (status_of vs)), r2)" "world r2 = s'"
      using run_chosen_outcome [of ?r1 ?names, unfolded f w keys, OF _ _ ok] by blast
    then show ?thesis using run_tests_set [OF n, of "obind res (\<lambda>vs. Ret (status_of vs))" r2] 3 run
      by (cases res) (auto simp: test_program_def noexcept_def bindc_def simp del: status_of.simps)
  qed
qed

end
