(* ===== verification/Library_Properties.thy ===== *)
theory Library_Properties
  imports Bitmap Test_Log Result_Class Test_Framework
begin

text \<open>
  The properties of the library: the bitmap as a list of bits, its external forms, the
  result class, the log statement and the test program.
\<close>

section \<open>The bitmap as a list of bits\<close>

datatype bitmap_cmd = Set_Bit uint bool | Get_Bit uint | Clear_Bits | Num_Free | Num_Taken | First_Free

datatype bitmap_reply = B_Done | B_Bit bool | B_Num uint | B_First "uint option"

fun bitmap_exec :: "bitmap_cmd \<Rightarrow> bitmap \<Rightarrow> (exn, bitmap_reply \<times> bitmap) outcome" where
  "bitmap_exec (Set_Bit i v) b = obind (set_bit_val b i v) (\<lambda>b'. Ret (B_Done, b'))"
| "bitmap_exec (Get_Bit i) b = obind (get_bit_val b i) (\<lambda>v. Ret (B_Bit v, b))"
| "bitmap_exec Clear_Bits b = obind (clear_bits b) (\<lambda>b'. Ret (B_Done, b'))"
| "bitmap_exec Num_Free b = obind (get_num_free_bits b) (\<lambda>n. Ret (B_Num n, b))"
| "bitmap_exec Num_Taken b = obind (get_num_taken_bits b) (\<lambda>n. Ret (B_Num n, b))"
| "bitmap_exec First_Free b = obind (get_first_free_bit b) (\<lambda>r. Ret (B_First r, b))"

fun bitmap_exec_all :: "bitmap_cmd list \<Rightarrow> bitmap \<Rightarrow> (exn, bitmap_reply list \<times> bitmap) outcome" where
  "bitmap_exec_all [] b = Ret ([], b)"
| "bitmap_exec_all (c # cs) b =
     obind (bitmap_exec c b) (\<lambda>(r, b'). obind (bitmap_exec_all cs b') (\<lambda>(rs, b''). Ret (r # rs, b'')))"

text \<open>What the calls mean on the list.\<close>

fun bitmap_spec :: "bitmap_cmd \<Rightarrow> bool list \<Rightarrow> bitmap_reply \<times> bool list" where
  "bitmap_spec (Set_Bit i v) xs = (B_Done, xs[unat i := v])"
| "bitmap_spec (Get_Bit i) xs = (B_Bit (xs ! unat i), xs)"
| "bitmap_spec Clear_Bits xs = (B_Done, replicate (length xs) False)"
| "bitmap_spec Num_Free xs = (B_Num (of_nat (count_list xs False)), xs)"
| "bitmap_spec Num_Taken xs = (B_Num (of_nat (count_list xs True)), xs)"
| "bitmap_spec First_Free xs = (B_First (map_option of_nat (first_False xs)), xs)"

fun bitmap_spec_all :: "bitmap_cmd list \<Rightarrow> bool list \<Rightarrow> bitmap_reply list \<times> bool list" where
  "bitmap_spec_all [] xs = ([], xs)"
| "bitmap_spec_all (c # cs) xs =
     (case bitmap_spec c xs of (r, xs') \<Rightarrow> case bitmap_spec_all cs xs' of (rs, xs'') \<Rightarrow> (r # rs, xs''))"

fun in_range :: "nat \<Rightarrow> bitmap_cmd \<Rightarrow> bool" where
  "in_range n (Set_Bit i v) = (unat i < n)"
| "in_range n (Get_Bit i) = (unat i < n)"
| "in_range n _ = True"

lemma bitmap_exec_refines:
  assumes "wf_bitmap b" and "in_range (unat (num_bits b)) c"
  shows "\<exists>r b'. bitmap_exec c b = Ret (r, b') \<and> bitmap_spec c (bits b) = (r, bits b')
    \<and> wf_bitmap b' \<and> num_bits b' = num_bits b"
proof (cases c)
  case (Set_Bit i v)
  then show ?thesis using assms set_bit_val_eq [of b i v] by auto
next
  case Clear_Bits
  then show ?thesis using clear_bits_eq [OF assms(1)] by auto
qed (use assms in \<open>simp_all add: get_bit_val_eq get_num_free_bits_eq get_num_taken_bits_eq get_first_free_bit_eq\<close>)

lemma bitmap_exec_all_refines:
  assumes "wf_bitmap b" and "\<forall>c \<in> set cs. in_range (unat (num_bits b)) c"
  shows "\<exists>rs b'. bitmap_exec_all cs b = Ret (rs, b') \<and> bitmap_spec_all cs (bits b) = (rs, bits b')
    \<and> wf_bitmap b'"
  using assms
proof (induction cs arbitrary: b)
  case (Cons c cs)
  then obtain r b1 where 1: "bitmap_exec c b = Ret (r, b1)" "bitmap_spec c (bits b) = (r, bits b1)"
    "wf_bitmap b1" "num_bits b1 = num_bits b"
    using bitmap_exec_refines [of b c] by auto
  moreover from 1(3,4) Cons obtain rs b2 where "bitmap_exec_all cs b1 = Ret (rs, b2)"
    "bitmap_spec_all cs (bits b1) = (rs, bits b2)" "wf_bitmap b2" by fastforce
  ultimately show ?case by simp
qed simp

text \<open>
  C12. A bitmap of \<open>n\<close> bits, \<open>n\<close> a multiple of 8, is a list of \<open>n\<close> bits: after its constructor any
  sequence of calls within range returns, gives the answers the same calls give on the list of
  bits (starting from all free), and ends in a bitmap with the list's bits.
\<close>

theorem bitmap_refines_list:
  assumes "8 dvd unat n" and "unat n \<le> INT_MAX" and "\<forall>c \<in> set cs. in_range (unat n) c"
  shows "\<exists>b rs b'. bitmap_new n = Ret b \<and> bitmap_exec_all cs b = Ret (rs, b')
    \<and> bitmap_spec_all cs (replicate (unat n) False) = (rs, bits b') \<and> wf_bitmap b'"
proof -
  obtain b where b: "bitmap_new n = Ret b" "wf_bitmap b" "num_bits b = n" "bits b = replicate (unat n) False"
    using wf_bitmap_new [OF assms(1,2)] by blast
  then show ?thesis using bitmap_exec_all_refines [of b cs] assms(3) by auto
qed

theorem bitmap_refines_list_witness:
  "\<exists>b b'. bitmap_new 8 = Ret b \<and>
    bitmap_exec_all [Set_Bit 0 True, Set_Bit 2 True, First_Free, Num_Free, Get_Bit 2] b =
      Ret ([B_Done, B_Done, B_First (Some 1), B_Num 6, B_Bit True], b')"
proof -
  let ?cs = "[Set_Bit 0 True, Set_Bit 2 True, First_Free, Num_Free, Get_Bit 2]"
  obtain b rs b' where 1: "bitmap_new 8 = Ret b" "bitmap_exec_all ?cs b = Ret (rs, b')"
    "bitmap_spec_all ?cs (replicate (unat (8 :: uint)) False) = (rs, bits b')"
    using bitmap_refines_list [of 8 ?cs] by auto
  have "fst (bitmap_spec_all ?cs (replicate 8 False)) = [B_Done, B_Done, B_First (Some 1), B_Num 6, B_Bit True]"
    by code_simp
  then show ?thesis using 1 by auto
qed

text \<open>
  C27. The sizes a bitmap works for: the constructor returns and all bits can be counted exactly
  when the number of bits is a multiple of 8.  An odd number of bits makes the constructor
  write past the array it allocated, other sizes leave the last bits outside of it.
\<close>

theorem bitmap_size_multiple_of_8:
  assumes "unat n \<le> INT_MAX"
  shows "(\<exists>b k. bitmap_new n = Ret b \<and> get_num_free_bits b = Ret k) \<longleftrightarrow> 8 dvd unat n"
proof
  assume "\<exists>b k. bitmap_new n = Ret b \<and> get_num_free_bits b = Ret k"
  then obtain b k where b: "bitmap_new n = Ret b" "get_num_free_bits b = Ret k" by blast
  then have "even (unat n)" using bitmap_new_odd [of n] by auto
  then show "8 dvd unat n" using bitmap_new_undercounts [of n b] assms b by auto
next
  assume "8 dvd unat n"
  then show "\<exists>b k. bitmap_new n = Ret b \<and> get_num_free_bits b = Ret k"
    using wf_bitmap_new [OF _ assms] get_num_free_bits_eq by blast
qed

theorem bitmap_size_multiple_of_8_witness:
  "\<not> (\<exists>b k. bitmap_new 12 = Ret b \<and> get_num_free_bits b = Ret k)"
  using bitmap_size_multiple_of_8 [of 12] by simp

text \<open>
  \<open>get_first_free_bit\<close> is the least free bit: when it answers a bit, that bit is free and all
  bits below are taken; when it answers none, no bit is free.
\<close>

theorem bitmap_first_free_least:
  assumes "wf_bitmap b"
  shows "\<exists>r. get_first_free_bit b = Ret r \<and>
    (case r of
       Some i \<Rightarrow> get_bit_val b i = Ret False \<and> (\<forall>j < i. get_bit_val b j = Ret True)
     | None \<Rightarrow> get_num_free_bits b = Ret 0)"
proof (cases "first_False (bits b)")
  case None
  then have "count_list (bits b) False = 0" by (simp add: first_False_None_iff)
  then show ?thesis using assms None by (simp add: get_first_free_bit_eq get_num_free_bits_eq)
next
  case (Some k)
  note D = first_False_SomeD [OF Some]
  have "k < unat (num_bits b)" using D(1) by simp
  then have k: "unat (of_nat k :: uint) = k" using unat_uint_less [of "num_bits b"]
    by (intro unat_of_nat_uint) linarith
  have "get_bit_val b (of_nat k) = Ret False" using D(1,2) k assms by (simp add: get_bit_val_eq)
  moreover have "get_bit_val b j = Ret True" if "j < of_nat k" for j
  proof -
    have "unat j < k" using that k by (simp add: word_less_nat_alt)
    then show ?thesis using D(3) [of "unat j"] \<open>k < unat (num_bits b)\<close> assms by (simp add: get_bit_val_eq)
  qed
  ultimately show ?thesis using assms Some by (simp add: get_first_free_bit_eq)
qed

theorem bitmap_first_free_least_witness:
  "get_first_free_bit \<lparr>num_bits = 8, num_bytes = 1, bitmap_mem = [3]\<rparr> = Ret (Some 2)"
proof -
  let ?b = "\<lparr>num_bits = 8, num_bytes = 1, bitmap_mem = [3]\<rparr>"
  have wf: "wf_bitmap ?b" by (simp add: wf_bitmap_def)
  from bitmap_first_free_least [OF wf] obtain r where r: "get_first_free_bit ?b = Ret r" by blast
  then have "r = map_option of_nat (first_False (bits ?b))" by (simp add: get_first_free_bit_eq [OF wf])
  moreover have "bits ?b = [True, True, False, False, False, False, False, False]"
    by (simp add: bits_def mem_bit_def upt_rec)
  ultimately show ?thesis using r by (simp add: first_False_def)
qed

section \<open>External forms\<close>

text \<open>
  C32. Serialising a bitmap and reading the bytes into a bitmap of the same size gives the same
  bits; only the bitmap's bytes of the destination are written.
\<close>

theorem bitmap_serialize_round_trip:
  assumes "wf_bitmap b" and "wf_bitmap b2" and "num_bits b2 = num_bits b" and "unat (num_bytes b) \<le> length dest"
  shows "\<exists>mem b'. serialize b dest = Ret mem \<and> length mem = length dest
    \<and> drop (unat (num_bytes b)) mem = drop (unat (num_bytes b)) dest
    \<and> deserialize b2 mem = Ret b' \<and> wf_bitmap b' \<and> bits b' = bits b"
proof -
  let ?n = "unat (num_bytes b)" and ?mem = "overwrite 0 (bitmap_mem b) dest"
  have n: "unat (num_bytes b2) = ?n" "length (bitmap_mem b) = ?n" "length (bitmap_mem b2) = ?n"
    using assms by (simp_all add: wf_bitmap_def)
  have "take ?n ?mem = bitmap_mem b" "drop ?n ?mem = drop ?n dest" using n by (simp_all add: overwrite_def)
  moreover have "deserialize b2 ?mem = Ret (b2\<lparr>bitmap_mem := take ?n ?mem\<rparr>)"
    using assms n deserialize_eq [OF assms(2), of ?mem] by simp
  moreover have "wf_bitmap (b2\<lparr>bitmap_mem := bitmap_mem b\<rparr>)"
    using assms n by (intro wf_bitmap_mem_update) simp_all
  ultimately show ?thesis using serialize_eq [OF assms(1,4)] assms n by (simp add: bits_def)
qed

theorem bitmap_serialize_round_trip_witness:
  "\<exists>mem b'. serialize \<lparr>num_bits = 8, num_bytes = 1, bitmap_mem = [5]\<rparr> [1, 2] = Ret mem
    \<and> deserialize \<lparr>num_bits = 8, num_bytes = 1, bitmap_mem = [0]\<rparr> mem = Ret b'
    \<and> bits b' = bits \<lparr>num_bits = 8, num_bytes = 1, bitmap_mem = [5]\<rparr>"
  using bitmap_serialize_round_trip [of "\<lparr>num_bits = 8, num_bytes = 1, bitmap_mem = [5]\<rparr>"
      "\<lparr>num_bits = 8, num_bytes = 1, bitmap_mem = [0]\<rparr>" "[1, 2]"]
  by (auto simp: wf_bitmap_def)

text \<open>
  The printed form of a bitmap determines it: its digits, read back, are the bits, and a
  separator stands between each two.
\<close>

theorem bitmap_print_read_back:
  assumes "wf_bitmap b"
  shows "\<exists>s. print_bitmap b = Ret s \<and> read_back s = bits b \<and> length s = 2 * unat (num_bits b) - 1"
  using print_from_eq [OF assms, of 0] by (simp add: print_bitmap_def length_rendering)

theorem bitmap_print_read_back_witness:
  "\<exists>s. print_bitmap \<lparr>num_bits = 8, num_bytes = 1, bitmap_mem = [5]\<rparr> = Ret s \<and> length s = 15"
  using bitmap_print_read_back [of "\<lparr>num_bits = 8, num_bytes = 1, bitmap_mem = [5]\<rparr>"]
  by (auto simp: wf_bitmap_def)

section \<open>Results and logging\<close>

text \<open>
  C40. What a program logs: the statements of a program append to every registered stream, once
  per registration at the time, the text of each statement first and then its tag with the
  level, the time, the base name of the file, the function and the line; other streams are
  untouched.  A statement of a file whose path has no slash ends the process.
\<close>

theorem log_statement_output:
  "if list_all has_dir sts
   then \<exists>lg'. log_run sts lg = Ret lg'
     \<and> written lg' = (\<lambda>os. written lg os @ log_expected (static_streams lg) sts os)
   else log_run sts lg = Fault Assertion_Failed"
  by (simp add: log_run_eq log_run_fails)

theorem log_statement_output_witness:
  "\<exists>lg. log_run [Init [0, 1, 0], Log \<lparr>log_level = INFO, log_file = ''a/b.cpp'', log_func = ''f'', log_line = 7,
      log_date = [], log_time = ''t''\<rparr> [Message ''hi'', Manip Endl]] logger_start = Ret lg
    \<and> written lg 1 = ''hi'' @ CHR 0x0A # ''[INFO]--[t]-[b.cpp+f+7]> ''
    \<and> written lg 0 = written lg 1 @ written lg 1 \<and> written lg 2 = []"
proof -
  let ?o = "\<lparr>log_level = INFO, log_file = ''a/b.cpp'', log_func = ''f'', log_line = 7,
      log_date = [], log_time = ''t''\<rparr>"
  have "show_int 7 = ''7''" by code_simp
  then show ?thesis
    using log_statement_output [of "[Init [0, 1, 0], Log ?o [Message ''hi'', Manip Endl]]" logger_start]
    by (auto simp: logger_start_def log_line_text_def log_tag_def base_name_def numeral_eq_Suc)
qed

text \<open>
  C18. The macros and plain sequencing: \<open>PROP_IF_ERROR\<close> evaluates a failing argument twice and
  \<open>UNWRAP_OR_PROP_ERROR\<close> any argument.  On a state where the argument returns a result the first
  macro is "return the error, or go on" for every continuation exactly when a failing argument
  fails the same way, from the state it left, without changing it; the second exactly when the
  argument, run again from the state it left, returns the same result and changes nothing more.
\<close>

theorem macros_sequence_iff_repeatable:
  "((\<forall>rest. prop_if_error m rest s = seq_result m rest s) \<longleftrightarrow> error_repeats m s)
    \<and> ((\<forall>k :: 'r \<Rightarrow> ('s, ('r, 'e) result) cpp. unwrap_or_prop_error what n k t = bind_result n k t)
          \<longleftrightarrow> result_repeats n t)"
  by (rule conjI [OF prop_if_error_seq_iff unwrap_bind_iff])

section \<open>The test program\<close>

text \<open>
  C39. What a test program does: for every command line and tests with different names, registered in
  any order, \<open>main\<close> runs the tests named, or all in the order of their names, and its exit status is 0
  exactly when every one of them passed; with an option for the help or the names it runs none and
  answers 0.  A test that throws counts as failed and the next one runs; an exception that is no
  \<open>std::exception\<close>, an abort and a name that is unknown end the program.
\<close>

theorem test_program_verdicts:
  assumes "distinct (map fst ts)"
  shows "apsnd world (test_main prog args (runner_start ts s)) = test_program ts args s"
  using assms by (rule test_main_runs)

theorem test_program_verdicts_witness:
  "apsnd world (test_main ''t'' [''b'', ''-q'', ''c'', ''a''] (runner_start
      [(''c'', liftc (Throw Bad_Optional_Access)), (''a'', modc Suc),
       (''b'', bindc (modc Suc) (\<lambda>_. liftc (assert_true False 5 ''ASSERT_TRUE(false)'')))] (0 :: nat)))
    = (Ret 1, 2)"
  by (subst test_program_verdicts)
    (simp_all add: test_program_def exits_def names_wanted_def named_def shows_names_def asks_help_def asks_quiet_def
      run_case_def bindc_def noexcept_def retc_def liftc_def modc_def assert_true_def)

end
