(* ===== verification/Posix.thy ===== *)
theory Posix
  imports Errors
begin

text \<open>
  The operating system calls the disk manager makes (\<open>access\<close>, \<open>open\<close>, \<open>stat\<close>,
  \<open>lseek\<close>, \<open>write\<close>, \<open>read\<close>, \<open>truncate\<close>, \<open>fsync\<close>, \<open>unlink\<close>, \<open>close\<close>).  The system is
  not part of the repository, so it is a parameter: a record of calls over an unknown
  world \<open>'w\<close>.  What the code relies on is stated as two locales over an abstract view of
  the world (names, inodes and their bytes, open descriptors):
  \<^item> \<open>posix_fs\<close>: a call that succeeds has its documented effect, a call that fails leaves
    the files alone, and nobody else changes the files meanwhile; any call may fail, a
    write or a read may be short;
  \<^item> \<open>posix_reliable\<close>: besides, calls that can succeed do succeed.
  \<open>sim_posix\<close> is a file system held in lists, with a schedule of faults to inject; it is
  an instance of the first locale, and of the second when the schedule is empty.
\<close>

section \<open>The calls and the abstract view\<close>

datatype errno = ENOENT | Errno nat

record fs_view =
  names :: "string \<Rightarrow> nat option"
  contents :: "nat \<Rightarrow> byte list"
  fds :: "int \<Rightarrow> (nat \<times> nat) option"   \<comment> \<open>the inode and the offset\<close>

record 'w posix =
  sys_access :: "string \<Rightarrow> 'w \<Rightarrow> (errno + unit) \<times> 'w"
  sys_open :: "string \<Rightarrow> 'w \<Rightarrow> (errno + int) \<times> 'w"       \<comment> \<open>\<open>O_RDWR | O_CREAT\<close>\<close>
  sys_stat :: "string \<Rightarrow> 'w \<Rightarrow> (errno + nat) \<times> 'w"        \<comment> \<open>\<open>st_size\<close>\<close>
  sys_lseek :: "int \<Rightarrow> nat \<Rightarrow> 'w \<Rightarrow> (errno + nat) \<times> 'w"   \<comment> \<open>\<open>SEEK_SET\<close>\<close>
  sys_write :: "int \<Rightarrow> byte list \<Rightarrow> 'w \<Rightarrow> (errno + nat) \<times> 'w"
  sys_read :: "int \<Rightarrow> nat \<Rightarrow> 'w \<Rightarrow> (errno + byte list) \<times> 'w"
  sys_truncate :: "string \<Rightarrow> nat \<Rightarrow> 'w \<Rightarrow> (errno + unit) \<times> 'w"
  sys_fsync :: "int \<Rightarrow> 'w \<Rightarrow> (errno + unit) \<times> 'w"
  sys_unlink :: "string \<Rightarrow> 'w \<Rightarrow> (errno + unit) \<times> 'w"
  sys_close :: "int \<Rightarrow> 'w \<Rightarrow> (errno + unit) \<times> 'w"

definition posix_call :: "('w \<Rightarrow> 'r \<times> 'w) \<Rightarrow> ('w, 'r) cpp" where
  "posix_call f w = (Ret (fst (f w)), snd (f w))"

definition file_at :: "fs_view \<Rightarrow> string \<Rightarrow> byte list option" where
  "file_at v p = map_option (contents v) (names v p)"

definition no_hard_links :: "fs_view \<Rightarrow> bool" where
  "no_hard_links v \<longleftrightarrow> (\<forall>p q i. names v p = Some i \<longrightarrow> names v q = Some i \<longrightarrow> p = q)"

definition fresh_inode :: "fs_view \<Rightarrow> nat \<Rightarrow> bool" where
  "fresh_inode v i \<longleftrightarrow> (\<forall>p. names v p \<noteq> Some i) \<and> (\<forall>fd off. fds v fd \<noteq> Some (i, off))"

section \<open>The documented effects\<close>

definition extend_to :: "nat \<Rightarrow> byte list \<Rightarrow> byte list" where
  "extend_to n xs = xs @ replicate (n - length xs) 0"

definition resize_to :: "nat \<Rightarrow> byte list \<Rightarrow> byte list" where
  "resize_to n xs = take n (extend_to n xs)"

definition put_bytes :: "nat \<Rightarrow> byte list \<Rightarrow> byte list \<Rightarrow> byte list" where
  \<comment> \<open>a write at offset \<open>off\<close>; a gap reads as zeros\<close>
  "put_bytes off bs xs = (if bs = [] then xs else overwrite off bs (extend_to (off + length bs) xs))"

definition fs_open :: "nat \<Rightarrow> int \<Rightarrow> fs_view \<Rightarrow> fs_view" where
  "fs_open i fd v = v\<lparr>fds := (fds v)(fd \<mapsto> (i, 0))\<rparr>"

definition fs_create :: "string \<Rightarrow> nat \<Rightarrow> fs_view \<Rightarrow> fs_view" where
  "fs_create p i v = v\<lparr>names := (names v)(p \<mapsto> i), contents := (contents v)(i := [])\<rparr>"

definition fs_seek :: "int \<Rightarrow> nat \<Rightarrow> nat \<Rightarrow> fs_view \<Rightarrow> fs_view" where
  "fs_seek fd i pos v = v\<lparr>fds := (fds v)(fd \<mapsto> (i, pos))\<rparr>"

definition fs_set :: "nat \<Rightarrow> byte list \<Rightarrow> fs_view \<Rightarrow> fs_view" where
  "fs_set i xs v = v\<lparr>contents := (contents v)(i := xs)\<rparr>"

definition fs_unlink :: "string \<Rightarrow> fs_view \<Rightarrow> fs_view" where
  "fs_unlink p v = v\<lparr>names := (names v)(p := None)\<rparr>"

definition fs_close :: "int \<Rightarrow> fs_view \<Rightarrow> fs_view" where
  "fs_close fd v = v\<lparr>fds := (fds v)(fd := None)\<rparr>"

lemmas fs_defs = fs_open_def fs_create_def fs_seek_def fs_set_def fs_unlink_def fs_close_def

section \<open>What the code relies on\<close>

locale posix_fs =
  fixes P :: "'w posix" and view :: "'w \<Rightarrow> fs_view"
  assumes access_law: "sys_access P p w = (ra, w') \<Longrightarrow>
      view w' = view w \<and> (ra = Inr () \<longrightarrow> names (view w) p \<noteq> None) \<and>
      (ra = Inl ENOENT \<longrightarrow> names (view w) p = None)"
    and open_law: "sys_open P p w = (ro, w') \<Longrightarrow>
      (case ro of Inl _ \<Rightarrow> view w' = view w
       | Inr fd \<Rightarrow> 0 \<le> fd \<and> fds (view w) fd = None \<and>
           (case names (view w) p of
              Some i \<Rightarrow> view w' = fs_open i fd (view w)
            | None \<Rightarrow> (\<exists>i. fresh_inode (view w) i
                          \<and> view w' = fs_open i fd (fs_create p i (view w)))))"
    and stat_law: "sys_stat P p w = (rs, w') \<Longrightarrow>
      view w' = view w \<and> (\<forall>n. rs = Inr n \<longrightarrow> (\<exists>xs. file_at (view w) p = Some xs \<and> n = length xs))"
    and lseek_law: "sys_lseek P fd pos w = (rl, w') \<Longrightarrow>
      (case fds (view w) fd of None \<Rightarrow> (\<exists>e. rl = Inl e) \<and> view w' = view w
       | Some (i, off) \<Rightarrow> (case rl of Inl _ \<Rightarrow> view w' = view w
           | Inr n \<Rightarrow> n = pos \<and> view w' = fs_seek fd i pos (view w)))"
    and write_law: "sys_write P fd bs w = (rw, w') \<Longrightarrow>
      (case fds (view w) fd of None \<Rightarrow> (\<exists>e. rw = Inl e) \<and> view w' = view w
       | Some (i, off) \<Rightarrow> (case rw of Inl _ \<Rightarrow> view w' = view w
           | Inr n \<Rightarrow> n \<le> length bs \<and>
               view w' = fs_seek fd i (off + n)
                 (fs_set i (put_bytes off (take n bs) (contents (view w) i)) (view w))))"
    and read_law: "sys_read P fd n w = (rr, w') \<Longrightarrow>
      (case fds (view w) fd of None \<Rightarrow> (\<exists>e. rr = Inl e) \<and> view w' = view w
       | Some (i, off) \<Rightarrow> (case rr of Inl _ \<Rightarrow> view w' = view w
           | Inr bs \<Rightarrow> length bs \<le> n \<and> bs = take (length bs) (drop off (contents (view w) i)) \<and>
               view w' = fs_seek fd i (off + length bs) (view w)))"
    and truncate_law: "sys_truncate P p n w = (rt, w') \<Longrightarrow>
      (case names (view w) p of None \<Rightarrow> (\<exists>e. rt = Inl e) \<and> view w' = view w
       | Some i \<Rightarrow> (case rt of Inl _ \<Rightarrow> view w' = view w
           | Inr _ \<Rightarrow> view w' = fs_set i (resize_to n (contents (view w) i)) (view w)))"
    and fsync_law: "sys_fsync P fd w = (rf, w') \<Longrightarrow> view w' = view w"
    and unlink_law: "sys_unlink P p w = (ru, w') \<Longrightarrow>
      (case ru of Inl _ \<Rightarrow> view w' = view w
       | Inr _ \<Rightarrow> names (view w) p \<noteq> None \<and> view w' = fs_unlink p (view w))"
    and close_law: "sys_close P fd w = (rc, w') \<Longrightarrow>
      (case rc of Inl _ \<Rightarrow> view w' = view w \<or> view w' = fs_close fd (view w)
       | Inr _ \<Rightarrow> view w' = fs_close fd (view w))"

locale posix_reliable = posix_fs +
  assumes access_ok: "fst (sys_access P p w) = (if names (view w) p = None then Inl ENOENT else Inr ())"
    and open_ok: "\<exists>fd. fst (sys_open P p w) = Inr fd"
    and stat_ok: "names (view w) p \<noteq> None \<Longrightarrow> \<exists>n. fst (sys_stat P p w) = Inr n"
    and lseek_ok: "fds (view w) fd \<noteq> None \<Longrightarrow> \<exists>n. fst (sys_lseek P fd pos w) = Inr n"
    and write_ok: "fds (view w) fd \<noteq> None \<Longrightarrow> fst (sys_write P fd bs w) = Inr (length bs)"
    and read_ok: "fds (view w) fd = Some (i, off) \<Longrightarrow>
      fst (sys_read P fd n w) = Inr (take n (drop off (contents (view w) i)))"
    and truncate_ok: "names (view w) p \<noteq> None \<Longrightarrow> fst (sys_truncate P p n w) = Inr ()"
    and fsync_ok: "fds (view w) fd \<noteq> None \<Longrightarrow> fst (sys_fsync P fd w) = Inr ()"
    and unlink_ok: "names (view w) p \<noteq> None \<Longrightarrow> fst (sys_unlink P p w) = Inr ()"
    and close_ok: "fds (view w) fd \<noteq> None \<Longrightarrow> fst (sys_close P fd w) = Inr ()"

section \<open>A file system in lists\<close>

text \<open>
  The file system the witnesses run on.  \<open>sim_faults\<close> is the schedule of faults: each
  call takes the head, \<open>Some n\<close> makes it fail with \<open>Errno n\<close>.
\<close>

record sim_world =
  sim_names :: "(string \<times> nat) list"
  sim_data :: "(nat \<times> byte list) list"
  sim_fds :: "(int \<times> nat \<times> nat) list"
  sim_faults :: "nat option list"

definition sim_contents :: "sim_world \<Rightarrow> nat \<Rightarrow> byte list" where
  "sim_contents w i = (case map_of (sim_data w) i of None \<Rightarrow> [] | Some xs \<Rightarrow> xs)"

definition sim_view :: "sim_world \<Rightarrow> fs_view" where
  "sim_view w = \<lparr>names = map_of (sim_names w), contents = sim_contents w, fds = map_of (sim_fds w)\<rparr>"

definition sim_call :: "(sim_world \<Rightarrow> (errno + 'r) \<times> sim_world) \<Rightarrow> sim_world \<Rightarrow> (errno + 'r) \<times> sim_world" where
  "sim_call f w =
     (case sim_faults w of
        [] \<Rightarrow> f w
      | None # fs \<Rightarrow> f (w\<lparr>sim_faults := fs\<rparr>)
      | Some n # fs \<Rightarrow> (Inl (Errno n), w\<lparr>sim_faults := fs\<rparr>))"

definition sim_set_data :: "nat \<Rightarrow> byte list \<Rightarrow> sim_world \<Rightarrow> sim_world" where
  "sim_set_data i xs w = w\<lparr>sim_data := AList.update i xs (sim_data w)\<rparr>"

definition sim_set_fd :: "int \<Rightarrow> nat \<Rightarrow> nat \<Rightarrow> sim_world \<Rightarrow> sim_world" where
  "sim_set_fd fd i off w = w\<lparr>sim_fds := AList.update fd (i, off) (sim_fds w)\<rparr>"

definition sim_fresh_inode :: "sim_world \<Rightarrow> nat" where
  "sim_fresh_inode w = Suc (fold max (map snd (sim_names w) @ map (fst \<circ> snd) (sim_fds w)) 0)"

definition sim_fresh_fd :: "sim_world \<Rightarrow> int" where
  "sim_fresh_fd w = 1 + fold max (map fst (sim_fds w)) 2"

definition sim_open :: "string \<Rightarrow> sim_world \<Rightarrow> (errno + int) \<times> sim_world" where
  "sim_open p w =
     (let fd = sim_fresh_fd w in
      case map_of (sim_names w) p of
        Some i \<Rightarrow> (Inr fd, sim_set_fd fd i 0 w)
      | None \<Rightarrow>
          (let i = sim_fresh_inode w in
           (Inr fd, sim_set_fd fd i 0
              (sim_set_data i [] (w\<lparr>sim_names := AList.update p i (sim_names w)\<rparr>)))))"

definition sim_write :: "int \<Rightarrow> byte list \<Rightarrow> sim_world \<Rightarrow> (errno + nat) \<times> sim_world" where
  "sim_write fd bs w =
     (case map_of (sim_fds w) fd of
        None \<Rightarrow> (Inl (Errno 9), w)
      | Some (i, off) \<Rightarrow>
          (Inr (length bs), sim_set_fd fd i (off + length bs)
             (sim_set_data i (put_bytes off bs (sim_contents w i)) w)))"

definition sim_read :: "int \<Rightarrow> nat \<Rightarrow> sim_world \<Rightarrow> (errno + byte list) \<times> sim_world" where
  "sim_read fd n w =
     (case map_of (sim_fds w) fd of
        None \<Rightarrow> (Inl (Errno 9), w)
      | Some (i, off) \<Rightarrow>
          (let bs = take n (drop off (sim_contents w i)) in
           (Inr bs, sim_set_fd fd i (off + length bs) w)))"

definition sim_lseek :: "int \<Rightarrow> nat \<Rightarrow> sim_world \<Rightarrow> (errno + nat) \<times> sim_world" where
  "sim_lseek fd pos w =
     (case map_of (sim_fds w) fd of
        None \<Rightarrow> (Inl (Errno 9), w)
      | Some (i, off) \<Rightarrow> (Inr pos, sim_set_fd fd i pos w))"

definition sim_on_name :: "(nat \<Rightarrow> 'r \<times> sim_world) \<Rightarrow> string \<Rightarrow> sim_world \<Rightarrow> (errno + 'r) \<times> sim_world" where
  "sim_on_name f p w =
     (case map_of (sim_names w) p of
        None \<Rightarrow> (Inl ENOENT, w)
      | Some i \<Rightarrow> (case f i of (r, w') \<Rightarrow> (Inr r, w')))"

definition sim_close :: "int \<Rightarrow> sim_world \<Rightarrow> (errno + unit) \<times> sim_world" where
  "sim_close fd w =
     (if map_of (sim_fds w) fd = None then (Inl (Errno 9), w)
      else (Inr (), w\<lparr>sim_fds := AList.delete fd (sim_fds w)\<rparr>))"

definition sim_posix :: "sim_world posix" where
  "sim_posix =
     \<lparr>sys_access = (\<lambda>p. sim_call (\<lambda>w. sim_on_name (\<lambda>i. ((), w)) p w)),
      sys_open = (\<lambda>p. sim_call (sim_open p)),
      sys_stat = (\<lambda>p. sim_call (\<lambda>w. sim_on_name (\<lambda>i. (length (sim_contents w i), w)) p w)),
      sys_lseek = (\<lambda>fd pos. sim_call (sim_lseek fd pos)),
      sys_write = (\<lambda>fd bs. sim_call (sim_write fd bs)),
      sys_read = (\<lambda>fd n. sim_call (sim_read fd n)),
      sys_truncate = (\<lambda>p n. sim_call (\<lambda>w.
        sim_on_name (\<lambda>i. ((), sim_set_data i (resize_to n (sim_contents w i)) w)) p w)),
      sys_fsync = (\<lambda>fd. sim_call (\<lambda>w. (Inr (), w))),
      sys_unlink = (\<lambda>p. sim_call (\<lambda>w.
        sim_on_name (\<lambda>i. ((), w\<lparr>sim_names := AList.delete p (sim_names w)\<rparr>)) p w)),
      sys_close = (\<lambda>fd. sim_call (sim_close fd))\<rparr>"

lemma sim_view_faults [simp]: "sim_view (w\<lparr>sim_faults := fs\<rparr>) = sim_view w"
  by (simp add: sim_view_def sim_contents_def fun_eq_iff)

lemma sim_view_set_data [simp]: "sim_view (sim_set_data i xs w) = fs_set i xs (sim_view w)"
  by (simp add: sim_view_def sim_contents_def sim_set_data_def fs_set_def update_conv' fun_eq_iff)

lemma sim_view_set_fd [simp]: "sim_view (sim_set_fd fd i off w) = fs_seek fd i off (sim_view w)"
  by (simp add: sim_view_def sim_contents_def sim_set_fd_def fs_seek_def update_conv' fun_eq_iff)

lemma sim_view_names [simp]:
  "sim_view (w\<lparr>sim_names := AList.update p i (sim_names w)\<rparr>) = (sim_view w)\<lparr>names := (names (sim_view w))(p \<mapsto> i)\<rparr>"
  "sim_view (w\<lparr>sim_names := AList.delete p (sim_names w)\<rparr>) = fs_unlink p (sim_view w)"
  by (simp_all add: sim_view_def sim_contents_def fs_unlink_def update_conv' delete_conv' fun_eq_iff)

lemma sim_view_delete_fd [simp]:
  "sim_view (w\<lparr>sim_fds := AList.delete fd (sim_fds w)\<rparr>) = fs_close fd (sim_view w)"
  by (simp add: sim_view_def sim_contents_def fs_close_def delete_conv' fun_eq_iff)

lemma sim_view_sel [simp]:
  "names (sim_view w) = map_of (sim_names w)"
  "contents (sim_view w) = sim_contents w"
  "fds (sim_view w) = map_of (sim_fds w)"
  by (simp_all add: sim_view_def)

lemma fold_max_ge: "x \<in> insert a (set xs) \<Longrightarrow> (x :: 'a :: linorder) \<le> fold max xs a"
proof (induction xs arbitrary: a x)
  case (Cons y ys)
  have "max y a \<le> fold max ys (max y a)" by (rule Cons.IH) simp
  with Cons show ?case by auto
qed simp

lemma sim_fresh_fd_less: "fd \<in> insert 2 (fst ` set (sim_fds w)) \<Longrightarrow> fd < sim_fresh_fd w"
  using fold_max_ge [of fd 2 "map fst (sim_fds w)"] by (simp add: sim_fresh_fd_def)

lemma sim_fresh_fd_unused: "map_of (sim_fds w) (sim_fresh_fd w) = None"
  using sim_fresh_fd_less [of "sim_fresh_fd w" w] by (auto simp: map_of_eq_None_iff)

lemma sim_fresh_fd_pos: "3 \<le> sim_fresh_fd w"
  using sim_fresh_fd_less [of 2 w] by simp

lemma sim_fresh_inode_less:
  "i \<in> snd ` set (sim_names w) \<union> (fst \<circ> snd) ` set (sim_fds w) \<Longrightarrow> i < sim_fresh_inode w"
  using fold_max_ge [of i 0 "map snd (sim_names w) @ map (fst \<circ> snd) (sim_fds w)"]
  unfolding sim_fresh_inode_def by (simp add: less_Suc_eq_le)

lemma sim_fresh_inode_fresh: "fresh_inode (sim_view w) (sim_fresh_inode w)"
proof -
  have "map_of (sim_names w) p \<noteq> Some (sim_fresh_inode w)" for p
    using sim_fresh_inode_less [of "sim_fresh_inode w" w] by (force dest: map_of_SomeD)
  moreover have "map_of (sim_fds w) fd \<noteq> Some (sim_fresh_inode w, off)" for fd off
    using sim_fresh_inode_less [of "sim_fresh_inode w" w] by (force dest: map_of_SomeD)
  ultimately show ?thesis by (simp add: fresh_inode_def)
qed

lemmas sim_call_defs = sim_open_def sim_write_def sim_read_def sim_lseek_def sim_on_name_def
  sim_close_def

text \<open>A law that allows failing and holds of a call holds of it with faults injected.\<close>

lemma sim_call_law:
  assumes "sim_call f w = (r, w')"
    and "\<And>w r w'. f w = (r, w') \<Longrightarrow> Q (sim_view w) r (sim_view w')"
    and "\<And>v n. Q v (Inl (Errno n)) v"
  shows "Q (sim_view w) r (sim_view w')"
  using assms(1) assms(2) [of "w\<lparr>sim_faults := _\<rparr>" r w'] assms(2) [of w r w'] assms(3)
  by (auto simp: sim_call_def split: list.splits option.splits)

lemma sim_open_law:
  assumes "sim_open p w = (r, w')"
  shows "case r of Inl _ \<Rightarrow> sim_view w' = sim_view w
       | Inr fd \<Rightarrow> 0 \<le> fd \<and> fds (sim_view w) fd = None \<and>
           (case names (sim_view w) p of
              Some i \<Rightarrow> sim_view w' = fs_open i fd (sim_view w)
            | None \<Rightarrow> (\<exists>i. fresh_inode (sim_view w) i
                          \<and> sim_view w' = fs_open i fd (fs_create p i (sim_view w))))"
proof (cases "map_of (sim_names w) p")
  case None
  let ?i = "sim_fresh_inode w"
  have "sim_view w' = fs_open ?i (sim_fresh_fd w) (fs_create p ?i (sim_view w))"
    using assms None unfolding sim_open_def Let_def
    by (auto simp del: sim_view_sel simp: fs_defs)
  with assms None show ?thesis
    using sim_fresh_inode_fresh [of w] sim_fresh_fd_unused [of w] sim_fresh_fd_pos [of w]
    by (auto simp: sim_open_def Let_def)
next
  case (Some i)
  then show ?thesis
    using assms sim_fresh_fd_unused [of w] sim_fresh_fd_pos [of w]
    by (auto simp: sim_open_def Let_def fs_seek_def fs_open_def)
qed

lemma sim_lseek_law:
  "sim_lseek fd pos w = (r, w') \<Longrightarrow>
    (case fds (sim_view w) fd of None \<Rightarrow> (\<exists>e. r = Inl e) \<and> sim_view w' = sim_view w
     | Some (i, off) \<Rightarrow> (case r of Inl _ \<Rightarrow> sim_view w' = sim_view w
         | Inr n \<Rightarrow> n = pos \<and> sim_view w' = fs_seek fd i pos (sim_view w)))"
  by (auto simp: sim_lseek_def split: option.splits)

lemma sim_write_law:
  "sim_write fd bs w = (r, w') \<Longrightarrow>
    (case fds (sim_view w) fd of None \<Rightarrow> (\<exists>e. r = Inl e) \<and> sim_view w' = sim_view w
     | Some (i, off) \<Rightarrow> (case r of Inl _ \<Rightarrow> sim_view w' = sim_view w
         | Inr n \<Rightarrow> n \<le> length bs \<and> sim_view w' = fs_seek fd i (off + n)
               (fs_set i (put_bytes off (take n bs) (contents (sim_view w) i)) (sim_view w))))"
  by (auto simp: sim_write_def split: option.splits)

lemma sim_read_law:
  "sim_read fd n w = (r, w') \<Longrightarrow>
    (case fds (sim_view w) fd of None \<Rightarrow> (\<exists>e. r = Inl e) \<and> sim_view w' = sim_view w
     | Some (i, off) \<Rightarrow> (case r of Inl _ \<Rightarrow> sim_view w' = sim_view w
         | Inr bs \<Rightarrow> length bs \<le> n \<and> bs = take (length bs) (drop off (contents (sim_view w) i)) \<and>
             sim_view w' = fs_seek fd i (off + length bs) (sim_view w)))"
  by (auto simp: sim_read_def Let_def min_def split: option.splits)

lemma sim_close_law:
  "sim_close fd w = (r, w') \<Longrightarrow>
    (case r of Inl _ \<Rightarrow> sim_view w' = sim_view w \<or> sim_view w' = fs_close fd (sim_view w)
     | Inr _ \<Rightarrow> sim_view w' = fs_close fd (sim_view w))"
  by (auto simp: sim_close_def split: if_splits)

lemma sim_posix_sel [simp]:
  "sys_access sim_posix p = sim_call (\<lambda>w. sim_on_name (\<lambda>i. ((), w)) p w)"
  "sys_open sim_posix p = sim_call (sim_open p)"
  "sys_stat sim_posix p = sim_call (\<lambda>w. sim_on_name (\<lambda>i. (length (sim_contents w i), w)) p w)"
  "sys_lseek sim_posix fd pos = sim_call (sim_lseek fd pos)"
  "sys_write sim_posix fd bs = sim_call (sim_write fd bs)"
  "sys_read sim_posix fd n = sim_call (sim_read fd n)"
  "sys_truncate sim_posix p n = sim_call (\<lambda>w.
     sim_on_name (\<lambda>i. ((), sim_set_data i (resize_to n (sim_contents w i)) w)) p w)"
  "sys_fsync sim_posix fd = sim_call (\<lambda>w. (Inr (), w))"
  "sys_unlink sim_posix p = sim_call (\<lambda>w.
     sim_on_name (\<lambda>i. ((), w\<lparr>sim_names := AList.delete p (sim_names w)\<rparr>)) p w)"
  "sys_close sim_posix fd = sim_call (sim_close fd)"
  by (simp_all add: sim_posix_def)

interpretation sim: posix_fs sim_posix sim_view
proof (unfold_locales, unfold sim_posix_sel, goal_cases)
  case 1 then show ?case
    by (rule sim_call_law [where Q = "\<lambda>v r v'. v' = v \<and> (r = Inr () \<longrightarrow> names v _ \<noteq> None) \<and>
      (r = Inl ENOENT \<longrightarrow> names v _ = None)"]) (auto simp: sim_on_name_def split: option.splits)
next
  case 2 then show ?case by (rule sim_call_law) (erule sim_open_law, simp)
next
  case 3 then show ?case
    by (rule sim_call_law) (auto simp: sim_on_name_def file_at_def split: option.splits)
next
  case 4 then show ?case by (rule sim_call_law) (erule sim_lseek_law, simp split: option.split)
next
  case 5 then show ?case by (rule sim_call_law) (erule sim_write_law, simp split: option.split)
next
  case 6 then show ?case by (rule sim_call_law) (erule sim_read_law, simp split: option.split)
next
  case 7 then show ?case
    by (rule sim_call_law) (auto simp: sim_on_name_def split: option.splits)
next
  case 8 then show ?case by (rule sim_call_law) auto
next
  case 9 then show ?case
    by (rule sim_call_law) (auto simp: sim_on_name_def split: option.splits)
next
  case 10 then show ?case by (rule sim_call_law) (erule sim_close_law, simp)
qed

text \<open>The same file system with the fault schedule ignored.\<close>

definition calm :: "sim_world \<Rightarrow> sim_world" where
  "calm w = w\<lparr>sim_faults := []\<rparr>"

definition calm_posix :: "sim_world posix" where
  "calm_posix =
     \<lparr>sys_access = (\<lambda>p w. sys_access sim_posix p (calm w)),
      sys_open = (\<lambda>p w. sys_open sim_posix p (calm w)),
      sys_stat = (\<lambda>p w. sys_stat sim_posix p (calm w)),
      sys_lseek = (\<lambda>fd pos w. sys_lseek sim_posix fd pos (calm w)),
      sys_write = (\<lambda>fd bs w. sys_write sim_posix fd bs (calm w)),
      sys_read = (\<lambda>fd n w. sys_read sim_posix fd n (calm w)),
      sys_truncate = (\<lambda>p n w. sys_truncate sim_posix p n (calm w)),
      sys_fsync = (\<lambda>fd w. sys_fsync sim_posix fd (calm w)),
      sys_unlink = (\<lambda>p w. sys_unlink sim_posix p (calm w)),
      sys_close = (\<lambda>fd w. sys_close sim_posix fd (calm w))\<rparr>"

lemma sim_view_calm [simp]: "sim_view (calm w) = sim_view w"
  by (simp add: calm_def)

lemma sim_call_calm [simp]: "sim_call f (calm w) = f (calm w)"
proof -
  have "sim_faults (calm w) = []" by (simp add: calm_def)
  then show ?thesis by (simp add: sim_call_def)
qed

lemma calm_posix_sel [simp]:
  "sys_access calm_posix p w = sys_access sim_posix p (calm w)"
  "sys_open calm_posix p w = sys_open sim_posix p (calm w)"
  "sys_stat calm_posix p w = sys_stat sim_posix p (calm w)"
  "sys_lseek calm_posix fd pos w = sys_lseek sim_posix fd pos (calm w)"
  "sys_write calm_posix fd bs w = sys_write sim_posix fd bs (calm w)"
  "sys_read calm_posix fd n w = sys_read sim_posix fd n (calm w)"
  "sys_truncate calm_posix p n w = sys_truncate sim_posix p n (calm w)"
  "sys_fsync calm_posix fd w = sys_fsync sim_posix fd (calm w)"
  "sys_unlink calm_posix p w = sys_unlink sim_posix p (calm w)"
  "sys_close calm_posix fd w = sys_close sim_posix fd (calm w)"
  by (simp_all add: calm_posix_def)

lemma calm_tables [simp]:
  "map_of (sim_names (calm w)) = map_of (sim_names w)" "map_of (sim_fds (calm w)) = map_of (sim_fds w)"
  "sim_contents (calm w) = sim_contents w"
  by (simp_all add: calm_def sim_contents_def fun_eq_iff)

interpretation calm: posix_reliable calm_posix sim_view
proof (unfold_locales, unfold calm_posix_sel, goal_cases)
  case 1 show ?case using sim.access_law [OF 1] by simp
next
  case 2 show ?case using sim.open_law [OF 2] by (simp only: sim_view_calm)
next
  case 3 show ?case using sim.stat_law [OF 3] by simp
next
  case 4 show ?case using sim.lseek_law [OF 4] by (simp only: sim_view_calm)
next
  case 5 show ?case using sim.write_law [OF 5] by (simp only: sim_view_calm)
next
  case 6 show ?case using sim.read_law [OF 6] by (simp only: sim_view_calm)
next
  case 7 show ?case using sim.truncate_law [OF 7] by (simp only: sim_view_calm)
next
  case 8 show ?case using sim.fsync_law [OF 8] by simp
next
  case 9 show ?case using sim.unlink_law [OF 9] by (simp only: sim_view_calm)
next
  case 10 show ?case using sim.close_law [OF 10] by (simp only: sim_view_calm)
next
  case 11 then show ?case by (auto simp: sim_on_name_def split: option.splits)
next
  case 12 then show ?case by (auto simp: sim_open_def Let_def split: option.splits)
next
  case 13 then show ?case by (auto simp: sim_on_name_def)
next
  case 14 then show ?case by (auto simp: sim_lseek_def)
next
  case 15 then show ?case by (auto simp: sim_write_def)
next
  case 16 then show ?case by (auto simp: sim_read_def Let_def)
next
  case 17 then show ?case by (auto simp: sim_on_name_def)
next
  case 18 then show ?case by simp
next
  case 19 then show ?case by (auto simp: sim_on_name_def)
next
  case 20 then show ?case by (auto simp: sim_close_def)
qed

end
