(* ===== verification/Posix_Disk.thy ===== *)
theory Posix_Disk
  imports Posix Result_Class
begin

text \<open>
  \<open>disk_manager/src/impl/posix_disk.h\<close> and \<open>posix_disk.cpp\<close>: one open disk file.  A
  method runs on the object and the operating system's world, \<open>posix_disk \<times> 'w\<close>.
\<close>

section \<open>The class\<close>

record posix_disk =
  m_file_path :: string
  m_fd :: int
  m_page_size :: uint
  m_max_disk_size :: uint
  should_close :: bool

definition posix_disk_new :: "string \<Rightarrow> int \<Rightarrow> uint \<Rightarrow> uint \<Rightarrow> posix_disk" where
  "posix_disk_new file_path fd page_size max_disk_size =
     \<lparr>m_file_path = file_path, m_fd = fd, m_page_size = page_size,
      m_max_disk_size = max_disk_size, should_close = True\<rparr>"

definition get_file_path :: "posix_disk \<Rightarrow> string" where
  "get_file_path pd = m_file_path pd"

definition get_fd :: "posix_disk \<Rightarrow> int" where
  "get_fd pd = m_fd pd"

definition pd_move :: "posix_disk \<Rightarrow> posix_disk \<times> posix_disk" where
  \<comment> \<open>the move constructor: the new object and what is left of the old one\<close>
  "pd_move src =
     (\<lparr>m_file_path = m_file_path src, m_fd = m_fd src, m_page_size = m_page_size src,
       m_max_disk_size = m_max_disk_size src, should_close = True\<rparr>,
      src\<lparr>should_close := False\<rparr>)"

definition pd_move_assign :: "posix_disk \<Rightarrow> posix_disk \<Rightarrow> posix_disk \<times> posix_disk" where
  \<comment> \<open>the move assignment from another object: \<open>should_close\<close> of the target stays\<close>
  "pd_move_assign this src =
     (this\<lparr>m_fd := m_fd src, m_file_path := m_file_path src, m_page_size := m_page_size src,
        m_max_disk_size := m_max_disk_size src\<rparr>,
      src\<lparr>should_close := False\<rparr>)"

definition pd_close :: "'w posix \<Rightarrow> (posix_disk \<times> 'w, (unit, DiskManagerErrorCode) result) cpp" where
  "pd_close P = noexcept (
     bindc (modc (apfst (\<lambda>pd. pd\<lparr>should_close := False\<rparr>))) (\<lambda>_.
     bindc (getc (m_fd \<circ> fst)) (\<lambda>fd.
     bindc (liftc (oassert (0 \<le> fd))) (\<lambda>_.
     bindc (on_snd (posix_call (sys_close P fd))) (\<lambda>res.
       case res of
         Inl _ \<Rightarrow> retc (Inl CLOSE_DISK_ERROR)
       | Inr _ \<Rightarrow> retc (Inr ()))))))"

definition pd_destructor :: "'w posix \<Rightarrow> (posix_disk \<times> 'w, unit) cpp" where
  "pd_destructor P = noexcept (
     bindc (getc (should_close \<circ> fst)) (\<lambda>sc.
       if sc then bindc (pd_close P) (\<lambda>_. retc ()) else retc ()))"

definition pd_exists :: "'w posix \<Rightarrow> string \<Rightarrow> ('w, (bool, DiskManagerErrorCode) result) cpp" where
  "pd_exists P file_path = noexcept (
     bindc (posix_call (sys_access P file_path)) (\<lambda>st.
       case st of
         Inr _ \<Rightarrow> retc (Inr True)
       | Inl err \<Rightarrow> if err = ENOENT then retc (Inr False) else retc (Inl UNKOWN_ERROR)))"

definition pd_init_checked :: "'w posix \<Rightarrow> string \<Rightarrow> bool \<Rightarrow> uint \<Rightarrow> uint \<Rightarrow> bool
    \<Rightarrow> ('w, (posix_disk, DiskManagerErrorCode) result) cpp" where
  \<comment> \<open>\<open>init\<close> once \<open>exist\<close> is known; the returned temporary is moved into the result and
     destroyed\<close>
  "pd_init_checked P file_path should_exist page_size max_disk_size exist =
     (if \<not> should_exist \<and> exist then retc (Inl DISK_ALREADY_EXISTS)
      else if should_exist \<and> \<not> exist then retc (Inl DISK_NOT_FOUND)
      else
        bindc (posix_call (sys_open P file_path)) (\<lambda>res.
          case res of
            Inl _ \<Rightarrow> retc (Inl CREATE_DISK_ERROR)
          | Inr fd \<Rightarrow>
              (case pd_move (posix_disk_new file_path fd page_size max_disk_size) of (pd, tmp) \<Rightarrow>
                 in_scope (pd_destructor P) tmp (retc (Inr pd)))))"

definition pd_init :: "'w posix \<Rightarrow> string \<Rightarrow> bool \<Rightarrow> uint \<Rightarrow> uint
    \<Rightarrow> ('w, (posix_disk, DiskManagerErrorCode) result) cpp" where
  "pd_init P file_path should_exist page_size max_disk_size = noexcept (
     unwrap_or_prop_error dm_what (pd_exists P file_path)
       (pd_init_checked P file_path should_exist page_size max_disk_size))"

definition pd_get_disk_byte_size ::
    "'w posix \<Rightarrow> (posix_disk \<times> 'w, (uint, DiskManagerErrorCode) result) cpp" where
  \<comment> \<open>\<open>st_size\<close> is returned as an \<open>unsigned int\<close>: modulo \<open>2^32\<close>\<close>
  "pd_get_disk_byte_size P = noexcept (
     bindc (getc fst) (\<lambda>pd.
     bindc (on_snd (posix_call (sys_stat P (m_file_path pd)))) (\<lambda>res.
       case res of
         Inl _ \<Rightarrow> retc (Inl GET_DISK_SIZE_ERROR)
       | Inr st_size \<Rightarrow>
           if m_page_size pd = 0 then liftc (Fault (Undefined Division_By_Zero))
           else if st_size mod unat (m_page_size pd) \<noteq> 0 then liftc (Fault Assertion_Failed)
           else retc (Inr (of_nat st_size)))))"

definition pd_sync :: "'w posix \<Rightarrow> (posix_disk \<times> 'w, (unit, DiskManagerErrorCode) result) cpp" where
  "pd_sync P = noexcept (
     bindc (getc (m_fd \<circ> fst)) (\<lambda>fd.
     bindc (on_snd (posix_call (sys_fsync P fd))) (\<lambda>res.
       case res of Inl _ \<Rightarrow> retc (Inl UNKOWN_ERROR) | Inr _ \<Rightarrow> retc (Inr ()))))"

definition pd_truncate ::
    "'w posix \<Rightarrow> uint \<Rightarrow> (posix_disk \<times> 'w, (unit, DiskManagerErrorCode) result) cpp" where
  "pd_truncate P new_byte_size = noexcept (
     bindc (getc (m_file_path \<circ> fst)) (\<lambda>path.
     bindc (on_snd (posix_call (sys_truncate P path (unat new_byte_size)))) (\<lambda>res.
       case res of
         Inl _ \<Rightarrow> retc (Inl UNKOWN_ERROR)
       | Inr _ \<Rightarrow> prop_if_error (pd_sync P) (retc (Inr ())))))"

definition pd_seek ::
    "'w posix \<Rightarrow> uint \<Rightarrow> (posix_disk \<times> 'w, (unit, DiskManagerErrorCode) result) cpp" where
  \<comment> \<open>the \<open>off_t\<close> that \<open>lseek\<close> returns is narrowed to an \<open>int\<close> before it is compared to -1\<close>
  "pd_seek P pos = noexcept (
     bindc (getc (m_fd \<circ> fst)) (\<lambda>fd.
     bindc (on_snd (posix_call (sys_lseek P fd (unat pos)))) (\<lambda>off.
       let res = (case off of Inl _ \<Rightarrow> - 1 | Inr n \<Rightarrow> of_nat n) :: int32 in
       if res = - 1 then retc (Inl UNKOWN_ERROR) else retc (Inr ()))))"

definition pd_grow_to :: "'w posix \<Rightarrow> uint \<Rightarrow> uint \<Rightarrow> (posix_disk \<times> 'w, unit) cpp" where
  \<comment> \<open>the result of \<open>truncate\<close> is dropped\<close>
  "pd_grow_to P cur_byte_size new_byte_size =
     (if cur_byte_size < new_byte_size
      then bindc (pd_truncate P new_byte_size) (\<lambda>_. retc ()) else retc ())"

definition pd_prepare_sized ::
    "'w posix \<Rightarrow> int32 \<Rightarrow> uint \<Rightarrow> (posix_disk \<times> 'w, (unit, DiskManagerErrorCode) result) cpp" where
  \<comment> \<open>\<open>prepare_rw\<close> once the size is known.  Unsigned arithmetic: the product and the sum
     wrap\<close>
  "pd_prepare_sized P disk_page_cursor cur_byte_size =
     bindc (getc fst) (\<lambda>pd.
       let foffset = disk_page_cursor * m_page_size pd;
           new_byte_size = foffset + m_page_size pd
       in if m_max_disk_size pd \<le> new_byte_size then retc (Inl DISK_EXCEEDS_MAX_SIZE)
          else
            bindc (pd_grow_to P cur_byte_size new_byte_size) (\<lambda>_.
            prop_if_error (pd_seek P foffset) (retc (Inr ()))))"

definition pd_prepare_rw ::
    "'w posix \<Rightarrow> int32 \<Rightarrow> (posix_disk \<times> 'w, (unit, DiskManagerErrorCode) result) cpp" where
  "pd_prepare_rw P disk_page_cursor = noexcept (
     unwrap_or_prop_error dm_what (pd_get_disk_byte_size P) (pd_prepare_sized P disk_page_cursor))"

definition pd_write :: "'w posix \<Rightarrow> int32 \<Rightarrow> byte list
    \<Rightarrow> (posix_disk \<times> 'w, (unit, DiskManagerErrorCode) result) cpp" where
  "pd_write P disk_page_cursor data = noexcept (
     prop_if_error (pd_prepare_rw P disk_page_cursor) (
     bindc (getc fst) (\<lambda>pd.
     bindc (liftc (mem_read data 0 (unat (m_page_size pd)))) (\<lambda>bytes.
     bindc (on_snd (posix_call (sys_write P (m_fd pd) bytes))) (\<lambda>res.
       let num_bytes = (case res of Inl _ \<Rightarrow> - 1 | Inr n \<Rightarrow> of_nat n) :: uint in
       if num_bytes \<noteq> m_page_size pd then retc (Inl UNKOWN_ERROR)
       else prop_if_error (pd_sync P) (retc (Inr ())))))))"

definition pd_read :: "'w posix \<Rightarrow> int32
    \<Rightarrow> (posix_disk \<times> byte list \<times> 'w, (unit, DiskManagerErrorCode) result) cpp" where
  \<comment> \<open>the caller's buffer is the second part of the state\<close>
  "pd_read P disk_page_cursor = noexcept (
     prop_if_error (past_fst (pd_prepare_rw P disk_page_cursor)) (
     bindc (getc fst) (\<lambda>pd.
     bindc (getc (fst \<circ> snd)) (\<lambda>buf.
     bindc (liftc (mem_read buf 0 (unat (m_page_size pd)))) (\<lambda>_.
     bindc (on_snd (on_snd (posix_call (sys_read P (m_fd pd) (unat (m_page_size pd)))))) (\<lambda>res.
     bindc (modc (apsnd (apfst (\<lambda>buf. case res of Inl _ \<Rightarrow> buf | Inr bs \<Rightarrow> overwrite 0 bs buf)))) (\<lambda>_.
       let num_bytes = (case res of Inl _ \<Rightarrow> - 1 | Inr bs \<Rightarrow> of_nat (length bs)) :: uint in
       if num_bytes \<noteq> m_page_size pd then retc (Inl READ_DISK_ERROR)
       else retc (Inr ()))))))))"

definition pd_destroy :: "'w posix \<Rightarrow> (posix_disk \<times> 'w, (unit, DiskManagerErrorCode) result) cpp" where
  "pd_destroy P = noexcept (
     bindc (getc (m_file_path \<circ> fst)) (\<lambda>path.
     bindc (on_snd (posix_call (sys_unlink P path))) (\<lambda>stat.
       case stat of
         Inl _ \<Rightarrow> retc (Inl DESTROY_DISK_ERROR)
       | Inr _ \<Rightarrow>
           bindc (modc (apfst (\<lambda>pd. pd\<lparr>should_close := False\<rparr>))) (\<lambda>_. retc (Inr ())))))"

section \<open>Pages of a file\<close>

text \<open>
  A file is read and written in pages; pages past its end are zero.  \<open>put_page\<close> is the file
  after a page write, \<open>get_page\<close> the page a read returns, \<open>grow\<close> the file after the
  extension both of them make first.
\<close>

definition grow :: "nat \<Rightarrow> nat \<Rightarrow> byte list \<Rightarrow> byte list" where
  "grow ps k xs = extend_to (k * ps + ps) xs"

definition put_page :: "nat \<Rightarrow> nat \<Rightarrow> byte list \<Rightarrow> byte list \<Rightarrow> byte list" where
  "put_page ps k bs xs = overwrite (k * ps) bs (grow ps k xs)"

definition get_page :: "nat \<Rightarrow> nat \<Rightarrow> byte list \<Rightarrow> byte list" where
  "get_page ps k xs = take ps (drop (k * ps) (grow ps k xs))"

lemma length_extend_to [simp]: "length (extend_to n xs) = max n (length xs)"
  by (simp add: extend_to_def)

lemma extend_to_id [simp]: "n \<le> length xs \<Longrightarrow> extend_to n xs = xs"
  by (simp add: extend_to_def)

lemma extend_to_idem [simp]: "extend_to n (extend_to n xs) = extend_to n xs"
  by simp

lemma nth_extend_to:
  "i < max n (length xs) \<Longrightarrow> extend_to n xs ! i = (if i < length xs then xs ! i else 0)"
  by (auto simp: extend_to_def nth_append)

lemma resize_to_extend: "length xs \<le> n \<Longrightarrow> resize_to n xs = extend_to n xs"
  by (simp add: resize_to_def)

lemma length_grow [simp]: "length (grow ps k xs) = max (k * ps + ps) (length xs)"
  by (simp add: grow_def)

lemma length_put_page [simp]:
  "length bs = ps \<Longrightarrow> length (put_page ps k bs xs) = max (k * ps + ps) (length xs)"
  by (simp add: put_page_def)

lemma length_get_page [simp]: "length (get_page ps k xs) = ps"
  by (simp add: get_page_def)

lemma nth_get_page:
  "i < ps \<Longrightarrow> get_page ps k xs ! i = (if k * ps + i < length xs then xs ! (k * ps + i) else 0)"
  by (simp add: get_page_def grow_def nth_extend_to)

lemma get_page_grow [simp]: "get_page ps j (grow ps k xs) = get_page ps j xs"
  by (rule nth_equalityI) (auto simp: nth_get_page grow_def nth_extend_to)

lemma page_disjoint:
  assumes "(j :: nat) \<noteq> k" and "i < ps"
  shows "\<not> (k * ps \<le> j * ps + i \<and> j * ps + i < k * ps + ps)"
proof -
  consider "j + 1 \<le> k" | "k + 1 \<le> j" using assms(1) by (metis Suc_eq_plus1 Suc_leI nat_neq_iff)
  then show ?thesis
  proof cases
    case 1
    then have "(j + 1) * ps \<le> k * ps" by (rule mult_le_mono1)
    with assms(2) show ?thesis by simp
  next
    case 2
    then have "(k + 1) * ps \<le> j * ps" by (rule mult_le_mono1)
    then show ?thesis by simp
  qed
qed

lemma get_page_put_page:
  assumes "length bs = ps"
  shows "get_page ps j (put_page ps k bs xs) = (if j = k then bs else get_page ps j xs)"
proof (rule nth_equalityI)
  fix i
  assume "i < length (get_page ps j (put_page ps k bs xs))"
  then have i: "i < ps" by simp
  show "get_page ps j (put_page ps k bs xs) ! i = (if j = k then bs else get_page ps j xs) ! i"
    using i assms page_disjoint [of j k i ps]
    by (auto simp: nth_get_page put_page_def nth_overwrite grow_def nth_extend_to)
qed (use assms in simp)

lemma dvd_length_put_page:
  "length bs = ps \<Longrightarrow> ps dvd length xs \<Longrightarrow> ps dvd length (put_page ps k bs xs)"
  by (auto simp: max_def)

lemma dvd_length_grow: "ps dvd length xs \<Longrightarrow> ps dvd length (grow ps k xs)"
  by (auto simp: max_def)

section \<open>Methods on a reliable system\<close>

definition handle :: "fs_view \<Rightarrow> posix_disk \<Rightarrow> nat \<Rightarrow> nat \<Rightarrow> bool" where
  "handle v pd i off \<longleftrightarrow> names v (m_file_path pd) = Some i \<and> fds v (m_fd pd) = Some (i, off)
     \<and> 0 \<le> m_fd pd"

definition page_fits :: "posix_disk \<Rightarrow> int32 \<Rightarrow> bool" where
  \<comment> \<open>the page ends before the maximal size, computed without wrap-around\<close>
  "page_fits pd cur \<longleftrightarrow>
     unat cur * unat (m_page_size pd) + unat (m_page_size pd) < unat (m_max_disk_size pd)"

lemma page_fits_words:
  assumes "page_fits pd cur" and "m_page_size pd \<noteq> 0"
  defines "ps \<equiv> m_page_size pd"
  shows "unat (cur * ps) = unat cur * unat ps"
    and "unat (cur * ps + ps) = unat cur * unat ps + unat ps"
    and "\<not> m_max_disk_size pd \<le> cur * ps + ps"
    and "cur * ps \<noteq> - 1"
proof -
  have lim: "unat cur * unat ps + unat ps < 4294967296"
    using assms unat_uint_less [of "m_max_disk_size pd"] unfolding page_fits_def ps_def by linarith
  show m: "unat (cur * ps) = unat cur * unat ps"
    using lim by (simp add: unat_word_ariths)
  show a: "unat (cur * ps + ps) = unat cur * unat ps + unat ps"
    using lim m unat_add_uint [of "cur * ps" ps] by simp
  show "\<not> m_max_disk_size pd \<le> cur * ps + ps"
    using assms(1) a by (simp add: word_le_nat_alt page_fits_def ps_def)
  have "0 < unat ps" using assms(2) by (simp add: ps_def unat_gt_0)
  with lim have "unat cur * unat ps < 4294967295" by linarith
  moreover have "unat (- 1 :: uint) = 4294967295"
    by (simp add: unsigned_minus_1_eq_mask mask_eq_exp_minus_1)
  ultimately show "cur * ps \<noteq> - 1" using m by (metis less_irrefl)
qed

lemma posix_call_eq: "f w = (r, w') \<Longrightarrow> posix_call f w = (Ret r, w')"
  by (simp add: posix_call_def)

lemma fs_set_same [simp]: "fs_set i (contents v i) v = v"
  by (simp add: fs_set_def)

lemma view_set_sel [simp]:
  "names (fs_set i xs v) = names v" "fds (fs_set i xs v) = fds v"
  "contents (fs_set i xs v) = (contents v)(i := xs)"
  "names (fs_seek fd i pos v) = names v" "contents (fs_seek fd i pos v) = contents v"
  "fds (fs_seek fd i pos v) = (fds v)(fd \<mapsto> (i, pos))"
  "names (fs_open i fd v) = names v" "contents (fs_open i fd v) = contents v"
  "fds (fs_open i fd v) = (fds v)(fd \<mapsto> (i, 0))"
  "names (fs_create p i v) = (names v)(p \<mapsto> i)" "contents (fs_create p i v) = (contents v)(i := [])"
  "fds (fs_create p i v) = fds v"
  "names (fs_unlink p v) = (names v)(p := None)" "contents (fs_unlink p v) = contents v"
  "fds (fs_unlink p v) = fds v"
  "names (fs_close fd v) = names v" "contents (fs_close fd v) = contents v"
  "fds (fs_close fd v) = (fds v)(fd := None)"
  by (simp_all add: fs_defs)

context posix_reliable begin

lemma access_run:
  obtains w' where "sys_access P p w = (if names (view w) p = None then Inl ENOENT else Inr (), w')"
    and "view w' = view w"
proof -
  obtain w' where run: "sys_access P p w = (if names (view w) p = None then Inl ENOENT else Inr (), w')"
    using access_ok [of p w] by (metis prod.collapse)
  moreover have "view w' = view w" using access_law [OF run] by (rule conjunct1)
  ultimately show thesis by (rule that)
qed

lemma stat_run:
  assumes "names (view w) p = Some i"
  obtains w' where "sys_stat P p w = (Inr (length (contents (view w) i)), w')" and "view w' = view w"
proof -
  obtain n where "fst (sys_stat P p w) = Inr n" using stat_ok [of w p] assms by auto
  then obtain w' where run: "sys_stat P p w = (Inr n, w')" by (metis prod.collapse)
  with stat_law [OF run] assms have "n = length (contents (view w) i)" and "view w' = view w"
    by (auto simp: file_at_def)
  with run show thesis by (intro that [of w']) simp_all
qed

lemma lseek_run:
  assumes "fds (view w) fd = Some (i, off)"
  obtains w' where "sys_lseek P fd pos w = (Inr pos, w')" and "view w' = fs_seek fd i pos (view w)"
proof -
  obtain n where "fst (sys_lseek P fd pos w) = Inr n" using lseek_ok [of w fd pos] assms by auto
  then obtain w' where run: "sys_lseek P fd pos w = (Inr n, w')" by (metis prod.collapse)
  with lseek_law [OF run] assms run show thesis by (intro that [of w']) (simp_all)
qed

lemma truncate_run:
  assumes "names (view w) p = Some i"
  obtains w' where "sys_truncate P p n w = (Inr (), w')"
    and "view w' = fs_set i (resize_to n (contents (view w) i)) (view w)"
proof -
  obtain w' where run: "sys_truncate P p n w = (Inr (), w')"
    using truncate_ok [of w p n] assms by (metis option.distinct(1) prod.collapse)
  with run truncate_law [OF run] assms show thesis by (intro that [of w']) (simp_all)
qed

lemma fsync_run:
  assumes "fds (view w) fd = Some (i, off)"
  obtains w' where "sys_fsync P fd w = (Inr (), w')" and "view w' = view w"
proof -
  obtain r w' where run: "sys_fsync P fd w = (r, w')" by fastforce
  with fsync_ok [of w fd] assms have "r = Inr ()" by simp
  with run fsync_law [OF run] show thesis by (intro that [of w']) simp_all
qed

lemma write_run:
  assumes "fds (view w) fd = Some (i, off)"
  obtains w' where "sys_write P fd bs w = (Inr (length bs), w')"
    and "view w' = fs_seek fd i (off + length bs) (fs_set i (put_bytes off bs (contents (view w) i)) (view w))"
proof -
  obtain w' where run: "sys_write P fd bs w = (Inr (length bs), w')"
    using write_ok [of w fd bs] assms by (metis option.distinct(1) prod.collapse)
  with run write_law [OF run] assms show thesis by (intro that [of w']) (simp_all)
qed

lemma read_run:
  assumes "fds (view w) fd = Some (i, off)"
  obtains w' where "sys_read P fd n w = (Inr (take n (drop off (contents (view w) i))), w')"
    and "view w' = fs_seek fd i (off + min n (length (contents (view w) i) - off)) (view w)"
proof -
  obtain w' where run: "sys_read P fd n w = (Inr (take n (drop off (contents (view w) i))), w')"
    using read_ok [of w fd i off n] assms by (metis prod.collapse)
  with run read_law [OF run] assms show thesis by (intro that [of w']) (simp_all add: min.commute)
qed

lemma unlink_run:
  assumes "names (view w) p = Some i"
  obtains w' where "sys_unlink P p w = (Inr (), w')" and "view w' = fs_unlink p (view w)"
proof -
  obtain w' where run: "sys_unlink P p w = (Inr (), w')"
    using unlink_ok [of w p] assms by (metis option.distinct(1) prod.collapse)
  with run unlink_law [OF run] show thesis by (intro that [of w']) simp_all
qed

lemma close_run:
  assumes "fds (view w) fd = Some (i, off)"
  obtains w' where "sys_close P fd w = (Inr (), w')" and "view w' = fs_close fd (view w)"
proof -
  obtain w' where run: "sys_close P fd w = (Inr (), w')"
    using close_ok [of w fd] assms by (metis option.distinct(1) prod.collapse)
  with run close_law [OF run] show thesis by (intro that [of w']) simp_all
qed

end

lemmas run_simps = noexcept_def bindc_def on_snd_def past_fst_def zoom_def posix_call_def
  in_scope_def prop_if_error_def unwrap_or_prop_error_def

context posix_reliable begin

lemma pd_exists_run:
  obtains w' where "pd_exists P p w = (Ret (Inr (names (view w) p \<noteq> None)), w')"
    and "view w' = view w"
proof -
  obtain w' where "sys_access P p w = (if names (view w) p = None then Inl ENOENT else Inr (), w')"
    and "view w' = view w" by (rule access_run)
  then show thesis by (intro that [of w']) (simp_all add: pd_exists_def run_simps)
qed

lemma pd_exists_twice:
  obtains w' where "unwrap_or_prop_error dm_what (pd_exists P p) k w = k (names (view w) p \<noteq> None) w'"
    and "view w' = view w"
proof -
  obtain w1 where 1: "pd_exists P p w = (Ret (Inr (names (view w) p \<noteq> None)), w1)"
    and v1: "view w1 = view w" by (rule pd_exists_run)
  obtain w2 where 2: "pd_exists P p w1 = (Ret (Inr (names (view w1) p \<noteq> None)), w2)"
    and v2: "view w2 = view w1" by (rule pd_exists_run)
  from unwrap_value [OF 1 2] v1 v2 show thesis by (intro that [of w2]) simp_all
qed

lemma pd_destructor_moved: "pd_destructor P (pd\<lparr>should_close := False\<rparr>, w) = (Ret (), pd\<lparr>should_close := False\<rparr>, w)"
  by (simp add: pd_destructor_def run_simps)

lemma pd_init_unfold:
  obtains w1 where "pd_init P p se ps mx w =
      noexcept (pd_init_checked P p se ps mx (names (view w) p \<noteq> None)) w1"
    and "view w1 = view w"
proof -
  obtain w1 where "unwrap_or_prop_error dm_what (pd_exists P p) (pd_init_checked P p se ps mx) w =
      pd_init_checked P p se ps mx (names (view w) p \<noteq> None) w1"
    and "view w1 = view w" by (rule pd_exists_twice)
  then show thesis by (intro that [of w1]) (simp_all add: pd_init_def noexcept_def)
qed

lemma pd_init_opens:
  assumes "se \<longleftrightarrow> names (view w) p \<noteq> None"
  obtains w' fd w1 where "pd_init P p se ps mx w = (Ret (Inr (posix_disk_new p fd ps mx)), w')"
    and "sys_open P p w1 = (Inr fd, w')" and "view w1 = view w"
proof -
  obtain w1 where 1: "pd_init P p se ps mx w =
      noexcept (pd_init_checked P p se ps mx (names (view w) p \<noteq> None)) w1"
    and v1: "view w1 = view w" by (rule pd_init_unfold)
  obtain fd where "fst (sys_open P p w1) = Inr fd" using open_ok by blast
  then obtain w2 where 2: "sys_open P p w1 = (Inr fd, w2)" by (metis prod.collapse)
  have "pd_init P p se ps mx w = (Ret (Inr (posix_disk_new p fd ps mx)), w2)"
    unfolding 1 using 2 assms
    by (auto simp: pd_init_checked_def run_simps pd_move_def posix_disk_new_def pd_destructor_def)
  then show thesis using 2 v1 by (rule that)
qed

lemma pd_init_existing:
  assumes "names (view w) p = Some i"
  obtains w' fd where "pd_init P p True ps mx w = (Ret (Inr (posix_disk_new p fd ps mx)), w')"
    and "view w' = fs_open i fd (view w)" and "fds (view w) fd = None" and "0 \<le> fd"
proof -
  have "True \<longleftrightarrow> names (view w) p \<noteq> None" using assms by simp
  then obtain w' fd w1 where run: "pd_init P p True ps mx w = (Ret (Inr (posix_disk_new p fd ps mx)), w')"
    and op: "sys_open P p w1 = (Inr fd, w')" and "view w1 = view w" by (rule pd_init_opens)
  then have "view w' = fs_open i fd (view w)" "fds (view w) fd = None" "0 \<le> fd"
    using open_law [OF op] assms by simp_all
  with run show thesis by (rule that)
qed

lemma pd_init_creates:
  assumes "names (view w) p = None"
  obtains w' fd i where "pd_init P p False ps mx w = (Ret (Inr (posix_disk_new p fd ps mx)), w')"
    and "view w' = fs_open i fd (fs_create p i (view w))" and "fresh_inode (view w) i"
    and "fds (view w) fd = None" and "0 \<le> fd"
proof -
  have "False \<longleftrightarrow> names (view w) p \<noteq> None" using assms by simp
  then obtain w' fd w1 where run: "pd_init P p False ps mx w = (Ret (Inr (posix_disk_new p fd ps mx)), w')"
    and op: "sys_open P p w1 = (Inr fd, w')" and "view w1 = view w" by (rule pd_init_opens)
  then obtain i where "view w' = fs_open i fd (fs_create p i (view w))" "fresh_inode (view w) i"
    "fds (view w) fd = None" "0 \<le> fd"
    using open_law [OF op] assms by auto
  with run show thesis by (rule that)
qed

lemma pd_init_refuses:
  assumes "se \<longleftrightarrow> names (view w) p = None"
  obtains w' where "pd_init P p se ps mx w =
      (Ret (Inl (if se then DISK_NOT_FOUND else DISK_ALREADY_EXISTS)), w')"
    and "view w' = view w"
proof -
  obtain w1 where 1: "pd_init P p se ps mx w =
      noexcept (pd_init_checked P p se ps mx (names (view w) p \<noteq> None)) w1"
    and v1: "view w1 = view w" by (rule pd_init_unfold)
  have "pd_init P p se ps mx w = (Ret (Inl (if se then DISK_NOT_FOUND else DISK_ALREADY_EXISTS)), w1)"
    unfolding 1 using assms by (auto simp: pd_init_checked_def run_simps)
  then show thesis using v1 by (rule that)
qed

lemma pd_destructor_run:
  assumes "fds (view w) (m_fd pd) = Some (i, off)" and "0 \<le> m_fd pd" and "should_close pd"
  obtains w' where "pd_destructor P (pd, w) = (Ret (), pd\<lparr>should_close := False\<rparr>, w')"
    and "view w' = fs_close (m_fd pd) (view w)"
proof -
  obtain w' where "sys_close P (m_fd pd) w = (Inr (), w')"
    and "view w' = fs_close (m_fd pd) (view w)" using assms(1) by (rule close_run)
  then show thesis using assms
    by (intro that [of w']) (simp_all add: pd_destructor_def pd_close_def run_simps)
qed

lemma pd_size_run:
  assumes "names (view w) (m_file_path pd) = Some i" and "m_page_size pd \<noteq> 0"
    and "unat (m_page_size pd) dvd length (contents (view w) i)"
  obtains w' where "pd_get_disk_byte_size P (pd, w) =
      (Ret (Inr (of_nat (length (contents (view w) i)))), (pd, w'))"
    and "view w' = view w"
proof -
  obtain w' where "sys_stat P (m_file_path pd) w = (Inr (length (contents (view w) i)), w')"
    and "view w' = view w" using assms(1) by (rule stat_run)
  then show thesis using assms
    by (intro that [of w']) (simp_all add: pd_get_disk_byte_size_def run_simps)
qed

lemma pd_sync_run:
  assumes "fds (view w) (m_fd pd) = Some (i, off)"
  obtains w' where "pd_sync P (pd, w) = (Ret (Inr ()), (pd, w'))" and "view w' = view w"
proof -
  obtain w' where "sys_fsync P (m_fd pd) w = (Inr (), w')" and "view w' = view w"
    using assms by (rule fsync_run)
  then show thesis by (intro that [of w']) (simp_all add: pd_sync_def run_simps)
qed

lemma pd_truncate_run:
  assumes "handle (view w) pd i off"
  obtains w' where "pd_truncate P n (pd, w) = (Ret (Inr ()), (pd, w'))"
    and "view w' = fs_set i (resize_to (unat n) (contents (view w) i)) (view w)"
proof -
  obtain w1 where 1: "sys_truncate P (m_file_path pd) (unat n) w = (Inr (), w1)"
    and v1: "view w1 = fs_set i (resize_to (unat n) (contents (view w) i)) (view w)"
    using assms truncate_run [of w "m_file_path pd"] unfolding handle_def by blast
  have "fds (view w1) (m_fd pd) = Some (i, off)" using v1 assms by (simp add: handle_def)
  then obtain w2 where 2: "pd_sync P (pd, w1) = (Ret (Inr ()), (pd, w2))" and v2: "view w2 = view w1"
    by (rule pd_sync_run)
  show thesis
    using 1 2 v1 v2 by (intro that [of w2]) (simp_all add: pd_truncate_def run_simps)
qed

lemma pd_seek_run:
  assumes "fds (view w) (m_fd pd) = Some (i, off)" and "pos \<noteq> - 1"
  obtains w' where "pd_seek P pos (pd, w) = (Ret (Inr ()), (pd, w'))"
    and "view w' = fs_seek (m_fd pd) i (unat pos) (view w)"
proof -
  obtain w' where "sys_lseek P (m_fd pd) (unat pos) w = (Inr (unat pos), w')"
    and "view w' = fs_seek (m_fd pd) i (unat pos) (view w)" using assms(1) by (rule lseek_run)
  then show thesis using assms(2)
    by (intro that [of w']) (simp_all add: pd_seek_def run_simps)
qed

lemma pd_size_twice:
  assumes "names (view w) (m_file_path pd) = Some i" and "m_page_size pd \<noteq> 0"
    and "unat (m_page_size pd) dvd length (contents (view w) i)"
  obtains w' where "unwrap_or_prop_error dm_what (pd_get_disk_byte_size P) k (pd, w) =
      k (of_nat (length (contents (view w) i))) (pd, w')"
    and "view w' = view w"
proof -
  obtain w1 where 1: "pd_get_disk_byte_size P (pd, w) =
      (Ret (Inr (of_nat (length (contents (view w) i)))), (pd, w1))" and v1: "view w1 = view w"
    using assms by (rule pd_size_run)
  obtain w2 where 2: "pd_get_disk_byte_size P (pd, w1) =
      (Ret (Inr (of_nat (length (contents (view w1) i)))), (pd, w2))" and v2: "view w2 = view w1"
    using assms v1 by (metis pd_size_run)
  from unwrap_value [OF 1 2] v1 v2 show thesis by (intro that [of w2]) simp_all
qed

lemma pd_grow_run:
  assumes "handle (view w) pd i off" and "length (contents (view w) i) < 4294967296"
  obtains w' where "pd_grow_to P (of_nat (length (contents (view w) i))) n (pd, w) = (Ret (), (pd, w'))"
    and "view w' = fs_set i (extend_to (unat n) (contents (view w) i)) (view w)"
proof (cases "length (contents (view w) i) < unat n")
  case True
  obtain w' where run: "pd_truncate P n (pd, w) = (Ret (Inr ()), (pd, w'))"
    and v: "view w' = fs_set i (resize_to (unat n) (contents (view w) i)) (view w)"
    using assms(1) by (rule pd_truncate_run)
  show thesis using True assms(2) run v
    by (intro that [of w']) (simp_all add: pd_grow_to_def word_less_nat_alt unat_of_nat_uint run_simps resize_to_extend)
next
  case False
  then show thesis using assms(2)
    by (intro that [of w]) (simp_all add: pd_grow_to_def word_less_nat_alt unat_of_nat_uint)
qed

lemma pd_prepare_rw_unfold:
  assumes "handle (view w) pd i off" and "m_page_size pd \<noteq> 0"
    and "unat (m_page_size pd) dvd length (contents (view w) i)"
  obtains w1 where "pd_prepare_rw P cur (pd, w) =
      noexcept (pd_prepare_sized P cur (of_nat (length (contents (view w) i)))) (pd, w1)"
    and "view w1 = view w"
proof -
  have "names (view w) (m_file_path pd) = Some i" using assms(1) by (simp add: handle_def)
  then obtain w1 where
    "unwrap_or_prop_error dm_what (pd_get_disk_byte_size P) (pd_prepare_sized P cur) (pd, w) =
      pd_prepare_sized P cur (of_nat (length (contents (view w) i))) (pd, w1)" and "view w1 = view w"
    using assms(2,3) by (rule pd_size_twice)
  then show thesis by (intro that [of w1]) (simp_all add: pd_prepare_rw_def noexcept_def)
qed

lemma pd_prepare_rw_run:
  assumes h: "handle (view w) pd i off" and ps: "m_page_size pd \<noteq> 0"
    and whole: "unat (m_page_size pd) dvd length (contents (view w) i)"
    and small: "length (contents (view w) i) < 4294967296" and fits: "page_fits pd cur"
  obtains w' where "pd_prepare_rw P cur (pd, w) = (Ret (Inr ()), (pd, w'))"
    and "view w' = fs_seek (m_fd pd) i (unat cur * unat (m_page_size pd))
      (fs_set i (grow (unat (m_page_size pd)) (unat cur) (contents (view w) i)) (view w))"
proof -
  let ?ps = "m_page_size pd" and ?xs = "contents (view w) i"
  note words = page_fits_words [OF fits ps]
  obtain w1 where 1: "pd_prepare_rw P cur (pd, w) =
      noexcept (pd_prepare_sized P cur (of_nat (length ?xs))) (pd, w1)" and v1: "view w1 = view w"
    using h ps whole by (rule pd_prepare_rw_unfold)
  have "handle (view w1) pd i off" "length (contents (view w1) i) < 4294967296"
    using h small v1 by simp_all
  then obtain w2 where 2: "pd_grow_to P (of_nat (length (contents (view w1) i))) (cur * ?ps + ?ps) (pd, w1)
      = (Ret (), (pd, w2))"
    and v2: "view w2 = fs_set i (extend_to (unat (cur * ?ps + ?ps)) (contents (view w1) i)) (view w1)"
    by (rule pd_grow_run)
  have "fds (view w2) (m_fd pd) = Some (i, off)" using v1 v2 h by (simp add: handle_def)
  then obtain w3 where 3: "pd_seek P (cur * ?ps) (pd, w2) = (Ret (Inr ()), (pd, w3))"
    and v3: "view w3 = fs_seek (m_fd pd) i (unat (cur * ?ps)) (view w2)"
    using words(4) by (rule pd_seek_run)
  have "pd_prepare_sized P cur (of_nat (length ?xs)) (pd, w1) = (Ret (Inr ()), (pd, w3))"
    using words(3) 2 3 v1 by (simp add: pd_prepare_sized_def Let_def bindc_eqs prop_if_error_value)
  then have "pd_prepare_rw P cur (pd, w) = (Ret (Inr ()), (pd, w3))"
    unfolding 1 by (rule noexcept_eqs)
  moreover have "view w3 = fs_seek (m_fd pd) i (unat cur * unat ?ps)
      (fs_set i (grow (unat ?ps) (unat cur) ?xs) (view w))"
    using v1 v2 v3 words by (simp add: grow_def)
  ultimately show thesis by (rule that)
qed

lemma pd_prepare_rw_exceeds:
  assumes "handle (view w) pd i off" and "m_page_size pd \<noteq> 0"
    and "unat (m_page_size pd) dvd length (contents (view w) i)"
    and "m_max_disk_size pd \<le> cur * m_page_size pd + m_page_size pd"
  obtains w' where "pd_prepare_rw P cur (pd, w) = (Ret (Inl DISK_EXCEEDS_MAX_SIZE), (pd, w'))"
    and "view w' = view w"
proof -
  obtain w1 where "pd_prepare_rw P cur (pd, w) =
      noexcept (pd_prepare_sized P cur (of_nat (length (contents (view w) i)))) (pd, w1)"
    and "view w1 = view w"
    using assms(1-3) by (rule pd_prepare_rw_unfold)
  then show thesis using assms(4)
    by (intro that [of w1]) (simp_all add: pd_prepare_sized_def noexcept_def)
qed

lemma pd_write_run:
  assumes h: "handle (view w) pd i off" and ps: "m_page_size pd \<noteq> 0"
    and whole: "unat (m_page_size pd) dvd length (contents (view w) i)"
    and small: "length (contents (view w) i) < 4294967296" and fits: "page_fits pd cur"
    and data: "unat (m_page_size pd) \<le> length data"
  obtains w' where "pd_write P cur data (pd, w) = (Ret (Inr ()), (pd, w'))"
    and "view w' = fs_seek (m_fd pd) i ((unat cur + 1) * unat (m_page_size pd))
      (fs_set i (put_page (unat (m_page_size pd)) (unat cur)
         (take (unat (m_page_size pd)) data) (contents (view w) i)) (view w))"
proof -
  let ?ps = "unat (m_page_size pd)" and ?xs = "contents (view w) i" and ?fd = "m_fd pd"
  let ?bs = "take ?ps data" and ?k = "unat cur"
  obtain w1 where 1: "pd_prepare_rw P cur (pd, w) = (Ret (Inr ()), (pd, w1))"
    and v1: "view w1 = fs_seek ?fd i (?k * ?ps) (fs_set i (grow ?ps ?k ?xs) (view w))"
    using h ps whole small fits by (rule pd_prepare_rw_run)
  have "fds (view w1) ?fd = Some (i, ?k * ?ps)" using v1 by simp
  then obtain w2 where 2: "sys_write P ?fd ?bs w1 = (Inr (length ?bs), w2)"
    and v2: "view w2 = fs_seek ?fd i (?k * ?ps + length ?bs)
      (fs_set i (put_bytes (?k * ?ps) ?bs (contents (view w1) i)) (view w1))" by (rule write_run)
  have "fds (view w2) ?fd = Some (i, ?k * ?ps + length ?bs)" using v2 by simp
  then obtain w3 where 3: "pd_sync P (pd, w2) = (Ret (Inr ()), (pd, w3))" and v3: "view w3 = view w2"
    by (rule pd_sync_run)
  have len: "length ?bs = ?ps" using data by simp
  then have "?bs \<noteq> []" using ps by (metis length_0_conv unat_eq_zero)
  then have put: "put_bytes (?k * ?ps) ?bs (grow ?ps ?k ?xs) = put_page ?ps ?k ?bs ?xs"
    using len by (simp add: put_bytes_def put_page_def grow_def)
  have "pd_write P cur data (pd, w) = (Ret (Inr ()), (pd, w3))"
    using 1 2 3 data len
    by (simp add: pd_write_def mem_read_def run_simps)
  moreover have "view w3 = fs_seek ?fd i ((?k + 1) * ?ps) (fs_set i (put_page ?ps ?k ?bs ?xs) (view w))"
    unfolding v3 v2 v1 using put len by (simp add: fs_defs algebra_simps)
  ultimately show thesis by (rule that)
qed

lemma pd_read_run:
  assumes h: "handle (view w) pd i off" and ps: "m_page_size pd \<noteq> 0"
    and whole: "unat (m_page_size pd) dvd length (contents (view w) i)"
    and small: "length (contents (view w) i) < 4294967296" and fits: "page_fits pd cur"
    and buf: "unat (m_page_size pd) \<le> length buf"
  obtains w' where "pd_read P cur (pd, buf, w) =
      (Ret (Inr ()), (pd, overwrite 0 (get_page (unat (m_page_size pd)) (unat cur)
         (contents (view w) i)) buf, w'))"
    and "view w' = fs_seek (m_fd pd) i ((unat cur + 1) * unat (m_page_size pd))
      (fs_set i (grow (unat (m_page_size pd)) (unat cur) (contents (view w) i)) (view w))"
proof -
  let ?ps = "unat (m_page_size pd)" and ?xs = "contents (view w) i" and ?fd = "m_fd pd"
  let ?k = "unat cur"
  obtain w1 where 1: "pd_prepare_rw P cur (pd, w) = (Ret (Inr ()), (pd, w1))"
    and v1: "view w1 = fs_seek ?fd i (?k * ?ps) (fs_set i (grow ?ps ?k ?xs) (view w))"
    using h ps whole small fits by (rule pd_prepare_rw_run)
  have c1: "contents (view w1) i = grow ?ps ?k ?xs" using v1 by simp
  have "fds (view w1) ?fd = Some (i, ?k * ?ps)" using v1 by simp
  then obtain w2 where 2: "sys_read P ?fd ?ps w1 = (Inr (take ?ps (drop (?k * ?ps) (contents (view w1) i))), w2)"
    and v2: "view w2 = fs_seek ?fd i (?k * ?ps + min ?ps (length (contents (view w1) i) - ?k * ?ps)) (view w1)"
    by (rule read_run)
  have page: "take ?ps (drop (?k * ?ps) (contents (view w1) i)) = get_page ?ps ?k ?xs"
    by (simp add: c1 get_page_def)
  have "pd_read P cur (pd, buf, w) = (Ret (Inr ()), (pd, overwrite 0 (get_page ?ps ?k ?xs) buf, w2))"
    using 1 2 buf unfolding page
    by (simp add: pd_read_def mem_read_def run_simps)
  moreover have "view w2 = fs_seek ?fd i ((?k + 1) * ?ps) (fs_set i (grow ?ps ?k ?xs) (view w))"
    unfolding v2 c1 unfolding v1 by (simp add: fs_defs algebra_simps)
  ultimately show thesis by (rule that)
qed

lemma pd_write_exceeds:
  assumes "handle (view w) pd i off" and "m_page_size pd \<noteq> 0"
    and "unat (m_page_size pd) dvd length (contents (view w) i)"
    and "m_max_disk_size pd \<le> cur * m_page_size pd + m_page_size pd"
  obtains w' where "pd_write P cur data (pd, w) = (Ret (Inl DISK_EXCEEDS_MAX_SIZE), (pd, w'))"
    and "view w' = view w"
proof -
  obtain w1 where 1: "pd_prepare_rw P cur (pd, w) = (Ret (Inl DISK_EXCEEDS_MAX_SIZE), (pd, w1))"
    and v1: "view w1 = view w" using assms by (rule pd_prepare_rw_exceeds)
  from assms v1 have "handle (view w1) pd i off"
    "unat (m_page_size pd) dvd length (contents (view w1) i)" by simp_all
  then obtain w2 where 2: "pd_prepare_rw P cur (pd, w1) = (Ret (Inl DISK_EXCEEDS_MAX_SIZE), (pd, w2))"
    and v2: "view w2 = view w1" using assms(2,4) pd_prepare_rw_exceeds by metis
  show thesis using 1 2 v1 v2
    by (intro that [of w2]) (simp_all add: pd_write_def prop_if_error_error noexcept_def)
qed

lemma pd_read_exceeds:
  assumes "handle (view w) pd i off" and "m_page_size pd \<noteq> 0"
    and "unat (m_page_size pd) dvd length (contents (view w) i)"
    and "m_max_disk_size pd \<le> cur * m_page_size pd + m_page_size pd"
  obtains w' where "pd_read P cur (pd, buf, w) = (Ret (Inl DISK_EXCEEDS_MAX_SIZE), (pd, buf, w'))"
    and "view w' = view w"
proof -
  obtain w1 where 1: "pd_prepare_rw P cur (pd, w) = (Ret (Inl DISK_EXCEEDS_MAX_SIZE), (pd, w1))"
    and v1: "view w1 = view w" using assms by (rule pd_prepare_rw_exceeds)
  from assms v1 have "handle (view w1) pd i off"
    "unat (m_page_size pd) dvd length (contents (view w1) i)" by simp_all
  then obtain w2 where 2: "pd_prepare_rw P cur (pd, w1) = (Ret (Inl DISK_EXCEEDS_MAX_SIZE), (pd, w2))"
    and v2: "view w2 = view w1" using assms(2,4) pd_prepare_rw_exceeds by metis
  have "past_fst (pd_prepare_rw P cur) (pd, buf, w) = (Ret (Inl DISK_EXCEEDS_MAX_SIZE), (pd, buf, w1))"
    "past_fst (pd_prepare_rw P cur) (pd, buf, w1) = (Ret (Inl DISK_EXCEEDS_MAX_SIZE), (pd, buf, w2))"
    using 1 2 by (simp_all add: past_fst_eq)
  then show thesis using v1 v2
    by (intro that [of w2]) (simp_all add: pd_read_def prop_if_error_error noexcept_def)
qed

lemma pd_destroy_run:
  assumes "handle (view w) pd i off"
  obtains w' where "pd_destroy P (pd, w) = (Ret (Inr ()), (pd\<lparr>should_close := False\<rparr>, w'))"
    and "view w' = fs_unlink (m_file_path pd) (view w)"
proof -
  have "names (view w) (m_file_path pd) = Some i" using assms by (simp add: handle_def)
  then obtain w' where "sys_unlink P (m_file_path pd) w = (Inr (), w')"
    and "view w' = fs_unlink (m_file_path pd) (view w)" by (rule unlink_run)
  then show thesis by (intro that [of w']) (simp_all add: pd_destroy_def run_simps)
qed

end

section \<open>Frame: what a method can touch, whatever fails\<close>

text \<open>
  On any system that satisfies \<open>posix_fs\<close>, faults included: a method of the disk of file
  \<open>p\<close> changes no other file, on every outcome.
\<close>

definition guarded :: "fs_view \<Rightarrow> posix_disk \<Rightarrow> bool" where
  "guarded v pd \<longleftrightarrow> no_hard_links v \<and>
     (\<forall>i off q. fds v (m_fd pd) = Some (i, off) \<longrightarrow> names v q = Some i \<longrightarrow> q = m_file_path pd)"

definition others_same :: "string \<Rightarrow> fs_view \<Rightarrow> fs_view \<Rightarrow> bool" where
  "others_same p v v' \<longleftrightarrow> (\<forall>q. q \<noteq> p \<longrightarrow> file_at v' q = file_at v q)"

definition world_frame :: "('w \<Rightarrow> fs_view) \<Rightarrow> string \<Rightarrow> 'w \<Rightarrow> 'w \<Rightarrow> bool" where
  "world_frame vw p w w' \<longleftrightarrow>
     (no_hard_links (vw w) \<longrightarrow> no_hard_links (vw w') \<and> others_same p (vw w) (vw w'))"

definition disk_frame ::
    "('e \<Rightarrow> fs_view) \<Rightarrow> string \<Rightarrow> posix_disk \<times> 'e \<Rightarrow> posix_disk \<times> 'e \<Rightarrow> bool" where
  "disk_frame vw p s s' \<longleftrightarrow>
     (case (s, s') of ((pd, w), (pd', w')) \<Rightarrow>
        m_file_path pd = p \<longrightarrow> guarded (vw w) pd \<longrightarrow>
          m_file_path pd' = p \<and> guarded (vw w') pd' \<and> others_same p (vw w) (vw w'))"

lemma others_same_refl [simp]: "others_same p v v"
  by (simp add: others_same_def)

lemma others_same_trans: "others_same p u v \<Longrightarrow> others_same p v w \<Longrightarrow> others_same p u w"
  by (simp add: others_same_def)

lemma world_frame_refl [simp]: "reflp (world_frame vw p)"
  by (simp add: reflp_def world_frame_def)

lemma world_frame_trans [simp]: "transp (world_frame vw p)"
  by (auto simp: transp_def world_frame_def intro: others_same_trans)

lemma disk_frame_refl [simp]: "reflp (disk_frame vw p)"
  by (simp add: reflp_def disk_frame_def)

lemma disk_frame_trans [simp]: "transp (disk_frame vw p)"
  by (auto simp: transp_def disk_frame_def intro: others_same_trans)

lemma no_hard_links_create:
  "no_hard_links v \<Longrightarrow> fresh_inode v i \<Longrightarrow> no_hard_links (fs_create p i v)"
  by (auto simp: no_hard_links_def fresh_inode_def)

lemma guarded_simps [simp]:
  "guarded (fs_set i xs v) pd = guarded v pd"
  "fds v (m_fd pd) = Some (i, off) \<Longrightarrow> guarded (fs_seek (m_fd pd) i pos v) pd = guarded v pd"
  "guarded v (pd\<lparr>should_close := b\<rparr>) = guarded v pd"
  by (auto simp: guarded_def no_hard_links_def)

lemma guarded_shrink:
  "guarded v pd \<Longrightarrow> guarded (fs_close fd v) pd"
  "guarded v pd \<Longrightarrow> guarded (fs_unlink q v) pd"
  by (auto simp: guarded_def no_hard_links_def split: if_splits)

lemma others_same_set:
  assumes "\<And>q. names v q = Some i \<Longrightarrow> q = p"
  shows "others_same p v (fs_set i xs v)"
  unfolding others_same_def
proof (intro allI impI)
  fix q
  assume "q \<noteq> p"
  then have "names v q \<noteq> Some i" using assms by blast
  then show "file_at (fs_set i xs v) q = file_at v q"
    by (cases "names v q") (auto simp: file_at_def)
qed

lemma others_same_views [simp]:
  "others_same p v (fs_seek fd i pos v)" "others_same p v (fs_close fd v)"
  "others_same p v (fs_unlink p v)" "others_same p v (fs_open i fd v)"
  by (simp_all add: others_same_def file_at_def)

lemma guarded_set_seek:
  assumes "guarded v pd" and "fds v (m_fd pd) = Some (i, off)"
  shows "guarded (fs_seek (m_fd pd) i pos (fs_set i xs v)) pd"
    and "others_same (m_file_path pd) v (fs_seek (m_fd pd) i pos (fs_set i xs v))"
proof -
  show "guarded (fs_seek (m_fd pd) i pos (fs_set i xs v)) pd" using assms by simp
  have "others_same (m_file_path pd) v (fs_set i xs v)"
    using assms by (intro others_same_set) (auto simp: guarded_def)
  then show "others_same (m_file_path pd) v (fs_seek (m_fd pd) i pos (fs_set i xs v))"
    by (rule others_same_trans) simp
qed

lemma keeps_at_call:
  assumes "\<And>x w'. f w = (Inl x, w') \<Longrightarrow> guarded (vw w) pd
      \<Longrightarrow> guarded (vw w') pd \<and> others_same (m_file_path pd) (vw w) (vw w')"
    and "\<And>x w'. f w = (Inr x, w') \<Longrightarrow> guarded (vw w) pd
      \<Longrightarrow> guarded (vw w') pd \<and> others_same (m_file_path pd) (vw w) (vw w')"
  shows "keeps_at (disk_frame vw p) (on_snd (posix_call f)) (pd, w)"
proof (cases "f w")
  case (Pair r w')
  then show ?thesis using assms
    by (cases r) (auto simp: keeps_at_def disk_frame_def run_simps)
qed

lemma frame_past_fst:
  "keeps (disk_frame vw p) m \<Longrightarrow> keeps (disk_frame (vw \<circ> snd) p) (past_fst m)"
  by (rule keepsI) (fastforce simp: past_fst_iff disk_frame_def dest: keepsD)

lemma frame_on_snd:
  "keeps_at (disk_frame vw p) (on_snd m) (pd, w)
    \<Longrightarrow> keeps_at (disk_frame (vw \<circ> snd) p) (on_snd (on_snd m)) (pd, buf, w)"
  by (auto simp: keeps_at_def disk_frame_def run_simps split: prod.splits)

context posix_fs begin

lemma frame_write: "keeps_at (disk_frame view p) (on_snd (posix_call (sys_write P (m_fd pd) bs))) (pd, w)"
  by (rule keeps_at_call; drule write_law) (auto simp: guarded_set_seek split: option.splits)

lemma frame_read: "keeps_at (disk_frame view p) (on_snd (posix_call (sys_read P (m_fd pd) n))) (pd, w)"
  by (rule keeps_at_call; drule read_law) (auto split: option.splits)

lemma frame_lseek: "keeps_at (disk_frame view p) (on_snd (posix_call (sys_lseek P (m_fd pd) n))) (pd, w)"
  by (rule keeps_at_call; drule lseek_law) (auto split: option.splits)

lemma frame_fsync: "keeps_at (disk_frame view p) (on_snd (posix_call (sys_fsync P fd))) (pd, w)"
  by (rule keeps_at_call; drule fsync_law) (auto)

lemma frame_stat: "keeps_at (disk_frame view p) (on_snd (posix_call (sys_stat P q))) (pd, w)"
  by (rule keeps_at_call; drule stat_law) (auto)

lemma frame_truncate: "keeps_at (disk_frame view p) (on_snd (posix_call (sys_truncate P (m_file_path pd) n))) (pd, w)"
  by (rule keeps_at_call; drule truncate_law) (auto simp: guarded_def no_hard_links_def
      intro!: others_same_set split: option.splits)

lemma frame_unlink: "keeps_at (disk_frame view p) (on_snd (posix_call (sys_unlink P (m_file_path pd)))) (pd, w)"
  by (rule keeps_at_call; drule unlink_law) (auto simp: guarded_shrink)

lemma frame_close: "keeps_at (disk_frame view p) (on_snd (posix_call (sys_close P fd))) (pd, w)"
  by (rule keeps_at_call; drule close_law) (auto simp: guarded_shrink)

lemmas frame_calls = frame_write frame_read frame_lseek frame_fsync frame_stat frame_truncate
  frame_unlink frame_close

lemmas frame_intros = keeps_at_bindc frame_calls disk_frame_trans disk_frame_refl

lemma frame_pd_sync: "keeps (disk_frame view p) (pd_sync P)"
  unfolding pd_sync_def
  by (rule keeps_noexcept, rule keeps_by_pair) (auto intro!: frame_intros split: sum.splits)

lemma frame_pd_get_disk_byte_size: "keeps (disk_frame view p) (pd_get_disk_byte_size P)"
  unfolding pd_get_disk_byte_size_def
  by (rule keeps_noexcept, rule keeps_by_pair) (auto intro!: frame_intros split: sum.splits)

lemma frame_pd_truncate: "keeps (disk_frame view p) (pd_truncate P n)"
  unfolding pd_truncate_def
  by (rule keeps_noexcept, rule keeps_by_pair)
    (auto intro!: frame_intros keeps_at_keeps [OF keeps_prop_if_error] frame_pd_sync keeps_retc
      split: sum.splits)

lemma frame_pd_seek: "keeps (disk_frame view p) (pd_seek P pos)"
  unfolding pd_seek_def
  by (rule keeps_noexcept, rule keeps_by_pair) (auto intro!: frame_intros simp: Let_def)

lemma frame_pd_close: "keeps (disk_frame view p) (pd_close P)"
proof -
  have "keeps_at (disk_frame view p) (modc (apfst (\<lambda>pd. pd\<lparr>should_close := False\<rparr>))) (pd, w)" for pd w
    by (simp add: keeps_at_def disk_frame_def)
  then show ?thesis
    unfolding pd_close_def
    by (intro keeps_noexcept keeps_by_pair) (auto intro!: frame_intros split: sum.splits)
qed

lemma frame_pd_destroy: "keeps (disk_frame view p) (pd_destroy P)"
proof -
  have "keeps_at (disk_frame view p) (modc (apfst (\<lambda>pd. pd\<lparr>should_close := False\<rparr>))) s" for s
    by (cases s) (simp add: keeps_at_def disk_frame_def)
  then show ?thesis
    unfolding pd_destroy_def
    by (intro keeps_noexcept keeps_by_pair) (auto intro!: frame_intros split: sum.splits)
qed

lemma frame_pd_destructor: "keeps (disk_frame view p) (pd_destructor P)"
  unfolding pd_destructor_def
  by (rule keeps_noexcept, rule keeps_by_pair)
    (auto intro!: frame_intros keeps_at_keeps [OF frame_pd_close])

lemma frame_pd_prepare_rw: "keeps (disk_frame view p) (pd_prepare_rw P cur)"
proof -
  have grow: "keeps (disk_frame view p) (pd_grow_to P m n)" for m n
    unfolding pd_grow_to_def by (auto intro!: keeps_bindc keeps_retc frame_pd_truncate)
  have "keeps (disk_frame view p) (pd_prepare_sized P cur n)" for n
    unfolding pd_prepare_sized_def Let_def
    by (auto intro!: keeps_bindc keeps_getc keeps_retc keeps_prop_if_error grow frame_pd_seek)
  then show ?thesis
    unfolding pd_prepare_rw_def
    by (intro keeps_noexcept keeps_unwrap_or_prop_error frame_pd_get_disk_byte_size) simp_all
qed

lemma frame_pd_write: "keeps (disk_frame view p) (pd_write P cur data)"
  unfolding pd_write_def
  by (intro keeps_noexcept keeps_prop_if_error disk_frame_refl disk_frame_trans frame_pd_prepare_rw
      keeps_by_pair)
    (auto intro!: frame_intros keeps_at_keeps [OF keeps_prop_if_error] frame_pd_sync keeps_retc
      simp: Let_def)

lemma frame_pd_read: "keeps (disk_frame (view \<circ> snd) p) (pd_read P cur)"
proof -
  have buf: "keeps_at (disk_frame (view \<circ> snd) p) (modc (apsnd (apfst g))) s" for g s
    by (cases s) (simp add: keeps_at_def disk_frame_def)
  have "keeps_at (disk_frame (view \<circ> snd) p)
      (on_snd (on_snd (posix_call (sys_read P (m_fd pd) n)))) (pd, buf, w)" for pd n buf w
    by (intro frame_on_snd frame_read)
  then have "keeps (disk_frame (view \<circ> snd) p) (
     bindc (getc fst) (\<lambda>pd.
     bindc (getc (fst \<circ> snd)) (\<lambda>buf.
     bindc (liftc (mem_read buf 0 (unat (m_page_size pd)))) (\<lambda>_.
     bindc (on_snd (on_snd (posix_call (sys_read P (m_fd pd) (unat (m_page_size pd)))))) (\<lambda>res.
     bindc (modc (apsnd (apfst (\<lambda>buf. case res of Inl _ \<Rightarrow> buf | Inr bs \<Rightarrow> overwrite 0 bs buf)))) (\<lambda>_.
       let num_bytes = (case res of Inl _ \<Rightarrow> - 1 | Inr bs \<Rightarrow> of_nat (length bs)) :: uint in
       if num_bytes \<noteq> m_page_size pd then retc (Inl READ_DISK_ERROR)
       else retc (Inr ())))))) :: (posix_disk \<times> byte list \<times> 'w, (unit, DiskManagerErrorCode) result) cpp)"
    by (intro keeps_by_state) (auto simp: Let_def split_paired_all simp del: bindc_prim
        intro!: keeps_at_bindc buf disk_frame_trans disk_frame_refl split: prod.splits)
  then show ?thesis
    unfolding pd_read_def
    by (intro keeps_noexcept keeps_prop_if_error disk_frame_refl disk_frame_trans
        frame_past_fst frame_pd_prepare_rw)
qed

end

end
