(* ===== verification/Posix_Disk_Manager.thy ===== *)
theory Posix_Disk_Manager
  imports Posix_Disk
begin

text \<open>
  \<open>disk_manager/src/disk_manager.h\<close>, \<open>impl/posix_disk_manager.h\<close> and
  \<open>impl/posix_disk_manager.cpp\<close>: the table of loaded disks.  A method runs on the manager
  and an environment, \<open>pdm \<times> 'e\<close>; the environment is the operating system's world, with
  the caller's buffer before it in \<open>read\<close>.  Every call opens the disk's file anew and
  closes it when the local \<open>PosixDisk\<close> goes out of scope.
\<close>

section \<open>The class\<close>

text \<open>The base class \<open>DiskManager\<close>: its members, its constructor and its getters.\<close>

record disk_manager =
  dir_path :: string
  dm_page_size :: uint
  max_disk_byte_size :: uint

definition disk_suffix :: string where
  "disk_suffix = ''.disk''"

definition disk_manager_new :: "string \<Rightarrow> uint \<Rightarrow> uint \<Rightarrow> disk_manager" where
  "disk_manager_new dir page_size max_size =
     \<lparr>dir_path = dir, dm_page_size = page_size, max_disk_byte_size = max_size\<rparr>"

definition get_dir_path :: "'m disk_manager_scheme \<Rightarrow> string" where
  "get_dir_path m = dir_path m"

definition get_disk_suffix :: string where
  "get_disk_suffix = disk_suffix"

definition get_page_size :: "'m disk_manager_scheme \<Rightarrow> uint" where
  "get_page_size m = dm_page_size m"

definition get_max_disk_byte_size :: "'m disk_manager_scheme \<Rightarrow> uint" where
  "get_max_disk_byte_size m = max_disk_byte_size m"

lemmas disk_manager_getters [simp] = get_dir_path_def get_disk_suffix_def get_page_size_def
  get_max_disk_byte_size_def

text \<open>\<open>PosixDiskManager\<close> adds the table and the next id.\<close>

record pdm = disk_manager +
  cur_disk_id :: disk_id
  disks :: "(disk_id \<times> disk_name) list"

definition pdm_new :: "string \<Rightarrow> uint \<Rightarrow> uint \<Rightarrow> pdm" where
  "pdm_new dir page_size max_disk_size =
     disk_manager.extend (disk_manager_new dir page_size max_disk_size) \<lparr>cur_disk_id = 0, disks = []\<rparr>"

lemma pdm_new_eq:
  "pdm_new dir page_size max_size =
    \<lparr>dir_path = dir, dm_page_size = page_size, max_disk_byte_size = max_size, cur_disk_id = 0, disks = []\<rparr>"
  by (simp add: pdm_new_def disk_manager_new_def disk_manager.defs)

definition get_disk_full_name :: "string \<Rightarrow> string" where
  "get_disk_full_name disk_name_prefix = disk_name_prefix @ get_disk_suffix"

definition path_of_file :: "pdm \<Rightarrow> string \<Rightarrow> string" where
  \<comment> \<open>\<open>get_disk_path(const std::string&)\<close>\<close>
  "path_of_file m file_name = get_dir_path m @ ''/'' @ file_name"

definition loaded_disk_name :: "disk_id \<Rightarrow> (pdm \<times> 'e, (disk_name, DiskManagerErrorCode) result) cpp" where
  "loaded_disk_name disk_id = noexcept (
     bindc (getc (disks \<circ> fst)) (\<lambda>ds.
       case map_of ds disk_id of
         None \<Rightarrow> retc (Inl DISK_NOT_FOUND)
       | Some disk_name \<Rightarrow> retc (Inr disk_name)))"

definition get_disk_path :: "disk_id \<Rightarrow> (pdm \<times> 'e, (string, DiskManagerErrorCode) result) cpp" where
  \<comment> \<open>\<open>get_disk_path(DiskId)\<close>\<close>
  "get_disk_path disk_id =
     unwrap_or_prop_error dm_what (loaded_disk_name disk_id) (\<lambda>res.
       bindc (getc fst) (\<lambda>m. retc (Inr (path_of_file m res))))"

definition num_loaded_disks :: "(pdm \<times> 'e, (uint, DiskManagerErrorCode) result) cpp" where
  "num_loaded_disks = noexcept (bindc (getc (disks \<circ> fst)) (\<lambda>ds. retc (Inr (of_nat (length ds)))))"

definition is_loaded :: "disk_id \<Rightarrow> (pdm \<times> 'e, (bool, DiskManagerErrorCode) result) cpp" where
  "is_loaded disk_id = noexcept (
     bindc (getc (disks \<circ> fst)) (\<lambda>ds. retc (Inr (map_of ds disk_id \<noteq> None))))"

definition unload :: "disk_id \<Rightarrow> (pdm \<times> 'e, (unit, DiskManagerErrorCode) result) cpp" where
  "unload disk_id = noexcept (
     bindc (getc (disks \<circ> fst)) (\<lambda>ds.
       if map_of ds disk_id = None then retc (Inl DISK_NOT_FOUND)
       else bindc (modc (apfst (\<lambda>m. m\<lparr>disks := AList.delete disk_id (disks m)\<rparr>))) (\<lambda>_.
              retc (Inr ()))))"

definition pdm_exists :: "'w posix \<Rightarrow> string \<Rightarrow> (pdm \<times> 'w, (bool, DiskManagerErrorCode) result) cpp" where
  "pdm_exists P disk_name_prefix = noexcept (
     bindc (getc fst) (\<lambda>m. on_snd (pd_exists P (path_of_file m (get_disk_full_name disk_name_prefix)))))"

definition register_disk :: "string \<Rightarrow> (pdm \<times> 'e, (disk_id, DiskManagerErrorCode) result) cpp" where
  \<comment> \<open>the end of \<open>load\<close>: \<open>disks[ret] = ...; cur_disk_id++; return ret;\<close>\<close>
  "register_disk disk_name_prefix =
     bindc (getc (cur_disk_id \<circ> fst)) (\<lambda>ret.
     bindc (modc (apfst (\<lambda>m. m\<lparr>disks := AList.update ret (get_disk_full_name disk_name_prefix) (disks m)\<rparr>))) (\<lambda>_.
     if unat ret = INT_MAX then liftc (Fault (Undefined Signed_Overflow))
     else bindc (modc (apfst (\<lambda>m. m\<lparr>cur_disk_id := cur_disk_id m + 1\<rparr>))) (\<lambda>_. retc (Inr ret))))"

definition load :: "'w posix \<Rightarrow> string \<Rightarrow> (pdm \<times> 'w, (disk_id, DiskManagerErrorCode) result) cpp" where
  "load P disk_name_prefix = noexcept (
     bindc (getc fst) (\<lambda>m.
     bindc (on_snd (pd_init P (path_of_file m (get_disk_full_name disk_name_prefix)) True
                      (get_page_size m) (get_max_disk_byte_size m))) (\<lambda>posix_disk_res.
       case posix_disk_res of
         Inl e \<Rightarrow> retc (Inl e)
       | Inr pd \<Rightarrow>
           in_scope (past_fst (pd_destructor P)) pd (on_snd (register_disk disk_name_prefix)))))"

definition create_file :: "'w posix \<Rightarrow> string \<Rightarrow> (pdm \<times> 'w, (unit, DiskManagerErrorCode) result) cpp" where
  \<comment> \<open>the argument of \<open>PROP_IF_ERROR\<close> in \<open>create\<close>: a temporary, closed at the end of the
     expression\<close>
  "create_file P disk_name_prefix =
     bindc (getc fst) (\<lambda>m.
     bindc (on_snd (pd_init P (path_of_file m (get_disk_full_name disk_name_prefix)) False
                      (get_page_size m) (get_max_disk_byte_size m))) (\<lambda>res.
       case res of
         Inl e \<Rightarrow> retc (Inl e)
       | Inr pd \<Rightarrow> in_scope (past_fst (pd_destructor P)) pd (retc (Inr ()))))"

definition create :: "'w posix \<Rightarrow> string \<Rightarrow> (pdm \<times> 'w, (disk_id, DiskManagerErrorCode) result) cpp" where
  "create P disk_name_prefix = noexcept (
     prop_if_error (create_file P disk_name_prefix) (load P disk_name_prefix))"

definition with_disk ::
    "(string \<Rightarrow> pdm \<Rightarrow> ('e, (posix_disk, DiskManagerErrorCode) result) cpp)
      \<Rightarrow> (posix_disk \<times> 'e, unit) cpp \<Rightarrow> disk_id
      \<Rightarrow> (posix_disk \<times> pdm \<times> 'e, ('r, DiskManagerErrorCode) result) cpp
      \<Rightarrow> (pdm \<times> 'e, ('r, DiskManagerErrorCode) result) cpp" where
  \<comment> \<open>the opening lines of \<open>destroy\<close>, \<open>write\<close>, \<open>read\<close> and \<open>disk_byte_size\<close>\<close>
  "with_disk init dtor disk_id body =
     unwrap_or_prop_error dm_what (get_disk_path disk_id) (\<lambda>path.
     bindc (getc fst) (\<lambda>m.
     bindc (on_snd (init path m)) (\<lambda>posix_disk_res.
       case posix_disk_res of
         Inl e \<Rightarrow> retc (Inl e)
       | Inr pd \<Rightarrow> in_scope (past_fst dtor) pd body)))"

definition init_for :: "'w posix \<Rightarrow> string \<Rightarrow> pdm \<Rightarrow> ('w, (posix_disk, DiskManagerErrorCode) result) cpp" where
  \<comment> \<open>\<open>PosixDisk::init(path, true, get_page_size(), get_max_disk_byte_size())\<close>\<close>
  "init_for P path m = pd_init P path True (get_page_size m) (get_max_disk_byte_size m)"

definition destroy :: "'w posix \<Rightarrow> disk_id \<Rightarrow> (pdm \<times> 'w, (unit, DiskManagerErrorCode) result) cpp" where
  "destroy P disk_id = noexcept (
     with_disk (init_for P) (pd_destructor P) disk_id (
       prop_if_error (past_fst (pd_destroy P)) (
       prop_if_error (on_snd (unload disk_id)) (
       retc (Inr ())))))"

definition pdm_write ::
    "'w posix \<Rightarrow> disk_id \<Rightarrow> disk_page_cursor \<Rightarrow> byte list \<Rightarrow> (pdm \<times> 'w, (unit, DiskManagerErrorCode) result) cpp" where
  "pdm_write P disk_id disk_page_cursor bytes = noexcept (
     with_disk (init_for P) (pd_destructor P) disk_id (
       prop_if_error (past_fst (pd_write P disk_page_cursor bytes)) (retc (Inr ()))))"

definition pdm_read ::
    "'w posix \<Rightarrow> disk_id \<Rightarrow> disk_page_cursor \<Rightarrow> (pdm \<times> byte list \<times> 'w, (unit, DiskManagerErrorCode) result) cpp" where
  "pdm_read P disk_id disk_page_cursor = noexcept (
     with_disk (\<lambda>path m. on_snd (init_for P path m)) (past_fst (pd_destructor P)) disk_id (
       prop_if_error (past_fst (pd_read P disk_page_cursor)) (retc (Inr ()))))"

definition disk_byte_size :: "'w posix \<Rightarrow> disk_id \<Rightarrow> (pdm \<times> 'w, (uint, DiskManagerErrorCode) result) cpp" where
  "disk_byte_size P disk_id = noexcept (
     with_disk (init_for P) (pd_destructor P) disk_id (past_fst (pd_get_disk_byte_size P)))"

definition extend :: "'w posix \<Rightarrow> disk_id \<Rightarrow> (pdm \<times> 'w, (disk_page_cursor, DiskManagerErrorCode) result) cpp" where
  "extend P disk_id = noexcept (
     unwrap_or_prop_error dm_what (disk_byte_size P disk_id) (\<lambda>byte_size.
     bindc (getc fst) (\<lambda>m.
       if get_page_size m = 0 then liftc (Fault (Undefined Division_By_Zero))
       else bindc (liftc (oassert (byte_size mod get_page_size m = 0))) (\<lambda>_.
         if get_max_disk_byte_size m < byte_size then retc (Inl DISK_EXCEEDS_MAX_SIZE)
         else retc (Inr (byte_size div get_page_size m + 1))))))"

definition print_disk :: "disk_id \<times> disk_name \<Rightarrow> string" where
  "print_disk d = ''(disk_id, disk_name) = ('' @ show_int (sint (fst d)) @ '', '' @ snd d @ '')''"

fun print_disks :: "(disk_id \<times> disk_name) list \<Rightarrow> string" where
  "print_disks [] = []"
| "print_disks [d] = print_disk d"
| "print_disks (d # ds) = print_disk d @ CHR 0x0A # print_disks ds"

definition print_pdm :: "pdm \<Rightarrow> string" where
  \<comment> \<open>\<open>operator<<\<close>; the order of \<open>disks\<close> stands for the iteration order of the map\<close>
  "print_pdm m =
     ''total loaded disks: '' @ show_nat (length (disks m))
       @ (if length (disks m) > 0 then [CHR 0x0A] else []) @ print_disks (disks m)"

section \<open>The table of loaded disks\<close>

definition disk_path :: "pdm \<Rightarrow> disk_id \<Rightarrow> string option" where
  "disk_path m disk_id = map_option (path_of_file m) (map_of (disks m) disk_id)"

lemma loaded_disk_name_run:
  "loaded_disk_name disk_id (m, e) =
    (Ret (case map_of (disks m) disk_id of None \<Rightarrow> Inl DISK_NOT_FOUND | Some n \<Rightarrow> Inr n), (m, e))"
  by (simp add: loaded_disk_name_def noexcept_def split: option.split)

lemma get_disk_path_run:
  "get_disk_path disk_id (m, e) =
    (Ret (case disk_path m disk_id of None \<Rightarrow> Inl DISK_NOT_FOUND | Some p \<Rightarrow> Inr p), (m, e))"
  by (cases "map_of (disks m) disk_id")
    (simp_all add: get_disk_path_def disk_path_def loaded_disk_name_run unwrap_or_prop_error_def bindc_def)

lemma is_loaded_run: "is_loaded disk_id (m, e) = (Ret (Inr (map_of (disks m) disk_id \<noteq> None)), (m, e))"
  by (simp add: is_loaded_def noexcept_def)

lemma unload_run:
  "unload disk_id (m, e) =
    (if map_of (disks m) disk_id = None then (Ret (Inl DISK_NOT_FOUND), (m, e))
     else (Ret (Inr ()), (m\<lparr>disks := AList.delete disk_id (disks m)\<rparr>, e)))"
  by (simp add: unload_def noexcept_def)

lemma register_disk_run:
  "unat (cur_disk_id m) \<noteq> INT_MAX \<Longrightarrow>
   register_disk nm (m, e) =
     (Ret (Inr (cur_disk_id m)),
      (m\<lparr>disks := AList.update (cur_disk_id m) (get_disk_full_name nm) (disks m),
         cur_disk_id := cur_disk_id m + 1\<rparr>, e))"
  by (simp add: register_disk_def)

lemma with_disk_unloaded:
  "disk_path m disk_id = None \<Longrightarrow>
    with_disk init dtor disk_id body (m, e) = (Ret (Inl DISK_NOT_FOUND), (m, e))"
  by (simp add: with_disk_def get_disk_path_run unwrap_or_prop_error_def bindc_def)

lemma with_disk_loaded:
  assumes "disk_path m disk_id = Some p"
  shows "with_disk init dtor disk_id body (m, e) =
    bindc (on_snd (init p m)) (\<lambda>res. case res of
        Inl e \<Rightarrow> retc (Inl e)
      | Inr pd \<Rightarrow> in_scope (past_fst dtor) pd body) (m, e)"
  using assms by (simp add: with_disk_def get_disk_path_run unwrap_or_prop_error_def bindc_def)

section \<open>Methods on a reliable system\<close>

definition loaded_file :: "pdm \<Rightarrow> fs_view \<Rightarrow> disk_id \<Rightarrow> nat \<Rightarrow> bool" where
  \<comment> \<open>the disk is loaded and its file is the inode \<open>i\<close>, of whole pages and less than 4 GB\<close>
  "loaded_file m v disk_id i \<longleftrightarrow>
     dm_page_size m \<noteq> 0 \<and> unat (dm_page_size m) dvd length (contents v i)
     \<and> length (contents v i) < 4294967296
     \<and> (\<exists>p. disk_path m disk_id = Some p \<and> names v p = Some i)"

definition fits :: "pdm \<Rightarrow> disk_page_cursor \<Rightarrow> bool" where
  "fits m cur \<longleftrightarrow>
     unat cur * unat (dm_page_size m) + unat (dm_page_size m) < unat (max_disk_byte_size m)"

definition exceeds :: "pdm \<Rightarrow> disk_page_cursor \<Rightarrow> bool" where
  \<comment> \<open>the guard of \<open>prepare_rw\<close>, on the wrapped 32-bit values\<close>
  "exceeds m cur \<longleftrightarrow> max_disk_byte_size m \<le> cur * dm_page_size m + dm_page_size m"

lemma fs_close_opened:
  "fds v fd = None \<Longrightarrow> fs_close fd (fs_seek fd i off (fs_set j xs v)) = fs_set j xs v"
  by (simp add: fs_defs fun_upd_idem)

lemma fs_open_as_seek: "fs_open i fd v = fs_seek fd i 0 (fs_set i (contents v i) v)"
  by (simp add: fs_defs)

context posix_reliable begin

lemma init_for_run:
  assumes "names (view w) p = Some i"
  obtains w1 pd where "init_for P p m w = (Ret (Inr pd), w1)"
    and "pd = posix_disk_new p (m_fd pd) (dm_page_size m) (max_disk_byte_size m)"
    and "handle (view w1) pd i 0" and "view w1 = fs_open i (m_fd pd) (view w)"
    and "fds (view w) (m_fd pd) = None"
proof -
  obtain w1 fd where "pd_init P p True (dm_page_size m) (max_disk_byte_size m) w =
      (Ret (Inr (posix_disk_new p fd (dm_page_size m) (max_disk_byte_size m))), w1)"
    and "view w1 = fs_open i fd (view w)" "fds (view w) fd = None" "0 \<le> fd"
    using assms by (rule pd_init_existing)
  then show thesis using assms
    by (intro that [of "posix_disk_new p fd (dm_page_size m) (max_disk_byte_size m)" w1])
      (simp_all add: init_for_def posix_disk_new_def handle_def)
qed

lemma scope_close:
  assumes "body (pd, m, w1) = (Ret r, (pd', m', w2))"
    and "m_fd pd' = fd" and "should_close pd'" and "0 \<le> fd"
    and "view w2 = fs_seek fd i off v'" and "fds v' fd = None"
  obtains w3 where "in_scope (past_fst (pd_destructor P)) pd body (m, w1) = (Ret r, (m', w3))"
    and "view w3 = v'"
proof -
  have "fds (view w2) (m_fd pd') = Some (i, off)" "0 \<le> m_fd pd'" using assms by simp_all
  then obtain w3 where 3: "pd_destructor P (pd', w2) = (Ret (), pd'\<lparr>should_close := False\<rparr>, w3)"
    and v3: "view w3 = fs_close (m_fd pd') (view w2)" using assms(3) by (rule pd_destructor_run)
  have "view w3 = v'"
    using v3 assms(2,5,6) by (simp add: fs_defs fun_upd_idem)
  moreover have "past_fst (pd_destructor P) (pd', m', w2) = (Ret (), (pd'\<lparr>should_close := False\<rparr>, m', w3))"
    using 3 by (rule past_fst_eq)
  with assms(1) have "in_scope (past_fst (pd_destructor P)) pd body (m, w1) = (Ret r, (m', w3))"
    by (rule in_scope_eq)
  ultimately show thesis by (intro that [of w3])
qed

lemma with_disk_run:
  assumes p: "disk_path m disk_id = Some p" and i: "names (view w) p = Some i"
    and body: "\<And>pd w1. pd = posix_disk_new p (m_fd pd) (dm_page_size m) (max_disk_byte_size m)
      \<Longrightarrow> handle (view w1) pd i 0 \<Longrightarrow> view w1 = fs_open i (m_fd pd) (view w)
      \<Longrightarrow> \<exists>off w2. body (pd, m, w1) = (Ret r, (pd, m, w2))
            \<and> view w2 = fs_seek (m_fd pd) i off (fs_set i xs (view w))"
  obtains w' where "with_disk (init_for P) (pd_destructor P) disk_id body (m, w) = (Ret r, (m, w'))"
    and "view w' = fs_set i xs (view w)"
proof -
  obtain w1 pd where 1: "init_for P p m w = (Ret (Inr pd), w1)"
    and pd: "pd = posix_disk_new p (m_fd pd) (dm_page_size m) (max_disk_byte_size m)"
    and h: "handle (view w1) pd i 0" and v1: "view w1 = fs_open i (m_fd pd) (view w)"
    and new: "fds (view w) (m_fd pd) = None" using i by (rule init_for_run)
  obtain off w2 where 2: "body (pd, m, w1) = (Ret r, (pd, m, w2))"
    and v2: "view w2 = fs_seek (m_fd pd) i off (fs_set i xs (view w))"
    using body [OF pd h v1] by blast
  have sc: "should_close pd" by (subst pd) (simp add: posix_disk_new_def)
  have fd: "0 \<le> m_fd pd" using h by (simp add: handle_def)
  have "fds (fs_set i xs (view w)) (m_fd pd) = None" using new by simp
  with 2 refl sc fd v2 obtain w3 where
    3: "in_scope (past_fst (pd_destructor P)) pd body (m, w1) = (Ret r, (m, w3))"
    and "view w3 = fs_set i xs (view w)" by (rule scope_close)
  moreover have "with_disk (init_for P) (pd_destructor P) disk_id body (m, w) = (Ret r, (m, w3))"
    using 1 3 by (simp add: with_disk_loaded [OF p] bindc_def on_snd_eq)
  ultimately show thesis by (intro that)
qed

lemma pdm_write_run:
  assumes lf: "loaded_file m (view w) disk_id i" and fit: "fits m cur"
    and data: "unat (dm_page_size m) \<le> length bytes"
  obtains w' where "pdm_write P disk_id cur bytes (m, w) = (Ret (Inr ()), (m, w'))"
    and "view w' = fs_set i (put_page (unat (dm_page_size m)) (unat cur)
      (take (unat (dm_page_size m)) bytes) (contents (view w) i)) (view w)"
proof -
  let ?ps = "unat (dm_page_size m)" and ?xs = "contents (view w) i"
  let ?body = "prop_if_error (past_fst (pd_write P cur bytes)) (retc (Inr ()))
    :: (posix_disk \<times> pdm \<times> 'a, (unit, DiskManagerErrorCode) result) cpp"
  obtain p where p: "disk_path m disk_id = Some p" "names (view w) p = Some i"
    using lf by (auto simp: loaded_file_def)
  have body: "\<exists>off w2. ?body (pd, m, w1) = (Ret (Inr ()), (pd, m, w2))
      \<and> view w2 = fs_seek (m_fd pd) i off (fs_set i (put_page ?ps (unat cur) (take ?ps bytes) ?xs) (view w))"
    if pd: "pd = posix_disk_new p (m_fd pd) (dm_page_size m) (max_disk_byte_size m)"
      and h: "handle (view w1) pd i 0" and v1: "view w1 = fs_open i (m_fd pd) (view w)" for pd w1
  proof -
    have sel: "m_page_size pd = dm_page_size m" "m_max_disk_size pd = max_disk_byte_size m"
      by (subst pd, simp add: posix_disk_new_def)+
    have "contents (view w1) i = ?xs" using v1 by simp
    then obtain w2 where 2: "pd_write P cur bytes (pd, w1) = (Ret (Inr ()), (pd, w2))"
      and v2: "view w2 = fs_seek (m_fd pd) i ((unat cur + 1) * ?ps)
        (fs_set i (put_page ?ps (unat cur) (take ?ps bytes) ?xs) (view w1))"
      using pd_write_run [OF h, of cur bytes] lf fit data
      by (auto simp: sel page_fits_def fits_def loaded_file_def)
    have "?body (pd, m, w1) = (Ret (Inr ()), (pd, m, w2))"
      using 2 by (simp add: prop_if_error_value past_fst_eq)
    moreover have "view w2 = fs_seek (m_fd pd) i ((unat cur + 1) * ?ps)
        (fs_set i (put_page ?ps (unat cur) (take ?ps bytes) ?xs) (view w))"
      using v2 v1 by (simp add: fs_defs)
    ultimately show ?thesis by blast
  qed
  from p body obtain w' where
    "with_disk (init_for P) (pd_destructor P) disk_id ?body (m, w) = (Ret (Inr ()), (m, w'))"
    and "view w' = fs_set i (put_page ?ps (unat cur) (take ?ps bytes) ?xs) (view w)"
    by (rule with_disk_run)
  then show thesis by (intro that [of w']) (simp_all add: pdm_write_def noexcept_def)
qed

lemma pdm_write_exceeds:
  assumes lf: "loaded_file m (view w) disk_id i" and ex: "exceeds m cur"
  obtains w' where "pdm_write P disk_id cur bytes (m, w) = (Ret (Inl DISK_EXCEEDS_MAX_SIZE), (m, w'))"
    and "view w' = view w"
proof -
  let ?xs = "contents (view w) i"
  let ?body = "prop_if_error (past_fst (pd_write P cur bytes)) (retc (Inr ()))
    :: (posix_disk \<times> pdm \<times> 'a, (unit, DiskManagerErrorCode) result) cpp"
  obtain p where p: "disk_path m disk_id = Some p" "names (view w) p = Some i"
    using lf by (auto simp: loaded_file_def)
  have body: "\<exists>off w2. ?body (pd, m, w1) = (Ret (Inl DISK_EXCEEDS_MAX_SIZE), (pd, m, w2))
      \<and> view w2 = fs_seek (m_fd pd) i off (fs_set i ?xs (view w))"
    if pd: "pd = posix_disk_new p (m_fd pd) (dm_page_size m) (max_disk_byte_size m)"
      and h: "handle (view w1) pd i 0" and v1: "view w1 = fs_open i (m_fd pd) (view w)" for pd w1
  proof -
    have sel: "m_page_size pd = dm_page_size m" "m_max_disk_size pd = max_disk_byte_size m"
      by (subst pd, simp add: posix_disk_new_def)+
    have side: "m_page_size pd \<noteq> 0" "m_max_disk_size pd \<le> cur * m_page_size pd + m_page_size pd"
      "unat (m_page_size pd) dvd length (contents (view w1) i)"
      using lf ex v1 by (simp_all add: sel loaded_file_def exceeds_def)
    obtain w2 where 2: "pd_write P cur bytes (pd, w1) = (Ret (Inl DISK_EXCEEDS_MAX_SIZE), (pd, w2))"
      and v2: "view w2 = view w1" using h side(1,3,2) by (rule pd_write_exceeds)
    have h2: "handle (view w2) pd i 0" "unat (m_page_size pd) dvd length (contents (view w2) i)"
      using h side v2 by simp_all
    obtain w3 where 3: "pd_write P cur bytes (pd, w2) = (Ret (Inl DISK_EXCEEDS_MAX_SIZE), (pd, w3))"
      and v3: "view w3 = view w2" using h2(1) side(1) h2(2) side(2) by (rule pd_write_exceeds)
    have "?body (pd, m, w1) = (Ret (Inl DISK_EXCEEDS_MAX_SIZE), (pd, m, w3))"
      using 2 3 by (simp add: prop_if_error_error past_fst_eq)
    then show ?thesis using v1 v2 v3 by (auto simp: fs_open_as_seek)
  qed
  from p body obtain w' where
    "with_disk (init_for P) (pd_destructor P) disk_id ?body (m, w) = (Ret (Inl DISK_EXCEEDS_MAX_SIZE), (m, w'))"
    and "view w' = fs_set i ?xs (view w)" by (rule with_disk_run)
  then show thesis by (intro that [of w']) (simp_all add: pdm_write_def noexcept_def)
qed

lemma disk_byte_size_run:
  assumes lf: "loaded_file m (view w) disk_id i"
  obtains w' where "disk_byte_size P disk_id (m, w) =
      (Ret (Inr (of_nat (length (contents (view w) i)))), (m, w'))"
    and "view w' = view w"
proof -
  let ?xs = "contents (view w) i"
  let ?body = "past_fst (pd_get_disk_byte_size P)
    :: (posix_disk \<times> pdm \<times> 'a, (uint, DiskManagerErrorCode) result) cpp"
  obtain p where p: "disk_path m disk_id = Some p" "names (view w) p = Some i"
    using lf by (auto simp: loaded_file_def)
  have body: "\<exists>off w2. ?body (pd, m, w1) = (Ret (Inr (of_nat (length ?xs))), (pd, m, w2))
      \<and> view w2 = fs_seek (m_fd pd) i off (fs_set i ?xs (view w))"
    if pd: "pd = posix_disk_new p (m_fd pd) (dm_page_size m) (max_disk_byte_size m)"
      and h: "handle (view w1) pd i 0" and v1: "view w1 = fs_open i (m_fd pd) (view w)" for pd w1
  proof -
    have "m_page_size pd = dm_page_size m" by (subst pd) (simp add: posix_disk_new_def)
    then obtain w2 where 2: "pd_get_disk_byte_size P (pd, w1) =
        (Ret (Inr (of_nat (length (contents (view w1) i)))), (pd, w2))" and v2: "view w2 = view w1"
      using pd_size_run [of w1 pd i] h lf v1 by (auto simp: handle_def loaded_file_def)
    then show ?thesis using v1 by (auto simp: past_fst_eq fs_open_as_seek)
  qed
  from p body obtain w' where
    "with_disk (init_for P) (pd_destructor P) disk_id ?body (m, w) = (Ret (Inr (of_nat (length ?xs))), (m, w'))"
    and "view w' = fs_set i ?xs (view w)" by (rule with_disk_run)
  then show thesis by (intro that [of w']) (simp_all add: disk_byte_size_def noexcept_def)
qed

lemma extend_run:
  assumes lf: "loaded_file m (view w) disk_id i"
    and "length (contents (view w) i) \<le> unat (max_disk_byte_size m)"
  obtains w' where "extend P disk_id (m, w) =
      (Ret (Inr (of_nat (length (contents (view w) i) div unat (dm_page_size m) + 1))), (m, w'))"
    and "view w' = view w"
proof -
  let ?n = "length (contents (view w) i)" and ?ps = "dm_page_size m"
  obtain w1 where 1: "disk_byte_size P disk_id (m, w) = (Ret (Inr (of_nat ?n)), (m, w1))"
    and v1: "view w1 = view w" using lf by (rule disk_byte_size_run)
  from lf v1 have "loaded_file m (view w1) disk_id i" by simp
  then obtain w2 where 2: "disk_byte_size P disk_id (m, w1) =
      (Ret (Inr (of_nat (length (contents (view w1) i)))), (m, w2))"
    and v2: "view w2 = view w1" by (rule disk_byte_size_run)
  from lf have n: "unat (of_nat ?n :: uint) = ?n" and ps: "?ps \<noteq> 0" and dvd: "unat ?ps dvd ?n"
    by (simp_all add: loaded_file_def unat_of_nat_uint)
  have "(of_nat ?n :: uint) mod ?ps = 0"
    using n dvd by (simp add: word_arith_nat_mod dvd_imp_mod_0)
  moreover have "(of_nat ?n :: uint) div ?ps = of_nat (?n div unat ?ps)"
    using n by (simp add: word_arith_nat_div)
  moreover have "\<not> max_disk_byte_size m < of_nat ?n"
    using assms(2) n by (simp add: word_less_nat_alt)
  ultimately have "extend P disk_id (m, w) = (Ret (Inr (of_nat (?n div unat ?ps + 1))), (m, w2))"
    using 1 2 v1 ps by (simp add: extend_def unwrap_value noexcept_def)
  then show thesis using v1 v2 by (intro that [of w2]) simp_all
qed

lemma with_disk_buf_run:
  assumes p: "disk_path m disk_id = Some p" and i: "names (view w) p = Some i"
    and body: "\<And>pd w1. pd = posix_disk_new p (m_fd pd) (dm_page_size m) (max_disk_byte_size m)
      \<Longrightarrow> handle (view w1) pd i 0 \<Longrightarrow> view w1 = fs_open i (m_fd pd) (view w)
      \<Longrightarrow> \<exists>off w2. body (pd, m, buf, w1) = (Ret r, (pd, m, buf', w2))
            \<and> view w2 = fs_seek (m_fd pd) i off (fs_set i xs (view w))"
  obtains w' where "with_disk (\<lambda>path m. on_snd (init_for P path m)) (past_fst (pd_destructor P))
      disk_id body (m, buf, w) = (Ret r, (m, buf', w'))"
    and "view w' = fs_set i xs (view w)"
proof -
  obtain w1 pd where 1: "init_for P p m w = (Ret (Inr pd), w1)"
    and pd: "pd = posix_disk_new p (m_fd pd) (dm_page_size m) (max_disk_byte_size m)"
    and h: "handle (view w1) pd i 0" and v1: "view w1 = fs_open i (m_fd pd) (view w)"
    and new: "fds (view w) (m_fd pd) = None" using i by (rule init_for_run)
  obtain off w2 where 2: "body (pd, m, buf, w1) = (Ret r, (pd, m, buf', w2))"
    and v2: "view w2 = fs_seek (m_fd pd) i off (fs_set i xs (view w))"
    using body [OF pd h v1] by blast
  have sc: "should_close pd" by (subst pd) (simp add: posix_disk_new_def)
  have fd: "0 \<le> m_fd pd" using h by (simp add: handle_def)
  have "fds (view w2) (m_fd pd) = Some (i, off)" using v2 by simp
  then obtain w3 where 3: "pd_destructor P (pd, w2) = (Ret (), pd\<lparr>should_close := False\<rparr>, w3)"
    and v3: "view w3 = fs_close (m_fd pd) (view w2)" using fd sc by (rule pd_destructor_run)
  have "past_fst (past_fst (pd_destructor P)) (pd, m, buf', w2) =
      (Ret (), pd\<lparr>should_close := False\<rparr>, m, buf', w3)"
    using 3 by (simp add: past_fst_eq)
  with 2 have "in_scope (past_fst (past_fst (pd_destructor P))) pd body (m, buf, w1) = (Ret r, (m, buf', w3))"
    by (rule in_scope_eq)
  then have "with_disk (\<lambda>path m. on_snd (init_for P path m)) (past_fst (pd_destructor P))
      disk_id body (m, buf, w) = (Ret r, (m, buf', w3))"
    using 1 by (simp add: with_disk_loaded [OF p] bindc_def on_snd_eq)
  moreover have "view w3 = fs_set i xs (view w)"
    using v3 v2 new by (simp add: fs_close_opened)
  ultimately show thesis by (rule that)
qed

lemma pdm_read_run:
  assumes lf: "loaded_file m (view w) disk_id i" and fit: "fits m cur"
    and buf: "unat (dm_page_size m) \<le> length buf"
  obtains w' where "pdm_read P disk_id cur (m, buf, w) = (Ret (Inr ()),
      (m, overwrite 0 (get_page (unat (dm_page_size m)) (unat cur) (contents (view w) i)) buf, w'))"
    and "view w' = fs_set i (grow (unat (dm_page_size m)) (unat cur) (contents (view w) i)) (view w)"
proof -
  let ?ps = "unat (dm_page_size m)" and ?xs = "contents (view w) i"
  let ?buf = "overwrite 0 (get_page ?ps (unat cur) ?xs) buf"
  let ?body = "prop_if_error (past_fst (pd_read P cur)) (retc (Inr ()))
    :: (posix_disk \<times> pdm \<times> byte list \<times> 'a, (unit, DiskManagerErrorCode) result) cpp"
  obtain p where p: "disk_path m disk_id = Some p" "names (view w) p = Some i"
    using lf by (auto simp: loaded_file_def)
  have body: "\<exists>off w2. ?body (pd, m, buf, w1) = (Ret (Inr ()), (pd, m, ?buf, w2))
      \<and> view w2 = fs_seek (m_fd pd) i off (fs_set i (grow ?ps (unat cur) ?xs) (view w))"
    if pd: "pd = posix_disk_new p (m_fd pd) (dm_page_size m) (max_disk_byte_size m)"
      and h: "handle (view w1) pd i 0" and v1: "view w1 = fs_open i (m_fd pd) (view w)" for pd w1
  proof -
    have sel: "m_page_size pd = dm_page_size m" "m_max_disk_size pd = max_disk_byte_size m"
      by (subst pd, simp add: posix_disk_new_def)+
    have "contents (view w1) i = ?xs" using v1 by simp
    then obtain w2 where 2: "pd_read P cur (pd, buf, w1) = (Ret (Inr ()), (pd, ?buf, w2))"
      and v2: "view w2 = fs_seek (m_fd pd) i ((unat cur + 1) * ?ps)
        (fs_set i (grow ?ps (unat cur) ?xs) (view w1))"
      using pd_read_run [OF h, of cur buf] lf fit buf
      by (auto simp: sel page_fits_def fits_def loaded_file_def)
    have "?body (pd, m, buf, w1) = (Ret (Inr ()), (pd, m, ?buf, w2))"
      using 2 by (simp add: prop_if_error_value past_fst_eq)
    moreover have "view w2 = fs_seek (m_fd pd) i ((unat cur + 1) * ?ps)
        (fs_set i (grow ?ps (unat cur) ?xs) (view w))"
      using v2 v1 by (simp add: fs_defs)
    ultimately show ?thesis by blast
  qed
  from p body obtain w' where
    "with_disk (\<lambda>path m. on_snd (init_for P path m)) (past_fst (pd_destructor P)) disk_id ?body (m, buf, w)
      = (Ret (Inr ()), (m, ?buf, w'))"
    and "view w' = fs_set i (grow ?ps (unat cur) ?xs) (view w)" by (rule with_disk_buf_run)
  then show thesis by (intro that [of w']) (simp_all add: pdm_read_def noexcept_def)
qed

lemma load_run:
  assumes p: "p = path_of_file m (get_disk_full_name nm)" and i: "names (view w) p = Some i"
    and id: "unat (cur_disk_id m) \<noteq> INT_MAX"
  obtains w' where "load P nm (m, w) = (Ret (Inr (cur_disk_id m)),
      (m\<lparr>disks := AList.update (cur_disk_id m) (get_disk_full_name nm) (disks m),
         cur_disk_id := cur_disk_id m + 1\<rparr>, w'))"
    and "view w' = view w"
proof -
  let ?m = "m\<lparr>disks := AList.update (cur_disk_id m) (get_disk_full_name nm) (disks m),
         cur_disk_id := cur_disk_id m + 1\<rparr>"
  obtain w1 pd where 1: "init_for P p m w = (Ret (Inr pd), w1)"
    and pd: "pd = posix_disk_new p (m_fd pd) (dm_page_size m) (max_disk_byte_size m)"
    and h: "handle (view w1) pd i 0" and v1: "view w1 = fs_open i (m_fd pd) (view w)"
    and new: "fds (view w) (m_fd pd) = None" using i by (rule init_for_run)
  have sc: "should_close pd" by (subst pd) (simp add: posix_disk_new_def)
  have fd: "0 \<le> m_fd pd" using h by (simp add: handle_def)
  have 2: "on_snd (register_disk nm) (pd, m, w1) = (Ret (Inr (cur_disk_id m)), (pd, ?m, w1))"
    using register_disk_run [OF id] by (rule on_snd_eq)
  have v1': "view w1 = fs_seek (m_fd pd) i 0 (view w)" using v1 by (simp add: fs_open_as_seek)
  from 2 refl sc fd v1' new obtain w2 where
    3: "in_scope (past_fst (pd_destructor P)) pd (on_snd (register_disk nm)) (m, w1) =
        (Ret (Inr (cur_disk_id m)), (?m, w2))" and v2: "view w2 = view w" by (rule scope_close)
  have "load P nm (m, w) = (Ret (Inr (cur_disk_id m)), (?m, w2))"
    using 1 3 p by (simp add: load_def init_for_def noexcept_def bindc_def on_snd_eq)
  then show thesis using v2 by (rule that)
qed

lemma load_missing:
  assumes "names (view w) (path_of_file m (get_disk_full_name nm)) = None"
  obtains w' where "load P nm (m, w) = (Ret (Inl DISK_NOT_FOUND), (m, w'))" and "view w' = view w"
proof -
  have "True \<longleftrightarrow> names (view w) (path_of_file m (get_disk_full_name nm)) = None" using assms by simp
  then obtain w' where "pd_init P (path_of_file m (get_disk_full_name nm)) True
      (dm_page_size m) (max_disk_byte_size m) w = (Ret (Inl DISK_NOT_FOUND), w')"
    and "view w' = view w" by (rule pd_init_refuses) auto
  then show thesis
    by (intro that [of w']) (simp_all add: load_def noexcept_def bindc_def on_snd_eq)
qed

lemma create_file_run:
  assumes p: "p = path_of_file m (get_disk_full_name nm)" and new: "names (view w) p = None"
  obtains w' i where "create_file P nm (m, w) = (Ret (Inr ()), (m, w'))"
    and "view w' = fs_create p i (view w)" and "fresh_inode (view w) i"
proof -
  obtain w1 fd i where 1: "pd_init P p False (dm_page_size m) (max_disk_byte_size m) w =
      (Ret (Inr (posix_disk_new p fd (dm_page_size m) (max_disk_byte_size m))), w1)"
    and v1: "view w1 = fs_open i fd (fs_create p i (view w))" and fresh: "fresh_inode (view w) i"
    and fd: "fds (view w) fd = None" "0 \<le> fd" using new by (rule pd_init_creates)
  let ?pd = "posix_disk_new p fd (dm_page_size m) (max_disk_byte_size m)"
  let ?nop = "retc (Inr ()) :: (posix_disk \<times> pdm \<times> 'w, (unit, DiskManagerErrorCode) result) cpp"
  have r: "?nop (?pd, m, w1) = (Ret (Inr ()), (?pd, m, w1))" by simp
  have a: "m_fd ?pd = fd" "should_close ?pd" by (simp_all add: posix_disk_new_def)
  have b: "view w1 = fs_seek fd i 0 (fs_create p i (view w))" using v1 by (simp add: fs_open_as_seek)
  have c: "fds (fs_create p i (view w)) fd = None" using fd by simp
  obtain w2 where 2: "in_scope (past_fst (pd_destructor P)) ?pd ?nop (m, w1) = (Ret (Inr ()), (m, w2))"
    and v2: "view w2 = fs_create p i (view w)" using r a fd(2) b c by (rule scope_close)
  have "create_file P nm (m, w) = (Ret (Inr ()), (m, w2))"
    using 1 2 p by (simp add: create_file_def bindc_def on_snd_eq)
  then show thesis using v2 fresh by (rule that)
qed

lemma create_run:
  assumes p: "p = path_of_file m (get_disk_full_name nm)" and new: "names (view w) p = None"
    and id: "unat (cur_disk_id m) \<noteq> INT_MAX"
  obtains w' i where "create P nm (m, w) = (Ret (Inr (cur_disk_id m)),
      (m\<lparr>disks := AList.update (cur_disk_id m) (get_disk_full_name nm) (disks m),
         cur_disk_id := cur_disk_id m + 1\<rparr>, w'))"
    and "view w' = fs_create p i (view w)" and "fresh_inode (view w) i"
proof -
  obtain w1 i where 1: "create_file P nm (m, w) = (Ret (Inr ()), (m, w1))"
    and v1: "view w1 = fs_create p i (view w)" and fresh: "fresh_inode (view w) i"
    using p new by (rule create_file_run)
  have "names (view w1) p = Some i" using v1 by simp
  with p obtain w2 where 2: "load P nm (m, w1) = (Ret (Inr (cur_disk_id m)),
      (m\<lparr>disks := AList.update (cur_disk_id m) (get_disk_full_name nm) (disks m),
         cur_disk_id := cur_disk_id m + 1\<rparr>, w2))" and v2: "view w2 = view w1"
    using id by (rule load_run)
  show thesis using 1 2 v1 v2 fresh
    by (intro that [of w2 i]) (simp_all add: create_def prop_if_error_value noexcept_def)
qed

lemma create_existing:
  assumes "names (view w) (path_of_file m (get_disk_full_name nm)) = Some i"
  obtains w' where "create P nm (m, w) = (Ret (Inl DISK_ALREADY_EXISTS), (m, w'))" and "view w' = view w"
proof -
  let ?p = "path_of_file m (get_disk_full_name nm)"
  have step: "\<exists>w'. create_file P nm (m, w) = (Ret (Inl DISK_ALREADY_EXISTS), (m, w')) \<and> view w' = view w"
    if "names (view w) ?p = Some i" for w
  proof -
    have "False \<longleftrightarrow> names (view w) ?p = None" using that by simp
    then obtain w' where "pd_init P ?p False (dm_page_size m) (max_disk_byte_size m) w =
        (Ret (Inl DISK_ALREADY_EXISTS), w')" and "view w' = view w" by (rule pd_init_refuses) auto
    then show ?thesis by (auto simp: create_file_def bindc_def on_snd_eq)
  qed
  obtain w1 where 1: "create_file P nm (m, w) = (Ret (Inl DISK_ALREADY_EXISTS), (m, w1))"
    and v1: "view w1 = view w" using step [OF assms] by blast
  with step [of w1] assms obtain w2 where 2: "create_file P nm (m, w1) = (Ret (Inl DISK_ALREADY_EXISTS), (m, w2))"
    and v2: "view w2 = view w1" by auto
  show thesis using 1 2 v1 v2
    by (intro that [of w2]) (simp_all add: create_def prop_if_error_error noexcept_def)
qed

lemma destroy_run:
  assumes p: "disk_path m disk_id = Some p" and i: "names (view w) p = Some i"
  obtains w' fd where "destroy P disk_id (m, w) =
      (Ret (Inr ()), (m\<lparr>disks := AList.delete disk_id (disks m)\<rparr>, w'))"
    and "view w' = fs_unlink p (fs_open i fd (view w))" and "fds (view w) fd = None"
proof -
  obtain w1 pd where 1: "init_for P p m w = (Ret (Inr pd), w1)"
    and pd: "pd = posix_disk_new p (m_fd pd) (dm_page_size m) (max_disk_byte_size m)"
    and h: "handle (view w1) pd i 0" and v1: "view w1 = fs_open i (m_fd pd) (view w)"
    and new: "fds (view w) (m_fd pd) = None" using i by (rule init_for_run)
  obtain w2 where 2: "pd_destroy P (pd, w1) = (Ret (Inr ()), (pd\<lparr>should_close := False\<rparr>, w2))"
    and v2: "view w2 = fs_unlink (m_file_path pd) (view w1)" using h by (rule pd_destroy_run)
  have path: "m_file_path pd = p" by (subst pd) (simp add: posix_disk_new_def)
  let ?m = "m\<lparr>disks := AList.delete disk_id (disks m)\<rparr>"
  have loaded: "map_of (disks m) disk_id \<noteq> None" using p by (auto simp: disk_path_def)
  let ?body = "prop_if_error (past_fst (pd_destroy P)) (prop_if_error (on_snd (unload disk_id)) (retc (Inr ())))
    :: (posix_disk \<times> pdm \<times> 'a, (unit, DiskManagerErrorCode) result) cpp"
  have un: "on_snd (unload disk_id) (pd\<lparr>should_close := False\<rparr>, m, w2) =
      (Ret (Inr ()), (pd\<lparr>should_close := False\<rparr>, ?m, w2))"
    using loaded by (simp add: unload_run on_snd_eq)
  have "past_fst (pd_destroy P) (pd, m, w1) = (Ret (Inr ()), (pd\<lparr>should_close := False\<rparr>, m, w2))"
    using 2 by (rule past_fst_eq)
  then have 3: "?body (pd, m, w1) = (Ret (Inr ()), (pd\<lparr>should_close := False\<rparr>, ?m, w2))"
    using un by (simp add: prop_if_error_value)
  have "past_fst (pd_destructor P) (pd\<lparr>should_close := False\<rparr>, ?m, w2) =
      (Ret (), (pd\<lparr>should_close := False\<rparr>, ?m, w2))"
    using pd_destructor_moved by (rule past_fst_eq)
  with 3 have "in_scope (past_fst (pd_destructor P)) pd ?body (m, w1) = (Ret (Inr ()), (?m, w2))"
    by (rule in_scope_eq)
  then have "destroy P disk_id (m, w) = (Ret (Inr ()), (?m, w2))"
    using 1 by (simp add: destroy_def with_disk_loaded [OF p] bindc_def on_snd_eq noexcept_def)
  moreover have "view w2 = fs_unlink p (fs_open i (m_fd pd) (view w))" using v2 v1 path by simp
  ultimately show thesis using new by (rule that)
qed

end

end
