(* ===== verification/Disk_Manager_Frame.thy ===== *)
theory Disk_Manager_Frame
  imports Posix_Disk_Manager
begin

text \<open>
  The disk manager on a system whose calls may fail (\<open>posix_fs\<close>): what a method can touch,
  on every outcome, a value, an error, an exception or a fault half-way.
\<close>

section \<open>Opening a disk\<close>

lemma opened_old:
  assumes "no_hard_links v" and "names v p = Some i"
  shows "guarded (fs_open i fd v) (posix_disk_new p fd ps mx)"
  using assms by (auto simp: guarded_def posix_disk_new_def fs_open_def no_hard_links_def)

lemma opened_new:
  assumes fresh: "fresh_inode v i" and links: "no_hard_links v"
  shows "guarded (fs_open i fd (fs_create p i v)) (posix_disk_new p fd ps mx)"
    and "others_same p v (fs_open i fd (fs_create p i v))"
proof -
  have "no_hard_links (fs_create p i v)" using links fresh by (rule no_hard_links_create)
  moreover have "names (fs_create p i v) p = Some i" by (simp add: fs_create_def)
  ultimately show "guarded (fs_open i fd (fs_create p i v)) (posix_disk_new p fd ps mx)"
    by (rule opened_old)
  have "file_at (fs_open i fd (fs_create p i v)) q = file_at v q" if "q \<noteq> p" for q
  proof (cases "names v q")
    case (Some j)
    then have "j \<noteq> i" using fresh by (auto simp: fresh_inode_def)
    with Some that show ?thesis by (simp add: file_at_def fs_defs)
  qed (use that in \<open>simp add: file_at_def fs_defs\<close>)
  then show "others_same p v (fs_open i fd (fs_create p i v))" by (simp add: others_same_def)
qed

context posix_fs begin

lemma pd_exists_view: "pd_exists P p w = (out, w') \<Longrightarrow> view w' = view w"
  using access_law [of p w, OF surjective_pairing]
  by (auto simp: pd_exists_def run_simps split: prod.splits sum.splits if_splits)

lemma pd_init_checked_frame:
  assumes "pd_init_checked P p se ps mx ex w = (out, w')" and links: "no_hard_links (view w)"
  shows "no_hard_links (view w') \<and> others_same p (view w) (view w')
    \<and> (\<forall>pd. out = Ret (Inr pd) \<longrightarrow> m_file_path pd = p \<and> guarded (view w') pd)"
proof (cases "\<not> se \<and> ex \<or> se \<and> \<not> ex")
  case True
  with assms show ?thesis by (auto simp: pd_init_checked_def)
next
  case False
  obtain ro w1 where o: "sys_open P p w = (ro, w1)" by (cases "sys_open P p w")
  note law = open_law [OF o]
  have run: "(out, w') = (case ro of Inl _ \<Rightarrow> (Ret (Inl CREATE_DISK_ERROR), w1)
      | Inr fd \<Rightarrow> (Ret (Inr (posix_disk_new p fd ps mx)), w1))"
    using assms(1) False o
    by (auto simp: pd_init_checked_def run_simps in_scope_def pd_move_def posix_disk_new_def
        pd_destructor_def split: sum.splits if_splits)
  show ?thesis
  proof (cases ro)
    case (Inl e)
    with run law links show ?thesis by simp
  next
    case (Inr fd)
    show ?thesis
    proof (cases "names (view w) p")
      case None
      with law Inr obtain i where fresh: "fresh_inode (view w) i"
        and v: "view w1 = fs_open i fd (fs_create p i (view w))" by auto
      have "guarded (view w1) (posix_disk_new p fd ps mx)" "others_same p (view w) (view w1)"
        unfolding v using fresh links by (rule opened_new)+
      then show ?thesis using run Inr by (auto simp: guarded_def posix_disk_new_def)
    next
      case (Some i)
      with law Inr have v: "view w1 = fs_open i fd (view w)" by simp
      have "guarded (view w1) (posix_disk_new p fd ps mx)" "others_same p (view w) (view w1)"
        unfolding v using links Some by (simp_all add: opened_old)
      then show ?thesis using run Inr by (auto simp: guarded_def posix_disk_new_def)
    qed
  qed
qed

end

context posix_fs begin

lemma pd_init_frame:
  assumes run: "pd_init P p se ps mx w = (out, w')" and links: "no_hard_links (view w)"
  shows "no_hard_links (view w') \<and> others_same p (view w) (view w')
    \<and> (\<forall>pd. out = Ret (Inr pd) \<longrightarrow> m_file_path pd = p \<and> guarded (view w') pd)"
proof -
  obtain o1 where "unwrap_or_prop_error dm_what (pd_exists P p) (pd_init_checked P p se ps mx) w = (o1, w')"
    and out: "\<And>pd. out = Ret (Inr pd) \<Longrightarrow> o1 = Ret (Inr pd)"
    using run by (auto simp: pd_init_def noexcept_def split: prod.splits outcome.splits)
  then show ?thesis
  proof (cases rule: unwrapE)
    case (1 v v' s1 s2)
    then have "view s2 = view w" by (metis pd_exists_view)
    with 1(3) links out show ?thesis by (metis pd_init_checked_frame)
  next
    case (2 o2)
    then have "view w' = view w" by (metis pd_exists_view)
    with links out 2 show ?thesis by auto
  next
    case (3 o2 s1 o3)
    then have "view w' = view w" by (metis pd_exists_view)
    with links out 3 show ?thesis by auto
  qed
qed

end

section \<open>The methods of the manager\<close>

definition safe_init ::
    "('e \<Rightarrow> fs_view) \<Rightarrow> (string \<Rightarrow> pdm \<Rightarrow> ('e, (posix_disk, DiskManagerErrorCode) result) cpp) \<Rightarrow> bool" where
  "safe_init vw init \<longleftrightarrow> (\<forall>p m e out e'. init p m e = (out, e') \<longrightarrow> no_hard_links (vw e) \<longrightarrow>
     no_hard_links (vw e') \<and> others_same p (vw e) (vw e')
     \<and> (\<forall>pd. out = Ret (Inr pd) \<longrightarrow> m_file_path pd = p \<and> guarded (vw e') pd))"

definition same_manager :: "'p \<times> pdm \<times> 'e \<Rightarrow> 'p \<times> pdm \<times> 'e \<Rightarrow> bool" where
  "same_manager s s' \<longleftrightarrow> fst (snd s') = fst (snd s)"

lemma same_manager_refl [simp]: "reflp same_manager"
  by (simp add: reflp_def same_manager_def)

lemma same_manager_trans [simp]: "transp same_manager"
  by (auto simp: transp_def same_manager_def)

lemma same_manager_past_fst [simp]: "keeps same_manager (past_fst m)"
  by (rule keepsI) (auto simp: past_fst_iff same_manager_def)

lemma same_manager_then [simp]:
  "keeps same_manager (prop_if_error (past_fst m) (retc r))"
  by (intro cpp_intros) simp_all

lemma frame_then:
  "keeps (disk_frame vw p) m \<Longrightarrow> keeps (disk_frame (vw \<circ> snd) p) (prop_if_error (past_fst m) (retc r))"
  by (intro cpp_intros frame_past_fst) simp_all

lemma in_scope_frame:
  assumes run: "in_scope (past_fst dtor) pd body (m, e) = (out, (m', e'))"
    and frames: "keeps (disk_frame vw p) dtor" "keeps (disk_frame (vw \<circ> snd) p) body"
    and pd: "m_file_path pd = p" "guarded (vw e) pd"
  shows "no_hard_links (vw e') \<and> others_same p (vw e) (vw e')"
proof -
  have "keeps (disk_frame (vw \<circ> snd) p) (past_fst dtor)" using frames(1) by (rule frame_past_fst)
  with run disk_frame_refl disk_frame_trans frames(2)
  obtain pd' where "disk_frame (vw \<circ> snd) p (pd, m, e) (pd', m', e')" by (rule in_scope_keeps)
  then show ?thesis using pd by (simp add: disk_frame_def guarded_def)
qed

lemma with_disk_frame:
  assumes init: "safe_init vw init" and frames: "keeps (disk_frame vw p) dtor"
      "keeps (disk_frame (vw \<circ> snd) p) body"
    and p: "disk_path m disk_id = Some p" and links: "no_hard_links (vw e)"
    and run: "with_disk init dtor disk_id body (m, e) = (out, (m', e'))"
  shows "no_hard_links (vw e') \<and> others_same p (vw e) (vw e')"
proof -
  obtain o1 e1 where 1: "init p m e = (o1, e1)" by (cases "init p m e")
  have opened: "no_hard_links (vw e1) \<and> others_same p (vw e) (vw e1)
      \<and> (\<forall>pd. o1 = Ret (Inr pd) \<longrightarrow> m_file_path pd = p \<and> guarded (vw e1) pd)"
    using init links 1 by (simp add: safe_init_def)
  show ?thesis
  proof (cases "\<exists>pd. o1 = Ret (Inr pd)")
    case True
    then obtain pd where o1: "o1 = Ret (Inr pd)" by blast
    have "in_scope (past_fst dtor) pd body (m, e1) = (out, (m', e'))"
      using run 1 o1 by (simp add: with_disk_loaded [OF p] bindc_def on_snd_eq)
    then have "no_hard_links (vw e') \<and> others_same p (vw e1) (vw e')"
      using frames opened o1 by (intro in_scope_frame) auto
    then show ?thesis using opened by (auto intro: others_same_trans)
  next
    case False
    have "e' = e1" using run 1 False
      by (auto simp: with_disk_loaded [OF p] bindc_def on_snd_eq split: outcome.splits sum.splits)
    then show ?thesis using opened by simp
  qed
qed

lemma with_disk_same_manager:
  assumes "keeps same_manager body" and run: "with_disk init dtor disk_id body (m, e) = (out, (m', e'))"
  shows "m' = m"
proof (cases "disk_path m disk_id")
  case None
  then show ?thesis using run by (simp add: with_disk_unloaded)
next
  case (Some p)
  have scope: "m2 = m" if "in_scope (past_fst dtor) pd body (m, e1) = (o2, (m2, e2))" for pd e1 o2 m2 e2
  proof -
    from that same_manager_refl same_manager_trans assms(1) same_manager_past_fst
    obtain pd' where "same_manager (pd, m, e1) (pd', m2, e2)" by (rule in_scope_keeps)
    then show ?thesis by (simp add: same_manager_def)
  qed
  obtain o1 e1 where "init p m e = (o1, e1)" by (cases "init p m e")
  then show ?thesis
    using run by (auto simp: with_disk_loaded [OF Some] bindc_def on_snd_eq
      split: outcome.splits sum.splits dest: scope)
qed

lemma with_disk_guarded:
  assumes "safe_init vw init" "\<And>p. keeps (disk_frame vw p) dtor" "\<And>p. keeps (disk_frame (vw \<circ> snd) p) body"
    and run: "with_disk init dtor disk_id body (m, e) = (out, (m', e'))" and links: "no_hard_links (vw e)"
  shows "no_hard_links (vw e') \<and> (\<forall>q. disk_path m disk_id \<noteq> Some q \<longrightarrow> file_at (vw e') q = file_at (vw e) q)"
proof (cases "disk_path m disk_id")
  case None
  then show ?thesis using run links by (simp add: with_disk_unloaded)
next
  case (Some p)
  with assms have "no_hard_links (vw e') \<and> others_same p (vw e) (vw e')" by (intro with_disk_frame)
  with Some show ?thesis by (simp add: others_same_def)
qed

context posix_fs begin

lemma safe_init_for: "safe_init view (init_for P)"
proof -
  have "no_hard_links (view w') \<and> others_same p (view w) (view w')
      \<and> (\<forall>pd. out = Ret (Inr pd) \<longrightarrow> m_file_path pd = p \<and> guarded (view w') pd)"
    if "pd_init P p se ps mx w = (out, w')" "no_hard_links (view w)" for p se ps mx w out w'
    using that by (rule pd_init_frame)
  then show ?thesis unfolding safe_init_def init_for_def by blast
qed

lemma safe_init_buf: "safe_init (view \<circ> snd) (\<lambda>path m. on_snd (init_for P path m))"
  using safe_init_for unfolding safe_init_def by (fastforce simp: on_snd_iff)

lemma pdm_write_frame:
  assumes "pdm_write P disk_id cur bytes (m, w) = (out, (m', w'))" and "no_hard_links (view w)"
  shows "m' = m \<and> no_hard_links (view w')
    \<and> (\<forall>q. disk_path m disk_id \<noteq> Some q \<longrightarrow> file_at (view w') q = file_at (view w) q)"
proof -
  let ?b = "prop_if_error (past_fst (pd_write P cur bytes)) (retc (Inr ()))
    :: (posix_disk \<times> pdm \<times> 'w, (unit, DiskManagerErrorCode) result) cpp"
  obtain o1 where run: "with_disk (init_for P) (pd_destructor P) disk_id ?b (m, w) = (o1, (m', w'))"
    using assms(1) by (auto simp: pdm_write_def noexcept_def split: prod.splits outcome.splits)
  have "m' = m" using same_manager_then run by (rule with_disk_same_manager)
  moreover have "no_hard_links (view w')
      \<and> (\<forall>q. disk_path m disk_id \<noteq> Some q \<longrightarrow> file_at (view w') q = file_at (view w) q)"
    using run assms(2)
    by (intro with_disk_guarded [OF safe_init_for]) (auto intro: frame_then frame_pd_write frame_pd_destructor)
  ultimately show ?thesis by simp
qed

lemma pdm_read_frame:
  assumes "pdm_read P disk_id cur (m, buf, w) = (out, (m', buf', w'))" and "no_hard_links (view w)"
  shows "m' = m \<and> no_hard_links (view w')
    \<and> (\<forall>q. disk_path m disk_id \<noteq> Some q \<longrightarrow> file_at (view w') q = file_at (view w) q)"
proof -
  let ?b = "prop_if_error (past_fst (pd_read P cur)) (retc (Inr ()))
    :: (posix_disk \<times> pdm \<times> byte list \<times> 'w, (unit, DiskManagerErrorCode) result) cpp"
  obtain o1 where run: "with_disk (\<lambda>path m. on_snd (init_for P path m)) (past_fst (pd_destructor P))
      disk_id ?b (m, buf, w) = (o1, (m', buf', w'))"
    using assms(1) by (auto simp: pdm_read_def noexcept_def split: prod.splits outcome.splits)
  have "m' = m" using same_manager_then run by (rule with_disk_same_manager)
  moreover have "no_hard_links ((view \<circ> snd) (buf', w')) \<and> (\<forall>q. disk_path m disk_id \<noteq> Some q
      \<longrightarrow> file_at ((view \<circ> snd) (buf', w')) q = file_at ((view \<circ> snd) (buf, w)) q)"
    using run assms(2) by (intro with_disk_guarded [OF safe_init_buf])
      (auto intro: frame_then frame_pd_read frame_pd_destructor frame_past_fst)
  ultimately show ?thesis by simp
qed

lemma disk_byte_size_frame:
  assumes "disk_byte_size P disk_id (m, w) = (out, (m', w'))" and "no_hard_links (view w)"
  shows "m' = m \<and> no_hard_links (view w')
    \<and> (\<forall>q. disk_path m disk_id \<noteq> Some q \<longrightarrow> file_at (view w') q = file_at (view w) q)"
proof -
  let ?b = "past_fst (pd_get_disk_byte_size P)
    :: (posix_disk \<times> pdm \<times> 'w, (uint, DiskManagerErrorCode) result) cpp"
  obtain o1 where run: "with_disk (init_for P) (pd_destructor P) disk_id ?b (m, w) = (o1, (m', w'))"
    using assms(1) by (auto simp: disk_byte_size_def noexcept_def split: prod.splits outcome.splits)
  have "m' = m" using same_manager_past_fst run by (rule with_disk_same_manager)
  moreover have "no_hard_links (view w')
      \<and> (\<forall>q. disk_path m disk_id \<noteq> Some q \<longrightarrow> file_at (view w') q = file_at (view w) q)"
    using run assms(2) by (intro with_disk_guarded [OF safe_init_for])
      (auto intro: frame_past_fst frame_pd_get_disk_byte_size frame_pd_destructor)
  ultimately show ?thesis by simp
qed

lemma frame_unload: "keeps (disk_frame (vw \<circ> snd) p) (on_snd (unload disk_id))"
  by (rule keepsI) (auto simp: on_snd_iff disk_frame_def unload_run split: if_splits)

lemma destroy_frame:
  assumes "destroy P disk_id (m, w) = (out, (m', w'))" and "no_hard_links (view w)"
  shows "no_hard_links (view w')
    \<and> (\<forall>q. disk_path m disk_id \<noteq> Some q \<longrightarrow> file_at (view w') q = file_at (view w) q)"
proof -
  let ?b = "prop_if_error (past_fst (pd_destroy P)) (prop_if_error (on_snd (unload disk_id)) (retc (Inr ())))
    :: (posix_disk \<times> pdm \<times> 'w, (unit, DiskManagerErrorCode) result) cpp"
  have b: "keeps (disk_frame (view \<circ> snd) p) ?b" for p
    by (intro cpp_intros frame_past_fst frame_pd_destroy frame_unload) simp_all
  obtain o1 where run: "with_disk (init_for P) (pd_destructor P) disk_id ?b (m, w) = (o1, (m', w'))"
    using assms(1) by (auto simp: destroy_def noexcept_def split: prod.splits outcome.splits)
  show ?thesis
    using safe_init_for frame_pd_destructor b run assms(2) by (rule with_disk_guarded)
qed

end

text \<open>The two methods that name a disk by its prefix.\<close>

definition named_frame :: "('w \<Rightarrow> fs_view) \<Rightarrow> string \<Rightarrow> pdm \<times> 'w \<Rightarrow> pdm \<times> 'w \<Rightarrow> bool" where
  "named_frame vw nm s s' \<longleftrightarrow> dir_path (fst s') = dir_path (fst s)
     \<and> (no_hard_links (vw (snd s)) \<longrightarrow> no_hard_links (vw (snd s'))
         \<and> others_same (path_of_file (fst s) (get_disk_full_name nm)) (vw (snd s)) (vw (snd s')))"

lemma named_frame_refl [simp]: "reflp (named_frame vw nm)"
  by (simp add: reflp_def named_frame_def)

lemma named_frame_trans [simp]: "transp (named_frame vw nm)"
proof (rule transpI)
  fix s t u
  assume "named_frame vw nm s t" "named_frame vw nm t u"
  then show "named_frame vw nm s u"
    by (auto simp: named_frame_def path_of_file_def intro: others_same_trans)
qed

lemma register_disk_frame:
  "register_disk nm (m, e) = (out, (m', e')) \<Longrightarrow> e' = e \<and> dir_path m' = dir_path m"
  by (auto simp: register_disk_def split: if_splits)

context posix_fs begin

lemma opened_scope_frame:
  assumes init: "pd_init P p se ps mx w = (Ret (Inr pd), w1)" and links: "no_hard_links (view w)"
    and body: "keeps (\<lambda>s s'. fst s' = fst s \<and> snd (snd s') = snd (snd s)) body"
    and run: "in_scope (past_fst (pd_destructor P)) pd body (m, w1) = (out, (m', w'))"
  shows "no_hard_links (view w') \<and> others_same p (view w) (view w')"
proof -
  have opened: "no_hard_links (view w1)" "others_same p (view w) (view w1)" "m_file_path pd = p"
    "guarded (view w1) pd" using pd_init_frame [OF init links] by auto
  have "keeps (disk_frame (view \<circ> snd) p) body"
  proof (rule keepsI)
    fix s out s' assume "body s = (out, s')"
    with body have "fst s' = fst s \<and> snd (snd s') = snd (snd s)" by (rule keepsD)
    then show "disk_frame (view \<circ> snd) p s s'" by (cases s, cases s') (auto simp: disk_frame_def)
  qed
  with run frame_pd_destructor have "no_hard_links (view w') \<and> others_same p (view w1) (view w')"
    using opened(3,4) by (rule in_scope_frame)
  then show ?thesis using opened(2) by (auto intro: others_same_trans)
qed

lemma named_scope:
  assumes init: "pd_init P p se ps mx w = (o1, w1)" and p: "p = path_of_file m (get_disk_full_name nm)"
    and body: "keeps (\<lambda>s s'. fst s' = fst s \<and> snd (snd s') = snd (snd s)
        \<and> dir_path (fst (snd s')) = dir_path (fst (snd s))) body"
    and run: "(case o1 of
        Ret (Inl e) \<Rightarrow> (Ret (Inl e), (m, w1))
      | Ret (Inr pd) \<Rightarrow> in_scope (past_fst (pd_destructor P)) pd body (m, w1)
      | Throw x \<Rightarrow> (Throw x, (m, w1))
      | Fault f \<Rightarrow> (Fault f, (m, w1))) = (out, (m', w'))"
  shows "named_frame view nm (m, w) (m', w')"
proof (cases "\<exists>pd. o1 = Ret (Inr pd)")
  case True
  then obtain pd where o1: "o1 = Ret (Inr pd)" by blast
  with run have sc: "in_scope (past_fst (pd_destructor P)) pd body (m, w1) = (out, (m', w'))" by simp
  have "no_hard_links (view w') \<and> others_same p (view w) (view w')" if "no_hard_links (view w)"
    using init [unfolded o1] that keeps_mono [OF body] sc by (rule opened_scope_frame) simp
  moreover have "dir_path m' = dir_path m"
  proof -
    let ?R = "\<lambda>s s'. dir_path (fst (snd s')) = dir_path (fst (snd s))"
    have "reflp ?R" "transp ?R" by (simp_all add: reflp_def transp_def)
    moreover have "keeps ?R body" by (rule keeps_mono [OF body]) simp
    moreover have "keeps ?R (past_fst (pd_destructor P))"
      by (rule keepsI) (auto simp: past_fst_iff)
    ultimately obtain pd' where "?R (pd, m, w1) (pd', m', w')" using sc by (auto elim: in_scope_keeps)
    then show ?thesis by simp
  qed
  ultimately show ?thesis using p by (simp add: named_frame_def)
next
  case False
  then have "m' = m \<and> w' = w1" using run by (auto split: outcome.splits sum.splits)
  then show ?thesis using pd_init_frame [OF init] p by (auto simp: named_frame_def)
qed

lemma load_frame: "keeps (named_frame view nm) (load P nm)"
  unfolding load_def disk_manager_getters
proof (rule keeps_noexcept, rule keepsI, clarify)
  fix m w out m' w'
  assume run: "bindc (getc fst) (\<lambda>m.
      bindc (on_snd (pd_init P (path_of_file m (get_disk_full_name nm)) True
                       (dm_page_size m) (max_disk_byte_size m)))
        (case_sum (\<lambda>e. retc (Inl e)) (\<lambda>pd.
           in_scope (past_fst (pd_destructor P)) pd (on_snd (register_disk nm))))) (m, w) = (out, (m', w'))"
  let ?p = "path_of_file m (get_disk_full_name nm)"
  obtain o1 w1 where 1: "pd_init P ?p True (dm_page_size m) (max_disk_byte_size m) w = (o1, w1)"
    by (metis surj_pair)
  have body: "keeps (\<lambda>s s'. fst s' = fst s \<and> snd (snd s') = snd (snd s)
        \<and> dir_path (fst (snd s')) = dir_path (fst (snd s)))
      (on_snd (register_disk nm) :: (posix_disk \<times> pdm \<times> 'w, _) cpp)"
    by (rule keepsI) (auto simp: on_snd_iff dest!: register_disk_frame)
  show "named_frame view nm (m, w) (m', w')"
    by (rule named_scope [OF 1 refl body])
      (use run 1 in \<open>auto simp: bindc_def on_snd_eq
        split: outcome.splits sum.splits prod.splits\<close>)
qed

lemma create_file_frame: "keeps (named_frame view nm) (create_file P nm)"
proof (rule keepsI, clarify)
  fix m w out m' w'
  assume run: "create_file P nm (m, w) = (out, (m', w'))"
  let ?p = "path_of_file m (get_disk_full_name nm)"
  obtain o1 w1 where 1: "pd_init P ?p False (dm_page_size m) (max_disk_byte_size m) w = (o1, w1)"
    by (metis surj_pair)
  have body: "keeps (\<lambda>s s'. fst s' = fst s \<and> snd (snd s') = snd (snd s)
        \<and> dir_path (fst (snd s')) = dir_path (fst (snd s)))
      (retc (Inr ()) :: (posix_disk \<times> pdm \<times> 'w, (unit, DiskManagerErrorCode) result) cpp)"
    by (rule keepsI) auto
  show "named_frame view nm (m, w) (m', w')"
    by (rule named_scope [OF 1 refl body])
      (use run 1 in \<open>auto simp: create_file_def bindc_def on_snd_eq
        split: outcome.splits sum.splits prod.splits\<close>)
qed

lemma create_frame: "keeps (named_frame view nm) (create P nm)"
  unfolding create_def by (intro cpp_intros create_file_frame load_frame) simp_all

end

end
