(* ===== verification/Disk_Store.thy ===== *)
theory Disk_Store
  imports Disk_Manager_Frame
begin

text \<open>
  The contract of the disk manager on a reliable system: a store of disks, each a sequence
  of pages.  \<open>spec\<close> says what every call answers and how it changes the store; \<open>exec\<close>
  runs the same call on \<open>PosixDiskManager\<close>.  \<open>exec_refines\<close> relates the two, call by call,
  \<open>exec_all_refines\<close> for sequences of calls.
\<close>

section \<open>The store\<close>

record store =
  st_dir :: string
  st_page :: nat
  st_limit :: nat
  st_files :: "string \<Rightarrow> byte list option"
  st_table :: "int32 \<Rightarrow> string option"
  st_next :: int32

datatype dm_cmd = Create string | Load string | Unload int32 | Destroy int32
  | Write int32 int32 "byte list" | Read int32 int32 "byte list" | Size int32 | Extend int32
  | Exists string | Is_Loaded int32 | Name_Of int32 | Num_Loaded | Full_Name string

datatype dm_reply = R_Id int32 | R_Done | R_Buf "byte list" | R_Size uint | R_Bool bool | R_Name string

definition st_path :: "store \<Rightarrow> string \<Rightarrow> string" where
  "st_path st nm = st_dir st @ ''/'' @ get_disk_full_name nm"

definition on_disk :: "store \<Rightarrow> int32
    \<Rightarrow> (string \<Rightarrow> byte list \<Rightarrow> (dm_reply, DiskManagerErrorCode) result \<times> store)
    \<Rightarrow> (dm_reply, DiskManagerErrorCode) result \<times> store" where
  "on_disk st disk_id k =
     (case st_table st disk_id of None \<Rightarrow> (Inl DISK_NOT_FOUND, st)
      | Some p \<Rightarrow> (case st_files st p of None \<Rightarrow> (Inl DISK_NOT_FOUND, st)
          | Some xs \<Rightarrow> k p xs))"

definition st_fits :: "store \<Rightarrow> int32 \<Rightarrow> bool" where
  "st_fits st cur \<longleftrightarrow> unat cur * st_page st + st_page st < st_limit st"

definition spec_load :: "string \<Rightarrow> store \<Rightarrow> (dm_reply, DiskManagerErrorCode) result \<times> store" where
  "spec_load nm st =
     (if st_files st (st_path st nm) = None then (Inl DISK_NOT_FOUND, st)
      else (Inr (R_Id (st_next st)),
            st\<lparr>st_table := (st_table st)(st_next st \<mapsto> st_path st nm), st_next := st_next st + 1\<rparr>))"

fun spec :: "dm_cmd \<Rightarrow> store \<Rightarrow> (dm_reply, DiskManagerErrorCode) result \<times> store" where
  "spec (Create nm) st =
     (if st_files st (st_path st nm) \<noteq> None then (Inl DISK_ALREADY_EXISTS, st)
      else spec_load nm (st\<lparr>st_files := (st_files st)(st_path st nm \<mapsto> [])\<rparr>))"
| "spec (Load nm) st = spec_load nm st"
| "spec (Unload i) st =
     (if st_table st i = None then (Inl DISK_NOT_FOUND, st)
      else (Inr R_Done, st\<lparr>st_table := (st_table st)(i := None)\<rparr>))"
| "spec (Destroy i) st = on_disk st i (\<lambda>p xs.
     (Inr R_Done, st\<lparr>st_files := (st_files st)(p := None), st_table := (st_table st)(i := None)\<rparr>))"
| "spec (Write i cur bs) st = on_disk st i (\<lambda>p xs.
     if st_fits st cur
     then (Inr R_Done, st\<lparr>st_files := (st_files st)(p \<mapsto>
             put_page (st_page st) (unat cur) (take (st_page st) bs) xs)\<rparr>)
     else (Inl DISK_EXCEEDS_MAX_SIZE, st))"
| "spec (Read i cur buf) st = on_disk st i (\<lambda>p xs.
     if st_fits st cur
     then (Inr (R_Buf (overwrite 0 (get_page (st_page st) (unat cur) xs) buf)),
           st\<lparr>st_files := (st_files st)(p \<mapsto> grow (st_page st) (unat cur) xs)\<rparr>)
     else (Inl DISK_EXCEEDS_MAX_SIZE, st))"
| "spec (Size i) st = on_disk st i (\<lambda>p xs. (Inr (R_Size (of_nat (length xs))), st))"
| "spec (Extend i) st = on_disk st i (\<lambda>p xs. (Inr (R_Id (of_nat (length xs div st_page st + 1))), st))"
| "spec (Exists nm) st = (Inr (R_Bool (st_files st (st_path st nm) \<noteq> None)), st)"
| "spec (Is_Loaded i) st = (Inr (R_Bool (st_table st i \<noteq> None)), st)"
| "spec (Name_Of i) st =
     (case st_table st i of None \<Rightarrow> (Inl DISK_NOT_FOUND, st)
      | Some p \<Rightarrow> (Inr (R_Name (drop (Suc (length (st_dir st))) p)), st))"
| "spec Num_Loaded st = (Inr (R_Size (of_nat (card (dom (st_table st))))), st)"
| "spec (Full_Name nm) st = (Inr (R_Name (get_disk_full_name nm)), st)"

section \<open>The calls\<close>

definition replies :: "('r \<Rightarrow> dm_reply) \<Rightarrow> ('s, ('r, DiskManagerErrorCode) result) cpp
    \<Rightarrow> ('s, (dm_reply, DiskManagerErrorCode) result) cpp" where
  "replies f m = bindc m (\<lambda>r. retc (map_sum id f r))"

definition read_into :: "'w posix \<Rightarrow> int32 \<Rightarrow> int32 \<Rightarrow> byte list
    \<Rightarrow> (pdm \<times> 'w, (dm_reply, DiskManagerErrorCode) result) cpp" where
  "read_into P disk_id cur buf s =
     (case pdm_read P disk_id cur (fst s, buf, snd s) of
        (out, (m', buf', w')) \<Rightarrow>
          (obind out (\<lambda>r. Ret (map_sum id (\<lambda>_. R_Buf buf') r)), (m', w')))"

fun exec :: "'w posix \<Rightarrow> dm_cmd \<Rightarrow> (pdm \<times> 'w, (dm_reply, DiskManagerErrorCode) result) cpp" where
  "exec P (Create nm) = replies R_Id (create P nm)"
| "exec P (Load nm) = replies R_Id (load P nm)"
| "exec P (Unload i) = replies (\<lambda>_. R_Done) (unload i)"
| "exec P (Destroy i) = replies (\<lambda>_. R_Done) (destroy P i)"
| "exec P (Write i cur bs) = replies (\<lambda>_. R_Done) (pdm_write P i cur bs)"
| "exec P (Read i cur buf) = read_into P i cur buf"
| "exec P (Size i) = replies R_Size (disk_byte_size P i)"
| "exec P (Extend i) = replies R_Id (Posix_Disk_Manager.extend P i)"
| "exec P (Exists nm) = replies R_Bool (pdm_exists P nm)"
| "exec P (Is_Loaded i) = replies R_Bool (is_loaded i)"
| "exec P (Name_Of i) = replies R_Name (loaded_disk_name i)"
| "exec P Num_Loaded = replies R_Size num_loaded_disks"
| "exec P (Full_Name nm) = retc (Inr (R_Name (get_disk_full_name nm)))"  \<comment> \<open>a plain string, not a \<open>Result\<close>\<close>

lemma replies_eq [simp]: "m s = (Ret r, s') \<Longrightarrow> replies f m s = (Ret (map_sum id f r), s')"
  by (simp add: replies_def bindc_eqs)

section \<open>The abstraction\<close>

definition store_of :: "('w \<Rightarrow> fs_view) \<Rightarrow> pdm \<times> 'w \<Rightarrow> store" where
  "store_of vw s =
     \<lparr>st_dir = dir_path (fst s), st_page = unat (dm_page_size (fst s)),
      st_limit = unat (max_disk_byte_size (fst s)), st_files = file_at (vw (snd s)),
      st_table = disk_path (fst s), st_next = cur_disk_id (fst s)\<rparr>"

definition whole_pages :: "pdm \<Rightarrow> byte list \<Rightarrow> bool" where
  "whole_pages m xs \<longleftrightarrow> unat (dm_page_size m) dvd length xs \<and> length xs \<le> unat (max_disk_byte_size m)"

definition store_inv :: "('w \<Rightarrow> fs_view) \<Rightarrow> pdm \<times> 'w \<Rightarrow> bool" where
  "store_inv vw s \<longleftrightarrow> no_hard_links (vw (snd s)) \<and> dm_page_size (fst s) \<noteq> 0 \<and> distinct (map fst (disks (fst s)))
     \<and> (\<forall>i n. map_of (disks (fst s)) i = Some n \<longrightarrow> (\<exists>nm. n = get_disk_full_name nm))
     \<and> (\<forall>nm xs. file_at (vw (snd s)) (path_of_file (fst s) (get_disk_full_name nm)) = Some xs
          \<longrightarrow> whole_pages (fst s) xs)"

definition no_wrap :: "pdm \<Rightarrow> int32 \<Rightarrow> bool" where
  "no_wrap m cur \<longleftrightarrow> unat cur * unat (dm_page_size m) + unat (dm_page_size m) < 4294967296"

fun admissible :: "pdm \<Rightarrow> dm_cmd \<Rightarrow> bool" where
  "admissible m (Write i cur bs) = (no_wrap m cur \<and> unat (dm_page_size m) \<le> length bs)"
| "admissible m (Read i cur buf) = (no_wrap m cur \<and> unat (dm_page_size m) \<le> length buf)"
| "admissible m _ = True"

lemma st_path_store [simp]: "st_path (store_of vw (m, w)) nm = path_of_file m (get_disk_full_name nm)"
  by (simp add: st_path_def store_of_def path_of_file_def)

lemma store_of_sel [simp]:
  "st_page (store_of vw (m, w)) = unat (dm_page_size m)"
  "st_limit (store_of vw (m, w)) = unat (max_disk_byte_size m)"
  "st_files (store_of vw (m, w)) = file_at (vw w)" "st_table (store_of vw (m, w)) = disk_path m"
  "st_next (store_of vw (m, w)) = cur_disk_id m"
  by (simp_all add: store_of_def)

lemma fits_or_exceeds: "no_wrap m cur \<Longrightarrow> exceeds m cur \<longleftrightarrow> \<not> fits m cur"
proof -
  assume nw: "no_wrap m cur"
  then have "unat (cur * dm_page_size m) = unat cur * unat (dm_page_size m)"
    by (simp add: no_wrap_def unat_word_ariths)
  with nw have "unat (cur * dm_page_size m + dm_page_size m) =
      unat cur * unat (dm_page_size m) + unat (dm_page_size m)"
    by (simp add: no_wrap_def unat_add_uint)
  then show ?thesis by (auto simp: exceeds_def fits_def word_le_nat_alt not_less)
qed

lemma st_fits_store [simp]: "st_fits (store_of vw (m, w)) cur = fits m cur"
  by (simp add: st_fits_def fits_def)

lemma file_at_set:
  "no_hard_links v \<Longrightarrow> names v p = Some i \<Longrightarrow> file_at (fs_set i xs v) = (file_at v)(p \<mapsto> xs)"
proof (rule ext)
  fix q
  assume "no_hard_links v" "names v p = Some i"
  then show "file_at (fs_set i xs v) q = ((file_at v)(p \<mapsto> xs)) q"
    by (cases "names v q") (auto simp: file_at_def fs_set_def no_hard_links_def)
qed

lemma file_at_create:
  "fresh_inode v i \<Longrightarrow> file_at (fs_create p i v) = (file_at v)(p \<mapsto> [])"
  by (auto simp: file_at_def fs_create_def fresh_inode_def fun_eq_iff map_option_case split: option.splits)

lemma file_at_unlink: "file_at (fs_unlink p v) = (file_at v)(p := None)"
  by (auto simp: file_at_def fs_unlink_def fun_eq_iff)

lemma file_at_open [simp]: "file_at (fs_open i fd v) = file_at v"
  by (auto simp: file_at_def fs_open_def fun_eq_iff)

lemma path_of_file_update [simp]:
  "path_of_file (m\<lparr>disks := d\<rparr>) = path_of_file m" "path_of_file (m\<lparr>cur_disk_id := c\<rparr>) = path_of_file m"
  by (simp_all add: path_of_file_def fun_eq_iff)

lemma disk_path_update:
  "disk_path (m\<lparr>disks := AList.update i n (disks m), cur_disk_id := c\<rparr>) = (disk_path m)(i \<mapsto> path_of_file m n)"
  by (auto simp: disk_path_def fun_eq_iff update_conv')

lemma disk_path_delete:
  "disk_path (m\<lparr>disks := AList.delete i (disks m)\<rparr>) = (disk_path m)(i := None)"
  by (auto simp: disk_path_def fun_eq_iff delete_conv')


lemma store_same:
  "vw w' = vw w \<Longrightarrow> store_of vw (m, w') = store_of vw (m, w)"
  "vw w' = vw w \<Longrightarrow> store_inv vw (m, w') = store_inv vw (m, w)"
  by (simp_all add: store_of_def store_inv_def)

section \<open>Refinement, call by call\<close>

lemma with_disk_refused:
  assumes "disk_path m disk_id = Some p" and "init p m e = (Ret (Inl err), e')"
  shows "with_disk init dtor disk_id body (m, e) = (Ret (Inl err), (m, e'))"
  using assms by (simp add: with_disk_loaded bindc_def on_snd_eq)

definition leaks :: "dm_cmd \<Rightarrow> ('r, DiskManagerErrorCode) result \<Rightarrow> bool" where
  \<comment> \<open>the one call that leaves a descriptor open\<close>
  "leaks c r \<longleftrightarrow> (\<exists>i. c = Destroy i) \<and> is_value r"

definition fds_after :: "dm_cmd \<Rightarrow> ('r, DiskManagerErrorCode) result \<Rightarrow> fs_view \<Rightarrow> fs_view \<Rightarrow> bool" where
  "fds_after c r v v' \<longleftrightarrow>
     (if leaks c r then \<exists>fd. fd \<notin> dom (fds v) \<and> dom (fds v') = insert fd (dom (fds v)) else fds v' = fds v)"

lemma fds_after_same: "fds v' = fds v \<Longrightarrow> \<not> leaks c r \<Longrightarrow> fds_after c r v v'"
  by (simp add: fds_after_def)

lemma not_leaks [simp]: "\<not> leaks c (Inl e)" "(\<And>i. c \<noteq> Destroy i) \<Longrightarrow> \<not> leaks c r"
  by (simp_all add: leaks_def)

definition refines :: "('w \<Rightarrow> fs_view) \<Rightarrow> 'w posix \<Rightarrow> dm_cmd \<Rightarrow> pdm \<times> 'w \<Rightarrow> bool" where
  "refines vw P c s \<longleftrightarrow> (\<exists>r s'. exec P c s = (Ret r, s')
     \<and> spec c (store_of vw s) = (r, store_of vw s') \<and> store_inv vw s'
     \<and> fds_after c r (vw (snd s)) (vw (snd s')))"

context posix_reliable begin

lemmas view_same = store_same [where vw = view]

lemma refines_on_disk:
  assumes inv: "store_inv view (m, w)"
    and c: "\<And>st. spec c st = on_disk st disk_id (k st)"
    and unloaded: "disk_path m disk_id = None \<Longrightarrow> exec P c (m, w) = (Ret (Inl DISK_NOT_FOUND), (m, w))"
    and missing: "\<And>p w'. disk_path m disk_id = Some p \<Longrightarrow> names (view w) p = None \<Longrightarrow>
        \<exists>w'. exec P c (m, w) = (Ret (Inl DISK_NOT_FOUND), (m, w')) \<and> view w' = view w"
    and present: "\<And>p i. disk_path m disk_id = Some p \<Longrightarrow> names (view w) p = Some i \<Longrightarrow>
        loaded_file m (view w) disk_id i \<Longrightarrow> whole_pages m (contents (view w) i) \<Longrightarrow>
        \<exists>r s'. exec P c (m, w) = (Ret r, s')
          \<and> k (store_of view (m, w)) p (contents (view w) i) = (r, store_of view s') \<and> store_inv view s'
          \<and> fds_after c r (view w) (view (snd s'))"
  shows "refines view P c (m, w)"
proof (cases "disk_path m disk_id")
  case None
  then show ?thesis using unloaded c inv by (auto simp: refines_def on_disk_def fds_after_def)
next
  case (Some p)
  show ?thesis
  proof (cases "names (view w) p")
    case None
    with missing [OF Some] obtain w' where "exec P c (m, w) = (Ret (Inl DISK_NOT_FOUND), (m, w'))"
      and "view w' = view w" by blast
    then show ?thesis using c inv Some None
      by (auto simp: refines_def on_disk_def file_at_def store_of_def store_inv_def fds_after_def)
  next
    case (Some i)
    obtain nm where nm: "p = path_of_file m (get_disk_full_name nm)"
      using inv \<open>disk_path m disk_id = Some p\<close>
      by (auto simp: store_inv_def disk_path_def simp del: map_of_eq_Some_iff)
    have "file_at (view w) p = Some (contents (view w) i)" using Some by (simp add: file_at_def)
    then have whole: "whole_pages m (contents (view w) i)" using inv nm by (simp add: store_inv_def)
    then have "length (contents (view w) i) < 4294967296"
      unfolding whole_pages_def by (meson le_less_trans unat_uint_less)
    then have "loaded_file m (view w) disk_id i"
      using Some \<open>disk_path m disk_id = Some p\<close> inv whole
      by (simp add: loaded_file_def store_inv_def whole_pages_def)
    from present [OF \<open>disk_path m disk_id = Some p\<close> Some this whole] show ?thesis
      using c Some \<open>disk_path m disk_id = Some p\<close>
      by (auto simp: refines_def on_disk_def file_at_def)
  qed
qed

lemma store_inv_set:
  assumes "store_inv view (m, w)" and "names (view w) p = Some i" and "view w' = fs_set i xs (view w)"
    and "whole_pages m xs"
  shows "store_inv view (m, w')"
    and "store_of view (m, w') = (store_of view (m, w))\<lparr>st_files := (file_at (view w))(p \<mapsto> xs)\<rparr>"
proof -
  have f: "file_at (view w') = (file_at (view w))(p \<mapsto> xs)"
    using assms by (simp add: store_inv_def file_at_set)
  show "store_of view (m, w') = (store_of view (m, w))\<lparr>st_files := (file_at (view w))(p \<mapsto> xs)\<rparr>"
    by (simp add: store_of_def f)
  have "no_hard_links (view w')" using assms by (simp add: store_inv_def no_hard_links_def)
  with assms show "store_inv view (m, w')" by (simp add: store_inv_def file_at_set)
qed

lemma whole_pages_put:
  "whole_pages m xs \<Longrightarrow> fits m cur \<Longrightarrow> unat (dm_page_size m) \<le> length bs \<Longrightarrow>
    whole_pages m (put_page (unat (dm_page_size m)) (unat cur) (take (unat (dm_page_size m)) bs) xs)"
  by (auto simp: whole_pages_def fits_def min_def max_def)

lemma whole_pages_grow:
  "whole_pages m xs \<Longrightarrow> fits m cur \<Longrightarrow> whole_pages m (grow (unat (dm_page_size m)) (unat cur) xs)"
  by (auto simp: whole_pages_def fits_def max_def)

lemma init_missing:
  assumes "names (view w) p = None"
  obtains w' where "init_for P p m w = (Ret (Inl DISK_NOT_FOUND), w')" and "view w' = view w"
proof -
  have "True \<longleftrightarrow> names (view w) p = None" using assms by simp
  then obtain w' where "pd_init P p True (dm_page_size m) (max_disk_byte_size m) w =
      (Ret (Inl DISK_NOT_FOUND), w')" and "view w' = view w" by (rule pd_init_refuses) auto
  then show thesis by (intro that [of w']) (simp_all add: init_for_def)
qed

lemma refines_write:
  assumes inv: "store_inv view (m, w)" and adm: "admissible m (Write i cur bs)"
  shows "refines view P (Write i cur bs) (m, w)"
proof (rule refines_on_disk [OF inv spec.simps(5)])
  show "exec P (Write i cur bs) (m, w) = (Ret (Inl DISK_NOT_FOUND), (m, w))" if "disk_path m i = None"
    using that by (simp add: pdm_write_def with_disk_unloaded noexcept_def)
next
  fix p
  assume p: "disk_path m i = Some p" "names (view w) p = None"
  from p(2) obtain w' where "init_for P p m w = (Ret (Inl DISK_NOT_FOUND), w')" "view w' = view w"
    by (rule init_missing)
  with p show "\<exists>w'. exec P (Write i cur bs) (m, w) = (Ret (Inl DISK_NOT_FOUND), (m, w')) \<and> view w' = view w"
    by (simp add: pdm_write_def with_disk_refused noexcept_def)
next
  fix p j
  assume p: "disk_path m i = Some p" "names (view w) p = Some j"
    and lf: "loaded_file m (view w) i j" and whole: "whole_pages m (contents (view w) j)"
  let ?xs = "put_page (unat (dm_page_size m)) (unat cur) (take (unat (dm_page_size m)) bs) (contents (view w) j)"
  show "\<exists>r s'. exec P (Write i cur bs) (m, w) = (Ret r, s')
      \<and> (if st_fits (store_of view (m, w)) cur
         then (Inr R_Done, (store_of view (m, w))\<lparr>st_files := (st_files (store_of view (m, w)))(p \<mapsto>
             put_page (st_page (store_of view (m, w))) (unat cur)
               (take (st_page (store_of view (m, w))) bs) (contents (view w) j))\<rparr>)
         else (Inl DISK_EXCEEDS_MAX_SIZE, store_of view (m, w))) = (r, store_of view s')
      \<and> store_inv view s' \<and> fds_after (Write i cur bs) r (view w) (view (snd s'))"
  proof (cases "fits m cur")
    case True
    have len: "unat (dm_page_size m) \<le> length bs" using adm by simp
    from lf True this obtain w' where "pdm_write P i cur bs (m, w) = (Ret (Inr ()), (m, w'))"
      and v: "view w' = fs_set j ?xs (view w)" by (rule pdm_write_run)
    moreover note store_inv_set [OF inv p(2) v whole_pages_put [OF whole True len]]
    ultimately show ?thesis using True v by (simp add: fds_after_same)
  next
    case False
    then have "exceeds m cur" using adm by (simp add: fits_or_exceeds)
    with lf obtain w' where "pdm_write P i cur bs (m, w) = (Ret (Inl DISK_EXCEEDS_MAX_SIZE), (m, w'))"
      and v: "view w' = view w" by (rule pdm_write_exceeds)
    then show ?thesis using False inv by (simp add: view_same [OF v] v fds_after_same)
  qed
qed

lemma pdm_read_exceeds:
  assumes lf: "loaded_file m (view w) disk_id i" and ex: "exceeds m cur"
  obtains w' where "pdm_read P disk_id cur (m, buf, w) = (Ret (Inl DISK_EXCEEDS_MAX_SIZE), (m, buf, w'))"
    and "view w' = view w"
proof -
  let ?xs = "contents (view w) i"
  let ?body = "prop_if_error (past_fst (pd_read P cur)) (retc (Inr ()))
    :: (posix_disk \<times> pdm \<times> byte list \<times> 'a, (unit, DiskManagerErrorCode) result) cpp"
  obtain p where p: "disk_path m disk_id = Some p" "names (view w) p = Some i"
    using lf by (auto simp: loaded_file_def)
  have body: "\<exists>off w2. ?body (pd, m, buf, w1) = (Ret (Inl DISK_EXCEEDS_MAX_SIZE), (pd, m, buf, w2))
      \<and> view w2 = fs_seek (m_fd pd) i off (fs_set i ?xs (view w))"
    if pd: "pd = posix_disk_new p (m_fd pd) (dm_page_size m) (max_disk_byte_size m)"
      and h: "handle (view w1) pd i 0" and v1: "view w1 = fs_open i (m_fd pd) (view w)" for pd w1
  proof -
    have sel: "m_page_size pd = dm_page_size m" "m_max_disk_size pd = max_disk_byte_size m"
      by (subst pd, simp add: posix_disk_new_def)+
    have side: "m_page_size pd \<noteq> 0" "m_max_disk_size pd \<le> cur * m_page_size pd + m_page_size pd"
      "unat (m_page_size pd) dvd length (contents (view w1) i)"
      using lf ex v1 by (simp_all add: sel loaded_file_def exceeds_def)
    obtain w2 where 2: "pd_read P cur (pd, buf, w1) = (Ret (Inl DISK_EXCEEDS_MAX_SIZE), (pd, buf, w2))"
      and v2: "view w2 = view w1" using h side(1,3,2) by (rule pd_read_exceeds)
    have h2: "handle (view w2) pd i 0" "unat (m_page_size pd) dvd length (contents (view w2) i)"
      using h side v2 by simp_all
    obtain w3 where 3: "pd_read P cur (pd, buf, w2) = (Ret (Inl DISK_EXCEEDS_MAX_SIZE), (pd, buf, w3))"
      and v3: "view w3 = view w2" using h2(1) side(1) h2(2) side(2) by (rule pd_read_exceeds)
    have "?body (pd, m, buf, w1) = (Ret (Inl DISK_EXCEEDS_MAX_SIZE), (pd, m, buf, w3))"
      using 2 3 by (simp add: prop_if_error_error past_fst_eq)
    then show ?thesis using v1 v2 v3 by (auto simp: fs_open_as_seek)
  qed
  from p body obtain w' where
    "with_disk (\<lambda>path m. on_snd (init_for P path m)) (past_fst (pd_destructor P)) disk_id ?body (m, buf, w) = (Ret (Inl DISK_EXCEEDS_MAX_SIZE), (m, buf, w'))"
    and "view w' = fs_set i ?xs (view w)" by (rule with_disk_buf_run)
  then show thesis by (intro that [of w']) (simp_all add: pdm_read_def noexcept_def)
qed

lemma refines_read:
  assumes inv: "store_inv view (m, w)" and adm: "admissible m (Read i cur buf)"
  shows "refines view P (Read i cur buf) (m, w)"
proof (rule refines_on_disk [OF inv spec.simps(6)])
  show "exec P (Read i cur buf) (m, w) = (Ret (Inl DISK_NOT_FOUND), (m, w))" if "disk_path m i = None"
    using that by (simp add: read_into_def pdm_read_def with_disk_unloaded noexcept_def)
next
  fix p
  assume p: "disk_path m i = Some p" "names (view w) p = None"
  from p(2) obtain w' where "init_for P p m w = (Ret (Inl DISK_NOT_FOUND), w')" "view w' = view w"
    by (rule init_missing)
  with p show "\<exists>w'. exec P (Read i cur buf) (m, w) = (Ret (Inl DISK_NOT_FOUND), (m, w')) \<and> view w' = view w"
    by (simp add: read_into_def pdm_read_def with_disk_refused on_snd_eq noexcept_def)
next
  fix p j
  assume p: "disk_path m i = Some p" "names (view w) p = Some j"
    and lf: "loaded_file m (view w) i j" and whole: "whole_pages m (contents (view w) j)"
  let ?st = "store_of view (m, w)"
  show "\<exists>r s'. exec P (Read i cur buf) (m, w) = (Ret r, s')
      \<and> (if st_fits ?st cur
         then (Inr (R_Buf (overwrite 0 (get_page (st_page ?st) (unat cur) (contents (view w) j)) buf)),
               ?st\<lparr>st_files := (st_files ?st)(p \<mapsto> grow (st_page ?st) (unat cur) (contents (view w) j))\<rparr>)
         else (Inl DISK_EXCEEDS_MAX_SIZE, ?st)) = (r, store_of view s')
      \<and> store_inv view s' \<and> fds_after (Read i cur buf) r (view w) (view (snd s'))"
  proof (cases "fits m cur")
    case True
    have len: "unat (dm_page_size m) \<le> length buf" using adm by simp
    from lf True this obtain w' where "pdm_read P i cur (m, buf, w) = (Ret (Inr ()),
          (m, overwrite 0 (get_page (unat (dm_page_size m)) (unat cur) (contents (view w) j)) buf, w'))"
      and v: "view w' = fs_set j (grow (unat (dm_page_size m)) (unat cur) (contents (view w) j)) (view w)"
      by (rule pdm_read_run)
    moreover note store_inv_set [OF inv p(2) v whole_pages_grow [OF whole True]]
    ultimately show ?thesis using True v by (simp add: read_into_def fds_after_same)
  next
    case False
    then have "exceeds m cur" using adm by (simp add: fits_or_exceeds)
    with lf obtain w' where "pdm_read P i cur (m, buf, w) = (Ret (Inl DISK_EXCEEDS_MAX_SIZE), (m, buf, w'))"
      and v: "view w' = view w" by (rule pdm_read_exceeds)
    then show ?thesis using False inv by (simp add: read_into_def view_same [OF v] v fds_after_same)
  qed
qed

lemma size_missing:
  assumes "disk_path m i = Some p" and "names (view w) p = None"
  obtains w' where "disk_byte_size P i (m, w) = (Ret (Inl DISK_NOT_FOUND), (m, w'))" and "view w' = view w"
proof -
  from assms(2) obtain w' where "init_for P p m w = (Ret (Inl DISK_NOT_FOUND), w')" "view w' = view w"
    by (rule init_missing)
  then show thesis using assms by (intro that [of w'])
    (simp_all add: disk_byte_size_def with_disk_refused noexcept_def)
qed

lemma refines_size:
  assumes inv: "store_inv view (m, w)"
  shows "refines view P (Size i) (m, w)"
proof (rule refines_on_disk [OF inv spec.simps(7)])
  show "exec P (Size i) (m, w) = (Ret (Inl DISK_NOT_FOUND), (m, w))" if "disk_path m i = None"
    using that by (simp add: disk_byte_size_def with_disk_unloaded noexcept_def)
next
  fix p
  assume "disk_path m i = Some p" "names (view w) p = None"
  then obtain w' where "disk_byte_size P i (m, w) = (Ret (Inl DISK_NOT_FOUND), (m, w'))" "view w' = view w"
    by (rule size_missing)
  then show "\<exists>w'. exec P (Size i) (m, w) = (Ret (Inl DISK_NOT_FOUND), (m, w')) \<and> view w' = view w"
    by simp
next
  fix p j
  assume "loaded_file m (view w) i j"
  then obtain w' where "disk_byte_size P i (m, w) = (Ret (Inr (of_nat (length (contents (view w) j)))), (m, w'))"
    and v: "view w' = view w" by (rule disk_byte_size_run)
  then show "\<exists>r s'. exec P (Size i) (m, w) = (Ret r, s')
      \<and> (Inr (R_Size (of_nat (length (contents (view w) j)))), store_of view (m, w)) = (r, store_of view s')
      \<and> store_inv view s' \<and> fds_after (Size i) r (view w) (view (snd s'))"
    using inv by (simp add: view_same [OF v] v fds_after_same)
qed

lemma refines_extend:
  assumes inv: "store_inv view (m, w)"
  shows "refines view P (Extend i) (m, w)"
proof (rule refines_on_disk [OF inv spec.simps(8)])
  show "exec P (Extend i) (m, w) = (Ret (Inl DISK_NOT_FOUND), (m, w))" if "disk_path m i = None"
  proof -
    have "disk_byte_size P i (m, w) = (Ret (Inl DISK_NOT_FOUND), (m, w))"
      using that by (simp add: disk_byte_size_def with_disk_unloaded noexcept_def)
    then show ?thesis by (simp add: Posix_Disk_Manager.extend_def unwrap_error noexcept_def)
  qed
next
  fix p
  assume p: "disk_path m i = Some p" "names (view w) p = None"
  then obtain w1 where 1: "disk_byte_size P i (m, w) = (Ret (Inl DISK_NOT_FOUND), (m, w1))"
    and v1: "view w1 = view w" by (rule size_missing)
  from p v1 have "names (view w1) p = None" by simp
  with p(1) obtain w2 where 2: "disk_byte_size P i (m, w1) = (Ret (Inl DISK_NOT_FOUND), (m, w2))"
    and v2: "view w2 = view w1" by (rule size_missing)
  have "Posix_Disk_Manager.extend P i (m, w) = (Ret (Inl DISK_NOT_FOUND), (m, w2))"
    using 1 2 by (simp add: Posix_Disk_Manager.extend_def unwrap_error noexcept_def)
  with v1 v2 show "\<exists>w'. exec P (Extend i) (m, w) = (Ret (Inl DISK_NOT_FOUND), (m, w')) \<and> view w' = view w"
    by simp
next
  fix p j
  assume lf: "loaded_file m (view w) i j" and "whole_pages m (contents (view w) j)"
  then have "length (contents (view w) j) \<le> unat (max_disk_byte_size m)" by (simp add: whole_pages_def)
  with lf obtain w' where "Posix_Disk_Manager.extend P i (m, w) =
      (Ret (Inr (of_nat (length (contents (view w) j) div unat (dm_page_size m) + 1))), (m, w'))"
    and v: "view w' = view w" by (rule extend_run)
  then show "\<exists>r s'. exec P (Extend i) (m, w) = (Ret r, s')
      \<and> (Inr (R_Id (of_nat (length (contents (view w) j) div st_page (store_of view (m, w)) + 1))),
         store_of view (m, w)) = (r, store_of view s')
      \<and> store_inv view s' \<and> fds_after (Extend i) r (view w) (view (snd s'))"
    using inv by (simp add: view_same [OF v] v fds_after_same)
qed

lemma refines_destroy:
  assumes inv: "store_inv view (m, w)"
  shows "refines view P (Destroy i) (m, w)"
proof (rule refines_on_disk [OF inv spec.simps(4)])
  show "exec P (Destroy i) (m, w) = (Ret (Inl DISK_NOT_FOUND), (m, w))" if "disk_path m i = None"
    using that by (simp add: destroy_def with_disk_unloaded noexcept_def)
next
  fix p
  assume p: "disk_path m i = Some p" "names (view w) p = None"
  from p(2) obtain w' where "init_for P p m w = (Ret (Inl DISK_NOT_FOUND), w')" "view w' = view w"
    by (rule init_missing)
  with p show "\<exists>w'. exec P (Destroy i) (m, w) = (Ret (Inl DISK_NOT_FOUND), (m, w')) \<and> view w' = view w"
    by (simp add: destroy_def with_disk_refused noexcept_def)
next
  fix p j
  assume p: "disk_path m i = Some p" "names (view w) p = Some j"
  let ?m = "m\<lparr>disks := AList.delete i (disks m)\<rparr>"
  from p obtain w' fd where 1: "destroy P i (m, w) = (Ret (Inr ()), (?m, w'))"
    and v: "view w' = fs_unlink p (fs_open j fd (view w))" and fd: "fds (view w) fd = None"
    by (rule destroy_run)
  have leak: "fds_after (Destroy i) (Inr R_Done :: (dm_reply, DiskManagerErrorCode) result) (view w) (view w')"
    using fd by (auto simp: fds_after_def leaks_def v)
  have f: "file_at (view w') = (file_at (view w))(p := None)" by (simp add: v file_at_unlink)
  have "no_hard_links (view w')" using inv v by (auto simp: store_inv_def no_hard_links_def fs_defs)
  then have "store_inv view (?m, w')"
    using inv by (auto simp: store_inv_def f delete_conv' whole_pages_def distinct_delete split: if_splits)
  moreover have "store_of view (?m, w') = (store_of view (m, w))\<lparr>st_files := (file_at (view w))(p := None),
      st_table := (disk_path m)(i := None)\<rparr>"
    by (simp add: store_of_def f disk_path_delete)
  ultimately show "\<exists>r s'. exec P (Destroy i) (m, w) = (Ret r, s')
      \<and> (Inr R_Done, (store_of view (m, w))\<lparr>st_files := (st_files (store_of view (m, w)))(p := None),
           st_table := (st_table (store_of view (m, w)))(i := None)\<rparr>) = (r, store_of view s')
      \<and> store_inv view s' \<and> fds_after (Destroy i) r (view w) (view (snd s'))"
    using 1 leak by simp
qed

lemma refines_unload:
  assumes inv: "store_inv view (m, w)"
  shows "refines view P (Unload i) (m, w)"
proof (cases "map_of (disks m) i")
  case None
  then show ?thesis using inv by (simp add: refines_def unload_run disk_path_def fds_after_same)
next
  case (Some n)
  let ?m = "m\<lparr>disks := AList.delete i (disks m)\<rparr>"
  have "store_inv view (?m, w)"
    using inv by (auto simp: store_inv_def delete_conv' whole_pages_def distinct_delete split: if_splits)
  moreover have "store_of view (?m, w) = (store_of view (m, w))\<lparr>st_table := (disk_path m)(i := None)\<rparr>"
    by (simp add: store_of_def disk_path_delete)
  moreover have "disk_path m i \<noteq> None" using Some by (simp add: disk_path_def)
  ultimately show ?thesis using Some by (simp add: refines_def unload_run fds_after_same)
qed

lemma load_refines:
  assumes inv: "store_inv view (m, w)" and id: "unat (cur_disk_id m) \<noteq> INT_MAX"
  shows "\<exists>r s'. load P nm (m, w) = (Ret r, s')
    \<and> spec_load nm (store_of view (m, w)) = (map_sum id R_Id r, store_of view s') \<and> store_inv view s'
    \<and> fds (view (snd s')) = fds (view w)"
proof (cases "names (view w) (path_of_file m (get_disk_full_name nm))")
  case None
  then obtain w' where "load P nm (m, w) = (Ret (Inl DISK_NOT_FOUND), (m, w'))" and v: "view w' = view w"
    by (rule load_missing)
  then show ?thesis using None inv by (simp add: spec_load_def file_at_def view_same [OF v] v)
next
  case (Some i)
  let ?m = "m\<lparr>disks := AList.update (cur_disk_id m) (get_disk_full_name nm) (disks m),
         cur_disk_id := cur_disk_id m + 1\<rparr>"
  from refl Some id obtain w' where 1: "load P nm (m, w) = (Ret (Inr (cur_disk_id m)), (?m, w'))"
    and v: "view w' = view w" by (rule load_run)
  have "store_inv view (?m, w')"
    using inv v by (auto simp: store_inv_def update_conv' whole_pages_def distinct_update split: if_splits)
  moreover have "store_of view (?m, w') = (store_of view (m, w))
      \<lparr>st_table := (disk_path m)(cur_disk_id m \<mapsto> path_of_file m (get_disk_full_name nm)),
       st_next := cur_disk_id m + 1\<rparr>"
    by (simp add: store_of_def v disk_path_update)
  ultimately show ?thesis using 1 Some v by (simp add: spec_load_def file_at_def)
qed

lemma refines_load:
  "store_inv view (m, w) \<Longrightarrow> unat (cur_disk_id m) \<noteq> INT_MAX \<Longrightarrow> refines view P (Load nm) (m, w)"
  using load_refines [of m w nm] by (auto simp: refines_def fds_after_same)

lemma create_reduces:
  assumes p: "p = path_of_file m (get_disk_full_name nm)" and new: "names (view w) p = None"
    and inv: "store_inv view (m, w)"
  obtains w1 where "create P nm (m, w) = load P nm (m, w1)" and "store_inv view (m, w1)"
    and "store_of view (m, w1) = (store_of view (m, w))\<lparr>st_files := (file_at (view w))(p \<mapsto> [])\<rparr>"
    and "fds (view w1) = fds (view w)"
proof -
  obtain w1 i where 1: "create_file P nm (m, w) = (Ret (Inr ()), (m, w1))"
    and v1: "view w1 = fs_create p i (view w)" and fresh: "fresh_inode (view w) i"
    using p new by (rule create_file_run)
  have f: "file_at (view w1) = (file_at (view w))(p \<mapsto> [])" using fresh by (simp add: v1 file_at_create)
  have "no_hard_links (view w1)" using inv fresh v1 by (simp add: store_inv_def no_hard_links_create)
  then have "store_inv view (m, w1)" using inv by (simp add: store_inv_def f whole_pages_def)
  moreover have "create P nm (m, w) = load P nm (m, w1)"
  proof -
    have "noexcept (load P nm) (m, w1) = load P nm (m, w1)"
      by (auto simp: load_def noexcept_def split: prod.splits outcome.splits)
    then show ?thesis using 1 by (simp add: create_def noexcept_def prop_if_error_value)
  qed
  moreover have "fds (view w1) = fds (view w)" by (simp add: v1)
  ultimately show thesis by (intro that [of w1]) (simp_all add: store_of_def f)
qed

lemma refines_create:
  assumes inv: "store_inv view (m, w)" and id: "unat (cur_disk_id m) \<noteq> INT_MAX"
  shows "refines view P (Create nm) (m, w)"
proof (cases "names (view w) (path_of_file m (get_disk_full_name nm))")
  case None
  with refl obtain w1 where 1: "create P nm (m, w) = load P nm (m, w1)" "store_inv view (m, w1)"
    and st: "store_of view (m, w1) = (store_of view (m, w))
      \<lparr>st_files := (file_at (view w))(path_of_file m (get_disk_full_name nm) \<mapsto> [])\<rparr>"
    and fds1: "fds (view w1) = fds (view w)"
    using inv by (rule create_reduces)
  from load_refines [OF 1(2) id, of nm] obtain r s' where "load P nm (m, w1) = (Ret r, s')"
    "spec_load nm (store_of view (m, w1)) = (map_sum id R_Id r, store_of view s')" "store_inv view s'"
    "fds (view (snd s')) = fds (view w1)"
    by blast
  then show ?thesis using 1(1) None fds1 by (simp add: refines_def st file_at_def fds_after_same)
next
  case (Some i)
  then obtain w' where "create P nm (m, w) = (Ret (Inl DISK_ALREADY_EXISTS), (m, w'))"
    and v: "view w' = view w" by (rule create_existing)
  then show ?thesis using Some inv by (simp add: refines_def file_at_def view_same [OF v] v fds_after_same)
qed

lemma refines_exists:
  assumes inv: "store_inv view (m, w)"
  shows "refines view P (Exists nm) (m, w)"
proof -
  let ?p = "path_of_file m (get_disk_full_name nm)"
  obtain w' where 1: "pd_exists P ?p w = (Ret (Inr (names (view w) ?p \<noteq> None)), w')" and v: "view w' = view w"
    by (rule pd_exists_run)
  have "pdm_exists P nm (m, w) = (Ret (Inr (names (view w) ?p \<noteq> None)), (m, w'))"
    using 1 by (simp add: pdm_exists_def noexcept_def on_snd_eq)
  then show ?thesis using inv by (simp add: refines_def file_at_def view_same [OF v] v fds_after_same)
qed

lemma refines_table:
  assumes inv: "store_inv view (m, w)"
  shows "refines view P (Is_Loaded i) (m, w)" and "refines view P (Name_Of i) (m, w)"
    and "refines view P Num_Loaded (m, w)" and "refines view P (Full_Name nm) (m, w)"
proof -
  show "refines view P (Full_Name nm) (m, w)" using inv by (simp add: refines_def fds_after_same)
  show "refines view P (Is_Loaded i) (m, w)"
    using inv by (simp add: refines_def is_loaded_run disk_path_def fds_after_same)
  show "refines view P (Name_Of i) (m, w)"
    using inv by (cases "map_of (disks m) i")
      (simp_all add: refines_def loaded_disk_name_run disk_path_def path_of_file_def store_of_def fds_after_same)
  have "dom (disk_path m) = set (map fst (disks m))"
    by (auto simp: disk_path_def dom_def dom_map_of_conv_image_fst [symmetric])
  then have "card (dom (disk_path m)) = length (disks m)"
    using inv distinct_card [of "map fst (disks m)"] by (simp add: store_inv_def)
  then show "refines view P Num_Loaded (m, w)"
    using inv by (simp add: refines_def num_loaded_disks_def noexcept_def fds_after_same)
qed

theorem exec_refines:
  assumes inv: "store_inv view (m, w)" and adm: "admissible m c" and id: "unat (cur_disk_id m) \<noteq> INT_MAX"
  shows "refines view P c (m, w)"
  using assms
  by (cases c) (auto intro: refines_create refines_load refines_unload refines_destroy refines_write
      refines_read refines_size refines_extend refines_exists refines_table)

end

section \<open>Sequences of calls\<close>

fun exec_all :: "'w posix \<Rightarrow> dm_cmd list
    \<Rightarrow> (pdm \<times> 'w, (dm_reply, DiskManagerErrorCode) result list) cpp" where
  "exec_all P [] = retc []"
| "exec_all P (c # cs) = bindc (exec P c) (\<lambda>r. bindc (exec_all P cs) (\<lambda>rs. retc (r # rs)))"

fun spec_all :: "dm_cmd list \<Rightarrow> store \<Rightarrow> (dm_reply, DiskManagerErrorCode) result list \<times> store" where
  "spec_all [] st = ([], st)"
| "spec_all (c # cs) st =
     (case spec c st of (r, st') \<Rightarrow> case spec_all cs st' of (rs, st'') \<Rightarrow> (r # rs, st''))"

lemma spec_constants:
  assumes "spec c st = (r, st')"
  shows "st_page st' = st_page st" and "st_limit st' = st_limit st" and "st_dir st' = st_dir st"
    and "st_next st' = st_next st \<or> st_next st' = st_next st + 1"
  using assms
  by (cases c; auto simp: on_disk_def spec_load_def split: option.splits if_splits)+

lemma spec_all_constants:
  "spec_all cs st = (rs, st') \<Longrightarrow> st_page st' = st_page st \<and> st_limit st' = st_limit st \<and> st_dir st' = st_dir st"
proof (induction cs arbitrary: st rs)
  case (Cons c cs)
  then obtain r st1 rs0 where "spec c st = (r, st1)" "spec_all cs st1 = (rs0, st')"
    by (auto split: prod.splits)
  then show ?case using Cons.IH [of st1 rs0] spec_constants [of c st r st1] by simp
qed simp

lemma admissible_page_size: "dm_page_size m' = dm_page_size m \<Longrightarrow> admissible m' c = admissible m c"
  by (cases c) (simp_all add: no_wrap_def)

context posix_reliable begin

text \<open>One call, and what the calls after it can rely on.\<close>

lemma exec_first:
  assumes inv: "store_inv view s" and adm: "\<forall>c \<in> set (c # cs). admissible (fst s) c"
    and ids: "unat (cur_disk_id (fst s)) + length (c # cs) \<le> INT_MAX"
  obtains r s1 where "exec P c s = (Ret r, s1)" and "spec c (store_of view s) = (r, store_of view s1)"
    and "store_inv view s1" and "fds_after c r (view (snd s)) (view (snd s1))"
    and "\<forall>c \<in> set cs. admissible (fst s1) c" and "dm_page_size (fst s1) = dm_page_size (fst s)"
    and "unat (cur_disk_id (fst s1)) \<le> unat (cur_disk_id (fst s)) + 1"
    and "unat (cur_disk_id (fst s1)) + length cs \<le> INT_MAX"
proof -
  obtain m w where s: "s = (m, w)" by (cases s)
  have "refines view P c (m, w)" using assms s by (intro exec_refines) auto
  then obtain r s1 where 1: "exec P c s = (Ret r, s1)" "spec c (store_of view s) = (r, store_of view s1)"
    "store_inv view s1" "fds_after c r (view (snd s)) (view (snd s1))"
    unfolding refines_def s by auto
  from spec_constants [OF 1(2)] have ps: "dm_page_size (fst s1) = dm_page_size (fst s)"
    and next': "cur_disk_id (fst s1) = cur_disk_id (fst s) \<or> cur_disk_id (fst s1) = cur_disk_id (fst s) + 1"
    by (simp_all add: store_of_def word_unat_eq_iff)
  then have id: "unat (cur_disk_id (fst s1)) \<le> unat (cur_disk_id (fst s)) + 1"
    using mod_less_eq_dividend [of "unat (cur_disk_id (fst s)) + 1" "2 ^ 32"]
    by (auto simp: unat_word_ariths)
  have adm': "\<forall>c \<in> set cs. admissible (fst s1) c" using adm admissible_page_size [OF ps] by simp
  have "unat (cur_disk_id (fst s1)) + length cs \<le> INT_MAX" using id ids by simp
  with 1 adm' ps id show thesis by (rule that)
qed

theorem exec_all_refines:
  assumes "store_inv view s" and "\<forall>c \<in> set cs. admissible (fst s) c"
    and "unat (cur_disk_id (fst s)) + length cs \<le> INT_MAX"
  shows "\<exists>rs s'. exec_all P cs s = (Ret rs, s') \<and> spec_all cs (store_of view s) = (rs, store_of view s')
    \<and> store_inv view s' \<and> dm_page_size (fst s') = dm_page_size (fst s)
    \<and> unat (cur_disk_id (fst s')) \<le> unat (cur_disk_id (fst s)) + length cs"
  using assms
proof (induction cs arbitrary: s)
  case Nil
  then show ?case by simp
next
  case (Cons c cs)
  from Cons.prems obtain r s1 where 1: "exec P c s = (Ret r, s1)"
    "spec c (store_of view s) = (r, store_of view s1)" "store_inv view s1"
    "fds_after c r (view (snd s)) (view (snd s1))" "\<forall>c \<in> set cs. admissible (fst s1) c"
    "dm_page_size (fst s1) = dm_page_size (fst s)"
    "unat (cur_disk_id (fst s1)) \<le> unat (cur_disk_id (fst s)) + 1"
    "unat (cur_disk_id (fst s1)) + length cs \<le> INT_MAX" by (rule exec_first)
  from Cons.IH [OF 1(3,5,8)] obtain rs s2 where 2: "exec_all P cs s1 = (Ret rs, s2)"
    "spec_all cs (store_of view s1) = (rs, store_of view s2)" "store_inv view s2"
    "dm_page_size (fst s2) = dm_page_size (fst s1)"
    "unat (cur_disk_id (fst s2)) \<le> unat (cur_disk_id (fst s1)) + length cs" by blast
  have "exec_all P (c # cs) s = (Ret (r # rs), s2)" using 1(1) 2(1) by (simp add: bindc_eqs)
  then show ?case using 2 1(2,6,7) by simp
qed

text \<open>The descriptors that a sequence of calls leaves open.\<close>

theorem exec_all_descriptors:
  assumes "store_inv view s" and "\<forall>c \<in> set cs. admissible (fst s) c"
    and "unat (cur_disk_id (fst s)) + length cs \<le> INT_MAX"
  shows "\<exists>rs s' left. exec_all P cs s = (Ret rs, s') \<and> distinct left
    \<and> length left = length (filter (\<lambda>(c, r). leaks c r) (zip cs rs))
    \<and> set left \<inter> dom (fds (view (snd s))) = {}
    \<and> dom (fds (view (snd s'))) = dom (fds (view (snd s))) \<union> set left"
  using assms
proof (induction cs arbitrary: s)
  case Nil
  then show ?case by simp
next
  case (Cons c cs)
  from Cons.prems obtain r s1 where 1: "exec P c s = (Ret r, s1)"
    "spec c (store_of view s) = (r, store_of view s1)" "store_inv view s1"
    "fds_after c r (view (snd s)) (view (snd s1))" "\<forall>c \<in> set cs. admissible (fst s1) c"
    "dm_page_size (fst s1) = dm_page_size (fst s)"
    "unat (cur_disk_id (fst s1)) \<le> unat (cur_disk_id (fst s)) + 1"
    "unat (cur_disk_id (fst s1)) + length cs \<le> INT_MAX" by (rule exec_first)
  from Cons.IH [OF 1(3,5,8)] obtain rs s2 left where 2: "exec_all P cs s1 = (Ret rs, s2)" "distinct left"
    "length left = length (filter (\<lambda>(c, r). leaks c r) (zip cs rs))"
    "set left \<inter> dom (fds (view (snd s1))) = {}"
    "dom (fds (view (snd s2))) = dom (fds (view (snd s1))) \<union> set left" by blast
  have run: "exec_all P (c # cs) s = (Ret (r # rs), s2)" using 1(1) 2(1) by (simp add: bindc_eqs)
  show ?case
  proof (cases "leaks c r")
    case True
    with 1(4) obtain fd where "fd \<notin> dom (fds (view (snd s)))"
      "dom (fds (view (snd s1))) = insert fd (dom (fds (view (snd s))))" by (auto simp: fds_after_def)
    with run True 2 show ?thesis by (intro exI [of _ "r # rs"] exI [of _ s2] exI [of _ "fd # left"]) auto
  next
    case False
    with 1(4) have "fds (view (snd s1)) = fds (view (snd s))" by (simp add: fds_after_def)
    with run False 2 show ?thesis by (intro exI [of _ "r # rs"] exI [of _ s2] exI [of _ left]) auto
  qed
qed

end

section \<open>A page stays as written\<close>

definition st_page_at :: "store \<Rightarrow> string \<Rightarrow> nat \<Rightarrow> byte list option" where
  "st_page_at st p k = map_option (get_page (st_page st) k) (st_files st p)"

fun disturbs :: "store \<Rightarrow> string \<Rightarrow> nat \<Rightarrow> dm_cmd \<Rightarrow> bool" where
  "disturbs st p k (Write i cur bs) = (st_table st i = Some p \<and> unat cur = k)"
| "disturbs st p k (Destroy i) = (st_table st i = Some p)"
| "disturbs st p k _ = False"

fun undisturbed :: "store \<Rightarrow> string \<Rightarrow> nat \<Rightarrow> dm_cmd list \<Rightarrow> bool" where
  "undisturbed st p k [] = True"
| "undisturbed st p k (c # cs) = (\<not> disturbs st p k c \<and> undisturbed (snd (spec c st)) p k cs)"

definition writes_whole :: "store \<Rightarrow> dm_cmd \<Rightarrow> bool" where
  "writes_whole st c \<longleftrightarrow> (case c of Write i cur bs \<Rightarrow> st_page st \<le> length bs | _ \<Rightarrow> True)"

lemma writes_whole_page: "st_page st' = st_page st \<Longrightarrow> writes_whole st' c = writes_whole st c"
  by (cases c) (simp_all add: writes_whole_def)

lemma spec_keeps_page:
  assumes "st_page_at st p k = Some bs" and "\<not> disturbs st p k c" and "writes_whole st c"
  shows "st_page_at (snd (spec c st)) p k = Some bs"
  using assms
  by (cases c) (auto simp: st_page_at_def on_disk_def spec_load_def writes_whole_def get_page_put_page
      split: option.splits)

lemma spec_all_keeps_page:
  assumes "st_page_at st p k = Some bs" and "undisturbed st p k cs" and "\<forall>c \<in> set cs. writes_whole st c"
  shows "st_page_at (snd (spec_all cs st)) p k = Some bs"
  using assms
proof (induction cs arbitrary: st)
  case (Cons c cs)
  obtain r st' where c: "spec c st = (r, st')" by (cases "spec c st")
  have "st_page_at st' p k = Some bs" using spec_keeps_page [of st p k bs c] Cons.prems c by simp
  moreover have "\<forall>c \<in> set cs. writes_whole st' c"
    using Cons.prems writes_whole_page [OF spec_constants(1) [OF c]] by simp
  ultimately show ?case using Cons.IH [of st'] Cons.prems c
    by (cases "spec_all cs st'") simp
qed simp

end
