(* ===== verification/Disk_Ids.thy ===== *)
theory Disk_Ids
  imports Disk_Store
begin

text \<open>
  The table of disk ids over the life of a manager.  Nothing is asked of the operating
  system here: the calls may fail in any way, and other processes may change the files
  between two calls (\<open>run_env\<close>).  \<open>run\<close> is the relation of the histories: calls that
  returned, with their answers, interleaved with changes of the world.
\<close>

section \<open>What a call does to the manager\<close>

definition ids_ok :: "pdm \<Rightarrow> bool" where
  "ids_ok m \<longleftrightarrow> distinct (map fst (disks m)) \<and> unat (cur_disk_id m) \<le> INT_MAX
     \<and> (\<forall>i \<in> fst ` set (disks m). unat i < unat (cur_disk_id m))"

definition registered :: "string \<Rightarrow> pdm \<Rightarrow> pdm" where
  "registered nm m =
     m\<lparr>disks := AList.update (cur_disk_id m) (get_disk_full_name nm) (disks m),
       cur_disk_id := cur_disk_id m + 1\<rparr>"

definition removed :: "int32 \<Rightarrow> pdm \<Rightarrow> pdm" where
  "removed i m = m\<lparr>disks := AList.delete i (disks m)\<rparr>"

lemma in_scope_manager:
  assumes "in_scope (past_fst dtor) pd body (m, e) = (Ret r, (m', e'))"
  obtains pd1 e1 where "body (pd, m, e) = (Ret r, (pd1, m', e1))"
proof -
  from assms obtain s where "bindc body (\<lambda>r. bindc (past_fst dtor) (\<lambda>_. retc r)) (pd, m, e) = (Ret r, (s, m', e'))"
    by (auto simp: in_scope_def split: prod.splits)
  then obtain a s1 where 1: "body (pd, m, e) = (Ret a, s1)"
    and 2: "bindc (past_fst dtor) (\<lambda>_. retc a) s1 = (Ret r, (s, m', e'))" by (rule bindc_RetE)
  from 2 have "a = r" and 3: "past_fst dtor s1 = (Ret (), (s, m', e'))" by (auto elim!: bindc_RetE)
  moreover obtain pd1 m1 e1 where "s1 = (pd1, m1, e1)" by (cases s1) auto
  ultimately show thesis using 1 3 that by (auto simp: past_fst_iff)
qed

lemma register_disk_Ret:
  "register_disk nm (m, e) = (Ret r, (m', e')) \<Longrightarrow>
    r = Inr (cur_disk_id m) \<and> unat (cur_disk_id m) \<noteq> INT_MAX \<and> m' = registered nm m"
  by (auto simp: register_disk_def registered_def split: if_splits)

lemma load_Ret:
  assumes "load P nm (m, w) = (Ret r, (m', w'))"
  shows "(\<exists>e. r = Inl e) \<and> m' = m
    \<or> r = Inr (cur_disk_id m) \<and> unat (cur_disk_id m) \<noteq> INT_MAX \<and> m' = registered nm m"
proof -
  let ?p = "path_of_file m (get_disk_full_name nm)"
  obtain o1 w1 where 1: "pd_init P ?p True (dm_page_size m) (max_disk_byte_size m) w = (o1, w1)"
    by (metis surj_pair)
  show ?thesis
  proof (cases "\<exists>pd. o1 = Ret (Inr pd)")
    case True
    then obtain pd where "in_scope (past_fst (pd_destructor P)) pd (on_snd (register_disk nm)) (m, w1) =
        (Ret r, (m', w'))"
      using assms 1 by (auto simp: load_def noexcept_Ret_iff bindc_def on_snd_eq)
    then obtain pd1 e1 where "on_snd (register_disk nm) (pd, m, w1) = (Ret r, (pd1, m', e1))"
      by (rule in_scope_manager)
    then show ?thesis using register_disk_Ret by (fastforce simp: on_snd_iff)
  next
    case False
    then show ?thesis using assms 1
      by (auto simp: load_def noexcept_Ret_iff bindc_def on_snd_eq split: outcome.splits sum.splits)
  qed
qed

lemma create_file_manager:
  assumes "create_file P nm (m, w) = (Ret r, (m', w'))"
  shows "m' = m"
proof -
  let ?p = "path_of_file m (get_disk_full_name nm)"
  let ?nop = "retc (Inr ()) :: (posix_disk \<times> pdm \<times> 'a, (unit, DiskManagerErrorCode) result) cpp"
  obtain o1 w1 where 1: "pd_init P ?p False (dm_page_size m) (max_disk_byte_size m) w = (o1, w1)"
    by (metis surj_pair)
  have scope: "m' = m" if "in_scope (past_fst (pd_destructor P)) pd ?nop (m, w1) = (Ret r, (m', w'))" for pd
    using that by (rule in_scope_manager) simp
  show ?thesis using assms 1 scope
    by (auto simp: create_file_def bindc_def on_snd_eq split: outcome.splits sum.splits)
qed

lemma create_Ret:
  assumes "create P nm (m, w) = (Ret r, (m', w'))"
  shows "(\<exists>e. r = Inl e) \<and> m' = m
    \<or> r = Inr (cur_disk_id m) \<and> unat (cur_disk_id m) \<noteq> INT_MAX \<and> m' = registered nm m"
proof -
  have "prop_if_error (create_file P nm) (load P nm) (m, w) = (Ret r, (m', w'))"
    using assms by (simp add: create_def noexcept_Ret_iff)
  then obtain a s1 where 1: "create_file P nm (m, w) = (Ret a, s1)"
    and 2: "(if is_error a then bindc (create_file P nm) (\<lambda>r2. bindc (liftc (get_error r2)) (\<lambda>e. retc (Inl e)))
       else load P nm) s1 = (Ret r, (m', w'))"
    unfolding prop_if_error_def by (rule bindc_RetE)
  obtain w1 where s1: "s1 = (m, w1)" using create_file_manager [of P nm m w a] 1 by (cases s1) auto
  show ?thesis
  proof (cases "is_error a")
    case True
    with 2 s1 obtain b s2 where 3: "create_file P nm (m, w1) = (Ret b, s2)"
      and 4: "bindc (liftc (get_error b)) (\<lambda>e. retc (Inl e)) s2 = (Ret r, (m', w'))"
      by (auto elim: bindc_RetE)
    obtain w2 where "s2 = (m, w2)" using create_file_manager [of P nm m w1 b] 3 by (cases s2) auto
    with 4 show ?thesis by (cases b) (auto simp: bindc_def)
  next
    case False
    with 2 s1 have "load P nm (m, w1) = (Ret r, (m', w'))" by simp
    then show ?thesis by (rule load_Ret)
  qed
qed

lemma unload_Ret:
  "unload i (m, e) = (Ret r, (m', e')) \<Longrightarrow> m' = m \<or> m' = removed i m"
  by (auto simp: unload_run removed_def split: if_splits)

definition may_remove :: "int32 \<Rightarrow> 'p \<times> pdm \<times> 'e \<Rightarrow> 'p \<times> pdm \<times> 'e \<Rightarrow> bool" where
  "may_remove i s s' \<longleftrightarrow> fst (snd s') = fst (snd s) \<or> fst (snd s') = removed i (fst (snd s))"

lemma destroy_Ret:
  assumes "destroy P i (m, w) = (Ret r, (m', w'))"
  shows "m' = m \<or> m' = removed i m"
proof (cases "disk_path m i")
  case None
  then show ?thesis using assms by (simp add: destroy_def with_disk_unloaded noexcept_def)
next
  case (Some p)
  let ?R = "may_remove i"
  have un: "keeps ?R (on_snd (unload i))"
    by (rule keepsI) (auto simp: on_snd_iff unload_run may_remove_def removed_def split: if_splits)
  have R: "reflp ?R" "transp ?R"
    by (auto simp: reflp_def transp_def may_remove_def removed_def delete_idem)
  have body: "keeps ?R (prop_if_error (past_fst (pd_destroy P))
      (prop_if_error (on_snd (unload i)) (retc (Inr ()))))"
    by (intro keeps_prop_if_error keeps_retc R un keepsI) (auto simp: past_fst_iff may_remove_def)
  obtain o1 w1 where 1: "init_for P p m w = (o1, w1)" by (metis surj_pair)
  show ?thesis
  proof (cases "\<exists>pd. o1 = Ret (Inr pd)")
    case True
    then obtain pd where sc: "in_scope (past_fst (pd_destructor P)) pd (prop_if_error (past_fst (pd_destroy P))
        (prop_if_error (on_snd (unload i)) (retc (Inr ())))) (m, w1) = (Ret r, (m', w'))"
      using assms 1 by (auto simp: destroy_def noexcept_Ret_iff with_disk_loaded [OF Some] bindc_def on_snd_eq)
    have "keeps ?R (past_fst (pd_destructor P))" by (rule keepsI) (auto simp: past_fst_iff may_remove_def)
    with sc R body obtain pd' where "?R (pd, m, w1) (pd', m', w')" by (rule in_scope_keeps)
    then show ?thesis by (simp add: may_remove_def)
  next
    case False
    then show ?thesis using assms 1
      by (auto simp: destroy_def noexcept_Ret_iff with_disk_loaded [OF Some] bindc_def on_snd_eq
          split: outcome.splits sum.splits)
  qed
qed

text \<open>The calls that leave the manager alone.\<close>

lemma write_manager: "pdm_write P i cur bs (m, w) = (out, (m', w')) \<Longrightarrow> m' = m"
  using with_disk_same_manager [OF same_manager_then]
  by (auto simp: pdm_write_def noexcept_def split: prod.splits outcome.splits)

lemma read_manager: "pdm_read P i cur (m, buf, w) = (out, (m', buf', w')) \<Longrightarrow> m' = m"
  using with_disk_same_manager [OF same_manager_then]
  by (auto simp: pdm_read_def noexcept_def split: prod.splits outcome.splits)

lemma size_manager: "disk_byte_size P i (m, w) = (out, (m', w')) \<Longrightarrow> m' = m"
  using with_disk_same_manager [OF same_manager_past_fst]
  by (auto simp: disk_byte_size_def noexcept_def split: prod.splits outcome.splits)

lemma extend_manager: "Posix_Disk_Manager.extend P i (m, w) = (out, (m', w')) \<Longrightarrow> m' = m"
proof -
  assume run: "Posix_Disk_Manager.extend P i (m, w) = (out, (m', w'))"
  let ?R = "\<lambda>s s'. fst s' = fst s"
  have R: "reflp ?R" "transp ?R" by (simp_all add: reflp_def transp_def)
  have size: "keeps ?R (disk_byte_size P i)" by (rule keepsI) (auto dest: size_manager)
  have "keeps ?R (Posix_Disk_Manager.extend P i)"
    unfolding Posix_Disk_Manager.extend_def
    by (intro keeps_noexcept keeps_unwrap_or_prop_error R size) (auto intro!: keeps_bindc keeps_getc keeps_liftc keeps_retc R)
  then show ?thesis using run by (auto dest: keepsD)
qed

lemma exists_manager: "pdm_exists P nm (m, w) = (out, (m', w')) \<Longrightarrow> m' = m"
  by (auto simp: pdm_exists_def noexcept_def on_snd_def zoom_def split: prod.splits outcome.splits)

lemma num_loaded_run: "num_loaded_disks (m, e) = (Ret (Inr (of_nat (length (disks m)))), (m, e))"
  by (simp add: num_loaded_disks_def noexcept_def)

lemmas manager_calls = write_manager read_manager size_manager extend_manager exists_manager

lemma replies_Ret:
  assumes "replies f m s = (Ret r, s')"
  obtains r0 where "m s = (Ret r0, s')" and "r = map_sum id f r0"
  using assms by (auto simp: replies_def elim!: bindc_RetE)

fun opens :: "dm_cmd \<Rightarrow> string option" where
  "opens (Create nm) = Some nm"
| "opens (Load nm) = Some nm"
| "opens _ = None"

text \<open>Everything a call that returns can do to the table of ids.\<close>

lemma exec_manager:
  assumes "exec P c (m, w) = (Ret r, (m', w'))"
  shows "(case opens c of
      Some nm \<Rightarrow> (\<exists>e. r = Inl e) \<and> m' = m
        \<or> r = Inr (R_Id (cur_disk_id m)) \<and> unat (cur_disk_id m) \<noteq> INT_MAX \<and> m' = registered nm m
    | None \<Rightarrow> m' = m \<or> (\<exists>i. m' = removed i m))"
  using assms
proof (cases c)
  case (Read i cur buf)
  then show ?thesis using assms
    by (auto simp: read_into_def obind_eq_Ret split: prod.splits dest: read_manager)
next
  case (Create nm)
  with assms obtain r0 where "create P nm (m, w) = (Ret r0, (m', w'))" "r = map_sum id R_Id r0"
    by (auto elim: replies_Ret)
  then show ?thesis using Create create_Ret by fastforce
next
  case (Load nm)
  with assms obtain r0 where "load P nm (m, w) = (Ret r0, (m', w'))" "r = map_sum id R_Id r0"
    by (auto elim: replies_Ret)
  then show ?thesis using Load load_Ret by fastforce
qed (auto elim!: replies_Ret dest: manager_calls unload_Ret destroy_Ret
    simp: is_loaded_run loaded_disk_name_run num_loaded_run)

section \<open>Histories\<close>

inductive run :: "'w posix \<Rightarrow> pdm \<times> 'w \<Rightarrow> (dm_cmd \<times> (dm_reply, DiskManagerErrorCode) result) list
    \<Rightarrow> pdm \<times> 'w \<Rightarrow> bool" for P where
  run_start: "run P s [] s"
| run_call: "run P s h (m, w) \<Longrightarrow> exec P c (m, w) = (Ret r, s') \<Longrightarrow> run P s (h @ [(c, r)]) s'"
| run_env: "run P s h (m, w) \<Longrightarrow> run P s h (m, w')"

inductive_cases run_startE: "run P s [] s'"

fun issued :: "(dm_cmd \<times> (dm_reply, DiskManagerErrorCode) result) list \<Rightarrow> int32 list" where
  "issued [] = []"
| "issued ((c, r) # h) =
     (case (opens c, r) of (Some _, Inr (R_Id i)) \<Rightarrow> i # issued h | _ \<Rightarrow> issued h)"

lemma issued_append: "issued (h @ h') = issued h @ issued h'"
  by (induction h rule: issued.induct) (auto split: option.splits sum.splits dm_reply.splits)

lemma set_update_subset: "fst ` set (AList.update k v xs) = insert k (fst ` set xs)"
  using dom_update [of k v xs] by (simp add: dom_map_of_conv_image_fst)

lemma ids_ok_registered:
  assumes "ids_ok m" and "unat (cur_disk_id m) \<noteq> INT_MAX"
  shows "ids_ok (registered nm m)" and "unat (cur_disk_id (registered nm m)) = unat (cur_disk_id m) + 1"
proof -
  show next': "unat (cur_disk_id (registered nm m)) = unat (cur_disk_id m) + 1"
    using assms by (simp add: registered_def ids_ok_def unat_add_uint)
  show "ids_ok (registered nm m)"
    using assms next'
    by (auto simp: ids_ok_def registered_def set_update_subset distinct_update less_Suc_eq)
qed

lemma ids_ok_removed: "ids_ok m \<Longrightarrow> ids_ok (removed i m)"
  unfolding ids_ok_def removed_def by (simp add: delete_keys distinct_removeAll flip: set_map)

lemma ids_ok_exec:
  assumes "exec P c (m, w) = (Ret r, (m', w'))" and "ids_ok m"
  shows "ids_ok m' \<and> (issued [(c, r)] = [] \<and> unat (cur_disk_id m') = unat (cur_disk_id m)
    \<or> issued [(c, r)] = [cur_disk_id m] \<and> unat (cur_disk_id m') = unat (cur_disk_id m) + 1)"
  using exec_manager [OF assms(1)] assms(2) ids_ok_registered ids_ok_removed
  by (auto split: option.splits simp: removed_def)

lemma run_ids:
  assumes "run P (m0, w0) h (m, w)" and "ids_ok m0"
  shows "ids_ok m \<and> unat (cur_disk_id m0) \<le> unat (cur_disk_id m)
    \<and> sorted_wrt (\<lambda>i j. unat i < unat j) (issued h)
    \<and> (\<forall>i \<in> set (issued h). unat (cur_disk_id m0) \<le> unat i \<and> unat i < unat (cur_disk_id m))"
  using assms
proof (induction "(m0, w0)" h "(m, w)" arbitrary: m w rule: run.induct)
  case (run_call h m1 w1 c r)
  then have IH: "ids_ok m1" "unat (cur_disk_id m0) \<le> unat (cur_disk_id m1)"
    "sorted_wrt (\<lambda>i j. unat i < unat j) (issued h)"
    "\<forall>i \<in> set (issued h). unat (cur_disk_id m0) \<le> unat i \<and> unat i < unat (cur_disk_id m1)" by auto
  from ids_ok_exec [OF run_call(3) IH(1)] IH show ?case
    by (auto simp: issued_append sorted_wrt_append intro: less_SucI)
qed simp_all

end
