(* ===== verification/Disk_Torn.thy ===== *)
theory Disk_Torn
  imports Disk_Manager_Frame
begin

text \<open>
  A write that is cut short.  On a system whose calls may fail, or write only a part of their
  bytes (\<open>posix_fs\<close>), the other pages of the disk stay as they were, on every outcome.
\<close>

section \<open>Pages that a partial write leaves\<close>

definition page_frame :: "nat \<Rightarrow> nat \<Rightarrow> byte list \<Rightarrow> byte list \<Rightarrow> bool" where
  \<comment> \<open>only page \<open>k\<close> may have changed; the file did not shrink, nor grow past the page\<close>
  "page_frame ps k xs xs' \<longleftrightarrow> length xs \<le> length xs' \<and> length xs' \<le> max (length xs) (k * ps + ps)
     \<and> (\<forall>j. j \<noteq> k \<longrightarrow> get_page ps j xs' = get_page ps j xs)"

lemma page_frame_refl [simp]: "page_frame ps k xs xs"
  by (simp add: page_frame_def)

lemma page_frame_trans [trans]:
  "page_frame ps k xs ys \<Longrightarrow> page_frame ps k ys zs \<Longrightarrow> page_frame ps k xs zs"
  by (auto simp: page_frame_def)

lemma page_frame_grow: "page_frame ps k xs (grow ps k xs)"
  by (simp add: page_frame_def)

lemma length_put_bytes:
  "length (put_bytes off bs xs) = (if bs = [] then length xs else max (off + length bs) (length xs))"
  by (simp add: put_bytes_def)

lemma page_frame_put:
  assumes "length bs \<le> ps"
  shows "page_frame ps k xs (put_bytes (k * ps) bs xs)"
proof -
  have "get_page ps j (put_bytes (k * ps) bs xs) = get_page ps j xs" if "j \<noteq> k" for j
  proof (rule nth_equalityI)
    fix i
    assume "i < length (get_page ps j (put_bytes (k * ps) bs xs))"
    then have i: "i < ps" by simp
    show "get_page ps j (put_bytes (k * ps) bs xs) ! i = get_page ps j xs ! i"
      using i assms page_disjoint [OF that i]
      by (auto simp: nth_get_page put_bytes_def nth_overwrite nth_extend_to)
  qed simp
  then show ?thesis using assms by (auto simp: page_frame_def length_put_bytes)
qed

section \<open>The methods of a disk\<close>

definition open_on :: "fs_view \<Rightarrow> posix_disk \<Rightarrow> nat \<Rightarrow> bool" where
  \<comment> \<open>the path and the descriptor of the disk lead to the inode \<open>i\<close>, a file of less than 4 GB\<close>
  "open_on v pd i \<longleftrightarrow> names v (m_file_path pd) = Some i \<and> (\<exists>off. fds v (m_fd pd) = Some (i, off))
     \<and> length (contents v i) < 4294967296"

definition spares :: "('e \<Rightarrow> fs_view) \<Rightarrow> nat \<Rightarrow> nat \<Rightarrow> posix_disk \<times> 'e \<Rightarrow> posix_disk \<times> 'e \<Rightarrow> bool" where
  "spares vw i k s s' \<longleftrightarrow>
     (open_on (vw (snd s)) (fst s) i \<longrightarrow> k * unat (m_page_size (fst s)) + unat (m_page_size (fst s)) < 4294967296 \<longrightarrow>
        fst s' = fst s \<and> open_on (vw (snd s')) (fst s) i \<and>
        page_frame (unat (m_page_size (fst s))) k (contents (vw (snd s)) i) (contents (vw (snd s')) i))"

lemma spares_refl [simp]: "reflp (spares vw i k)"
  by (simp add: reflp_def spares_def)

lemma spares_trans [simp]: "transp (spares vw i k)"
  by (auto simp: transp_def spares_def intro: page_frame_trans)

lemma keeps_at_fault [simp]: "reflp R \<Longrightarrow> keeps_at R (bindc (liftc (Fault f)) k) s"
  by (simp add: keeps_at_def bindc_def reflpD)

lemma spares_past_fst: "keeps (spares vw i k) m \<Longrightarrow> keeps (spares (vw \<circ> snd) i k) (past_fst m)"
  by (rule keepsI) (fastforce simp: past_fst_iff spares_def dest: keepsD)

context posix_fs begin

lemma pd_size_sound:
  assumes "pd_get_disk_byte_size P (pd, w) = (out, (pd', w'))"
  shows "pd' = pd \<and> view w' = view w"
    and "out = Ret (Inr n) \<Longrightarrow> names (view w) (m_file_path pd) = Some i \<Longrightarrow> n = of_nat (length (contents (view w) i))"
  using assms stat_law [of "m_file_path pd" w, OF surjective_pairing]
  by (auto simp: pd_get_disk_byte_size_def run_simps noexcept_def file_at_def
      split: prod.splits sum.splits if_splits outcome.splits)

lemma pd_sync_view: "pd_sync P (pd, w) = (out, (pd', w')) \<Longrightarrow> pd' = pd \<and> view w' = view w"
  using fsync_law [of "m_fd pd" w, OF surjective_pairing]
  by (auto simp: pd_sync_def run_simps noexcept_def split: prod.splits sum.splits if_splits outcome.splits)

lemma spares_pd_sync: "keeps (spares view i k) (pd_sync P)"
  by (rule keepsI) (auto simp: spares_def split_paired_all dest!: pd_sync_view)

lemma pd_seek_sound:
  assumes "pd_seek P pos (pd, w) = (out, (pd', w'))" and "fds (view w) (m_fd pd) = Some (i, off)"
  shows "pd' = pd \<and> names (view w') = names (view w) \<and> contents (view w') = contents (view w)
    \<and> (\<exists>off'. fds (view w') (m_fd pd) = Some (i, off'))
    \<and> (out = Ret (Inr ()) \<longrightarrow> fds (view w') (m_fd pd) = Some (i, unat pos))"
  using assms lseek_law [of "m_fd pd" "unat pos" w, OF surjective_pairing]
  by (auto simp: pd_seek_def run_simps noexcept_def Let_def
      split: prod.splits sum.splits if_splits outcome.splits)

lemma spares_pd_seek: "keeps (spares view i k) (pd_seek P pos)"
proof (rule keepsI)
  fix s out s'
  assume run: "pd_seek P pos s = (out, s')"
  obtain pd w pd' w' where s: "s = (pd, w)" "s' = (pd', w')" by (metis surj_pair)
  have "pd' = pd" using run by (auto simp: s pd_seek_def run_simps noexcept_def Let_def
      split: prod.splits if_splits outcome.splits)
  moreover have "open_on (view w') pd i \<and> contents (view w') = contents (view w)" if op: "open_on (view w) pd i"
  proof -
    obtain off where "fds (view w) (m_fd pd) = Some (i, off)" using op by (auto simp: open_on_def)
    with run op show ?thesis unfolding s by (auto simp: open_on_def dest: pd_seek_sound)
  qed
  ultimately show "spares view i k s s'" by (auto simp: spares_def s)
qed

lemma spares_sys_truncate:
  assumes "sys_truncate P (m_file_path pd) n w = (r, w')" and "open_on (view w) pd i"
    and "length (contents (view w) i) \<le> n" and "n = k * unat (m_page_size pd) + unat (m_page_size pd)" "n < 4294967296"
  shows "open_on (view w') pd i
    \<and> page_frame (unat (m_page_size pd)) k (contents (view w) i) (contents (view w') i)"
proof -
  let ?ps = "unat (m_page_size pd)" and ?xs = "contents (view w) i"
  have name: "names (view w) (m_file_path pd) = Some i" using assms(2) by (simp add: open_on_def)
  have "view w' = view w \<or> view w' = fs_set i (grow ?ps k ?xs) (view w)"
    using truncate_law [OF assms(1)] name assms(3,4)
    by (auto simp: resize_to_extend grow_def split: sum.splits)
  then show ?thesis using assms page_frame_grow [of ?ps k ?xs] by (auto simp: open_on_def)
qed

lemma spares_pd_truncate:
  assumes "pd_truncate P n (pd, w) = (out, (pd', w'))" and "open_on (view w) pd i"
    and "length (contents (view w) i) \<le> unat n" and "unat n = k * unat (m_page_size pd) + unat (m_page_size pd)"
  shows "pd' = pd \<and> open_on (view w') pd i
    \<and> page_frame (unat (m_page_size pd)) k (contents (view w) i) (contents (view w') i)"
proof -
  obtain r w1 where 1: "sys_truncate P (m_file_path pd) (unat n) w = (r, w1)"
    by (cases "sys_truncate P (m_file_path pd) (unat n) w")
  have step: "open_on (view w1) pd i
      \<and> page_frame (unat (m_page_size pd)) k (contents (view w) i) (contents (view w1) i)"
    using 1 assms(2-4) by (rule spares_sys_truncate) simp
  have fits: "k * unat (m_page_size pd) + unat (m_page_size pd) < 4294967296"
    using unat_uint_less [of n] unfolding assms(4) .
  show ?thesis
  proof (cases r)
    case (Inl e)
    then have "(pd', w') = (pd, w1)" using assms(1) 1 by (simp add: pd_truncate_def run_simps)
    then show ?thesis using step by simp
  next
    case (Inr u)
    let ?m = "prop_if_error (pd_sync P) (retc (Inr ())) ::
      (posix_disk \<times> 'w, (unit, DiskManagerErrorCode) result) cpp"
    have "snd (?m (pd, w1)) = (pd', w')"
      using assms(1) 1 Inr by (auto simp: pd_truncate_def run_simps noexcept_def split: prod.splits outcome.splits)
    moreover have "keeps (spares view i k) ?m" by (intro cpp_intros spares_pd_sync) simp_all
    ultimately have "spares view i k (pd, w1) (pd', w')" by (metis keeps_def)
    then show ?thesis using step fits by (auto simp: spares_def intro: page_frame_trans)
  qed
qed

lemma pd_grow_to_spares:
  assumes run: "pd_grow_to P n new (pd, w) = (out, (pd', w'))" and op: "open_on (view w) pd i"
    and n: "n = of_nat (length (contents (view w) i))"
    and new: "unat new = k * unat (m_page_size pd) + unat (m_page_size pd)"
  shows "pd' = pd \<and> open_on (view w') pd i
    \<and> page_frame (unat (m_page_size pd)) k (contents (view w) i) (contents (view w') i)"
proof (cases "n < new")
  case True
  then have "length (contents (view w) i) \<le> unat new"
    using n op by (simp add: open_on_def word_less_nat_alt unat_of_nat_uint)
  moreover obtain o2 where "pd_truncate P new (pd, w) = (o2, (pd', w'))"
    using run True by (auto simp: pd_grow_to_def bindc_def split: prod.splits outcome.splits)
  ultimately show ?thesis using op new by (intro spares_pd_truncate)
qed (use run op in \<open>simp add: pd_grow_to_def\<close>)

lemma pd_prepare_sized_spares:
  assumes run: "pd_prepare_sized P cur n (pd, w) = (out, (pd', w'))" and op: "open_on (view w) pd i"
    and n: "n = of_nat (length (contents (view w) i))"
    and fits: "unat cur * unat (m_page_size pd) + unat (m_page_size pd) < 4294967296"
  shows "spares view i (unat cur) (pd, w) (pd', w')"
    and "out = Ret (Inr ()) \<Longrightarrow> fds (view w') (m_fd pd) = Some (i, unat cur * unat (m_page_size pd))"
proof -
  let ?ps = "m_page_size pd" and ?xs = "contents (view w) i"
  let ?off = "cur * ?ps"
  have words: "unat ?off = unat cur * unat ?ps" "unat (?off + ?ps) = unat cur * unat ?ps + unat ?ps"
    using fits by (simp_all add: unat_word_ariths)
  have main: "spares view i (unat cur) (pd, w) (pd', w')
    \<and> (out = Ret (Inr ()) \<longrightarrow> fds (view w') (m_fd pd) = Some (i, unat cur * unat ?ps))"
  proof (cases "m_max_disk_size pd \<le> ?off + ?ps")
    case True
    then show ?thesis using run by (auto simp: pd_prepare_sized_def Let_def spares_def)
  next
    case False
    obtain o1 pd1 w1 where 1: "pd_grow_to P n (?off + ?ps) (pd, w) = (o1, (pd1, w1))"
      by (metis surj_pair)
    have g: "pd1 = pd \<and> open_on (view w1) pd i
        \<and> page_frame (unat ?ps) (unat cur) ?xs (contents (view w1) i)"
      using 1 op n words(2) by (rule pd_grow_to_spares)
    then have sp1: "spares view i (unat cur) (pd, w) (pd, w1)" using op by (simp add: spares_def)
    let ?seek = "prop_if_error (pd_seek P ?off) (retc (Inr ()))
      :: (posix_disk \<times> 'w, (unit, DiskManagerErrorCode) result) cpp"
    show ?thesis
    proof (cases o1)
      case (Ret u)
      then have sk: "?seek (pd, w1) = (out, (pd', w'))"
        using run False 1 g by (simp add: pd_prepare_sized_def Let_def bindc_eqs)
      have "keeps (spares view i (unat cur)) ?seek" by (intro cpp_intros spares_pd_seek) simp_all
      then have "spares view i (unat cur) (pd, w1) (pd', w')" using sk by (rule keepsD)
      then have "spares view i (unat cur) (pd, w) (pd', w')" using sp1 spares_trans by (metis transpD)
      moreover have "fds (view w') (m_fd pd) = Some (i, unat cur * unat ?ps)" if "out = Ret (Inr ())"
        using sk
      proof (cases rule: prop_if_errorE)
        case (1 v s1)
        then have "pd_seek P ?off (pd, w1) = (Ret (Inr ()), (pd', w'))" by simp
        moreover obtain off where "fds (view w1) (m_fd pd) = Some (i, off)" using g by (auto simp: open_on_def)
        ultimately show ?thesis using pd_seek_sound words(1) by metis
      qed (use that in auto)
      ultimately show ?thesis by blast
    qed (use run False 1 g sp1 in \<open>auto simp: pd_prepare_sized_def Let_def bindc_eqs\<close>)
  qed
  then show "spares view i (unat cur) (pd, w) (pd', w')" by blast
  show "out = Ret (Inr ()) \<Longrightarrow> fds (view w') (m_fd pd) = Some (i, unat cur * unat ?ps)" using main by blast
qed

lemma pd_prepare_rw_spares:
  assumes run: "pd_prepare_rw P cur (pd, w) = (out, (pd', w'))" and op: "open_on (view w) pd i"
    and fits: "unat cur * unat (m_page_size pd) + unat (m_page_size pd) < 4294967296"
  shows "spares view i (unat cur) (pd, w) (pd', w')"
    and "out = Ret (Inr ()) \<Longrightarrow> fds (view w') (m_fd pd) = Some (i, unat cur * unat (m_page_size pd))"
proof -
  obtain o1 where u: "unwrap_or_prop_error dm_what (pd_get_disk_byte_size P) (pd_prepare_sized P cur) (pd, w)
      = (o1, (pd', w'))" and o1: "out = Ret (Inr ()) \<Longrightarrow> o1 = Ret (Inr ())"
    using run by (auto simp: pd_prepare_rw_def noexcept_def split: prod.splits outcome.splits)
  have same: "snd s = w1 \<Longrightarrow> fst s = pd \<Longrightarrow> view w1 = view w \<Longrightarrow> spares view i (unat cur) (pd, w) s" for s w1
    using op by (cases s) (simp add: spares_def open_on_def)
  from u have "spares view i (unat cur) (pd, w) (pd', w')
    \<and> (out = Ret (Inr ()) \<longrightarrow> fds (view w') (m_fd pd) = Some (i, unat cur * unat (m_page_size pd)))"
  proof (cases rule: unwrapE)
    case (1 v v' s1 s2)
    obtain w1 w2 where s: "s1 = (pd, w1)" "s2 = (pd, w2)" "view w1 = view w" "view w2 = view w"
      using 1(1,2) pd_size_sound(1) by (metis surj_pair)
    have name: "names (view w1) (m_file_path pd) = Some i" using op s(3) by (simp add: open_on_def)
    have v': "v' = of_nat (length (contents (view w2) i))"
      using pd_size_sound(2) [OF 1(2) [unfolded s] refl name] s(3,4) by simp
    have k: "pd_prepare_sized P cur v' (pd, w2) = (o1, (pd', w'))" using 1(3) s by simp
    have op2: "open_on (view w2) pd i" using op s(4) by simp
    note K = pd_prepare_sized_spares [OF k op2 v' fits]
    have "spares view i (unat cur) (pd, w) (pd', w')" using K(1) s(4) by (simp add: spares_def)
    then show ?thesis using K(2) o1 by blast
  next
    case (2 o2)
    then show ?thesis using o1 same pd_size_sound(1) by (metis fst_conv snd_conv)
  next
    case (3 o2 s1 o3)
    obtain w1 where s1: "s1 = (pd, w1)" "view w1 = view w" using 3(1) pd_size_sound(1) by (metis surj_pair)
    then have "pd' = pd" "view w' = view w" using 3(2) pd_size_sound(1) by metis+
    then show ?thesis using 3(3) o1 same [of "(pd', w')" w'] by auto
  qed
  then show "spares view i (unat cur) (pd, w) (pd', w')"
    and "out = Ret (Inr ()) \<Longrightarrow> fds (view w') (m_fd pd) = Some (i, unat cur * unat (m_page_size pd))" by blast+
qed

text \<open>The write itself may store any part of the page.\<close>

lemma spares_sys_write:
  assumes "sys_write P (m_fd pd) bs w = (r, w')" and "open_on (view w) pd i"
    and "fds (view w) (m_fd pd) = Some (i, k * unat (m_page_size pd))" and "length bs \<le> unat (m_page_size pd)"
  shows "spares view i k (pd, w) (pd, w')"
proof (cases r)
  case (Inl e)
  then show ?thesis using write_law [OF assms(1)] assms(3) by (simp add: spares_def)
next
  case (Inr n)
  let ?ps = "unat (m_page_size pd)" and ?xs = "contents (view w) i"
  have v: "view w' = fs_seek (m_fd pd) i (k * ?ps + n) (fs_set i (put_bytes (k * ?ps) (take n bs) ?xs) (view w))"
    using write_law [OF assms(1)] assms(3) Inr by simp
  have "page_frame ?ps k ?xs (put_bytes (k * ?ps) (take n bs) ?xs)"
    using assms(4) by (intro page_frame_put) simp
  then show ?thesis using assms(2) by (auto simp: spares_def v open_on_def page_frame_def)
qed

lemma spares_pd_write_data:
  assumes op: "open_on (view w) pd i" and off: "fds (view w) (m_fd pd) = Some (i, k * unat (m_page_size pd))"
    and bs: "length bs = unat (m_page_size pd)"
    and fits: "k * unat (m_page_size pd) + unat (m_page_size pd) < 4294967296"
  shows "keeps_at (spares view i k) (bindc (on_snd (posix_call (sys_write P (m_fd pd) bs))) (\<lambda>res.
      if f res then retc (Inl e) else prop_if_error (pd_sync P) (retc (Inr ())))) (pd, w)"
proof -
  obtain r w1 where w1: "sys_write P (m_fd pd) bs w = (r, w1)" by (cases "sys_write P (m_fd pd) bs w")
  have "spares view i k (pd, w) (pd, w1)" using w1 op off by (rule spares_sys_write) (simp only: bs order_refl)
  then have 1: "keeps_at (spares view i k) (on_snd (posix_call (sys_write P (m_fd pd) bs))) (pd, w)"
    using w1 by (simp add: keeps_at_def on_snd_eq posix_call_eq)
  have 2: "keeps (spares view i k) (if b then retc (Inl e) else prop_if_error (pd_sync P) (retc (Inr ())))" for b
    by (auto intro!: cpp_intros spares_pd_sync)
  show ?thesis by (rule keeps_at_bindc [OF spares_trans 1]) (rule keeps_at_keeps, rule 2)
qed

lemma spares_pd_write: "keeps (spares view i (unat cur)) (pd_write P cur data)"
proof (rule keepsI)
  fix s out s'
  assume run: "pd_write P cur data s = (out, s')"
  obtain pd w where s: "s = (pd, w)" by (cases s)
  let ?R = "spares view i (unat cur)" and ?ps = "m_page_size pd"
  show "?R s s'"
  proof (cases "open_on (view w) pd i \<and> unat cur * unat ?ps + unat ?ps < 4294967296")
    case False
    then show ?thesis by (auto simp: spares_def s)
  next
    case op: True
    have prep: "?R (pd, u) t" if "pd_prepare_rw P cur (pd, u) = (o1, t)" "open_on (view u) pd i" for u o1 t
      using that op pd_prepare_rw_spares(1) by (metis surj_pair)
    let ?rest = "bindc (getc fst) (\<lambda>pd.
     bindc (liftc (mem_read data 0 (unat (m_page_size pd)))) (\<lambda>bytes.
     bindc (on_snd (posix_call (sys_write P (m_fd pd) bytes))) (\<lambda>res.
       let num_bytes = (case res of Inl _ \<Rightarrow> - 1 | Inr n \<Rightarrow> of_nat n) :: uint in
       if num_bytes \<noteq> m_page_size pd then retc (Inl UNKOWN_ERROR)
       else prop_if_error (pd_sync P) (retc (Inr ())))))
      :: (posix_disk \<times> 'w, (unit, DiskManagerErrorCode) result) cpp"
    obtain o1 where "prop_if_error (pd_prepare_rw P cur) ?rest (pd, w) = (o1, s')"
      using run by (auto simp: pd_write_def noexcept_def s split: prod.splits outcome.splits)
    then show ?thesis
    proof (cases rule: prop_if_errorE)
      case (1 v s1)
      have R1: "?R (pd, w) s1" using prep [OF 1(1)] op by simp
      then obtain w1 where s1: "s1 = (pd, w1)" "open_on (view w1) pd i"
        using op by (cases s1) (simp add: spares_def)
      then have off: "fds (view w1) (m_fd pd) = Some (i, unat cur * unat ?ps)"
        using pd_prepare_rw_spares(2) [of cur pd w "Ret (Inr ())" pd w1 i] 1(1) op by simp
      have "keeps_at ?R ?rest (pd, w1)"
        using s1(2) off op
        by (cases "unat ?ps \<le> length data")
          (auto simp: mem_read_def Let_def intro!: spares_pd_write_data)
      then have "?R s1 s'" using 1(2) s1(1) by (simp add: keeps_at_def)
      with R1 show ?thesis unfolding s by (rule transpD [OF spares_trans])
    next
      case (2 o2)
      then show ?thesis using prep op unfolding s by blast
    next
      case (3 o2 s1 o3)
      have R1: "?R (pd, w) s1" using prep [OF 3(1)] op by simp
      then obtain w1 where s1: "s1 = (pd, w1)" "open_on (view w1) pd i"
        using op by (cases s1) (simp add: spares_def)
      then have "?R s1 s'" using prep [of w1 o3 s'] 3(2) by simp
      with R1 show ?thesis unfolding s by (rule transpD [OF spares_trans])
    qed
  qed
qed

end

section \<open>A write through the manager\<close>

definition same_files :: "fs_view \<Rightarrow> fs_view \<Rightarrow> bool" where
  "same_files v v' \<longleftrightarrow> names v' = names v \<and> contents v' = contents v"

lemma same_files_refl [simp]: "same_files v v"
  by (simp add: same_files_def)

lemma in_scopeE:
  assumes "in_scope dtor obj body s = (out, s')"
  obtains o1 t where "body (obj, s) = (o1, t)" and "snd t = s' \<or> (\<exists>o2 obj'. dtor t = (o2, (obj', s')))"
proof -
  obtain o1 t where 1: "body (obj, s) = (o1, t)" by (cases "body (obj, s)")
  have "snd t = s' \<or> (\<exists>o2 obj'. dtor t = (o2, (obj', s')))"
    using assms 1 by (cases "dtor t") (auto simp: in_scope_def bindc_def split: outcome.splits prod.splits)
  with 1 show thesis by (rule that)
qed

context posix_fs begin

lemma pd_destructor_files:
  assumes "pd_destructor P (pd, w) = (out, (pd', w'))"
  shows "same_files (view w) (view w')"
  using assms close_law [of "m_fd pd" w, OF surjective_pairing]
  by (auto simp: pd_destructor_def pd_close_def run_simps noexcept_def same_files_def apfst_def map_prod_def
      bindc_def oassert_def split: prod.splits sum.splits if_splits outcome.splits)

lemma pd_init_files:
  assumes run: "pd_init P p True ps mx w = (out, w')" and name: "names (view w) p = Some i"
  shows "same_files (view w) (view w')"
    and "out = Ret (Inr pd) \<Longrightarrow> m_file_path pd = p \<and> m_page_size pd = ps \<and> fds (view w') (m_fd pd) = Some (i, 0)"
proof -
  obtain o1 where u: "unwrap_or_prop_error dm_what (pd_exists P p) (pd_init_checked P p True ps mx) w = (o1, w')"
    and o1: "\<And>pd. out = Ret (Inr pd) \<Longrightarrow> o1 = Ret (Inr pd)"
    using run by (auto simp: pd_init_def noexcept_def split: prod.splits outcome.splits)
  have checked: "same_files (view w) (view w') \<and> (o1 = Ret (Inr pd) \<longrightarrow>
      m_file_path pd = p \<and> m_page_size pd = ps \<and> fds (view w') (m_fd pd) = Some (i, 0))"
    if "pd_init_checked P p True ps mx ex u = (o1, w')" "view u = view w" for ex u pd
    using that name open_law [of p u, OF surjective_pairing]
    by (cases pd) (auto simp: pd_init_checked_def run_simps in_scope_def pd_move_def posix_disk_new_def pd_destructor_def
        noexcept_def same_files_def bindc_def split: prod.splits sum.splits if_splits outcome.splits)
  from u have both: "same_files (view w) (view w') \<and> (out = Ret (Inr pd) \<longrightarrow>
      m_file_path pd = p \<and> m_page_size pd = ps \<and> fds (view w') (m_fd pd) = Some (i, 0))" for pd
  proof (cases rule: unwrapE)
    case (1 v v' s1 s2)
    then have v: "view s2 = view w" by (metis pd_exists_view)
    show ?thesis using checked [OF 1(3) v, of pd] o1 [of pd] by blast
  next
    case (2 o2)
    then have "view w' = view w" by (metis pd_exists_view)
    then show ?thesis using 2(2) [of pd] o1 [of pd] by auto
  next
    case (3 o2 s1 o3)
    then have "view w' = view w" by (metis pd_exists_view)
    then show ?thesis using 3(3) [of pd] o1 [of pd] by auto
  qed
  then show "same_files (view w) (view w')"
    and "out = Ret (Inr pd) \<Longrightarrow> m_file_path pd = p \<and> m_page_size pd = ps \<and> fds (view w') (m_fd pd) = Some (i, 0)"
    by blast+
qed

lemma pdm_write_page_frame:
  assumes run: "pdm_write P disk_id cur bytes (m, w) = (out, (m', w'))" and p: "disk_path m disk_id = Some p"
    and name: "names (view w) p = Some i" and small: "length (contents (view w) i) < 4294967296"
    and fits: "unat cur * unat (dm_page_size m) + unat (dm_page_size m) < 4294967296"
  shows "names (view w') p = Some i
    \<and> page_frame (unat (dm_page_size m)) (unat cur) (contents (view w) i) (contents (view w') i)"
proof -
  let ?b = "prop_if_error (past_fst (pd_write P cur bytes)) (retc (Inr ()))
    :: (posix_disk \<times> pdm \<times> 'w, (unit, DiskManagerErrorCode) result) cpp"
  let ?R = "spares (view \<circ> snd) i (unat cur)"
  obtain o1 where wd: "with_disk (init_for P) (pd_destructor P) disk_id ?b (m, w) = (o1, (m', w'))"
    using run by (auto simp: pdm_write_def noexcept_def split: prod.splits outcome.splits)
  obtain o2 w1 where init: "pd_init P p True (dm_page_size m) (max_disk_byte_size m) w = (o2, w1)"
    by (cases "pd_init P p True (dm_page_size m) (max_disk_byte_size m) w")
  note I = pd_init_files [OF init name]
  show ?thesis
  proof (cases "\<exists>pd. o2 = Ret (Inr pd)")
    case False
    then have "w' = w1" using wd init
      by (auto simp: with_disk_loaded [OF p] init_for_def bindc_def on_snd_eq split: outcome.splits sum.splits)
    then show ?thesis using I(1) name by (simp add: same_files_def)
  next
    case True
    then obtain pd where pd: "o2 = Ret (Inr pd)" by blast
    then have op: "open_on (view w1) pd i" "m_page_size pd = dm_page_size m"
      using I name small by (auto simp: open_on_def same_files_def)
    have "in_scope (past_fst (pd_destructor P)) pd ?b (m, w1) = (o1, (m', w'))"
      using wd init pd by (simp add: with_disk_loaded [OF p] init_for_def bindc_def on_snd_eq)
    then obtain o3 t where b: "?b (pd, m, w1) = (o3, t)"
      and d: "snd t = (m', w') \<or> (\<exists>o4 pd'. past_fst (pd_destructor P) t = (o4, (pd', m', w')))"
      by (rule in_scopeE)
    have "keeps ?R ?b" by (intro cpp_intros spares_past_fst spares_pd_write) simp_all
    then have "?R (pd, m, w1) t" using b by (rule keepsD)
    then obtain m2 w2 where t: "t = (pd, m2, w2)" "open_on (view w2) pd i"
      "page_frame (unat (dm_page_size m)) (unat cur) (contents (view w1) i) (contents (view w2) i)"
      using op fits by (cases t) (auto simp: spares_def)
    have "same_files (view w2) (view w')"
      using d by (auto simp: t(1) past_fst_iff dest: pd_destructor_files)
    then show ?thesis using t(2,3) I pd by (simp add: open_on_def same_files_def)
  qed
qed

end

end
