(* ===== verification/Manager_Tests.thy ===== *)
theory Manager_Tests
  imports Disk_Store Test_Framework
begin

text \<open>
  \<open>tests/src/\<close>: the test cases of the disk manager and the helper that makes their disks, written with
  the assertions of \<open>Test_Framework\<close>.  A test runs on the counter of file names
  \<open>Tests::cur_file_index\<close> and the operating system's world; its manager and its buffers are local.
  \<open>test_begin\<close>, which writes to the log only, is in \<open>Test_Log\<close>.
\<close>

section \<open>The helpers\<close>

definition at_exit :: "('s, unit) cpp \<Rightarrow> ('s, 'a) cpp \<Rightarrow> ('s, 'a) cpp" where
  \<comment> \<open>the destructor of a local object, also when an exception passes that is caught above\<close>
  "at_exit dtor m s =
     (case m s of
        (Fault f, s') \<Rightarrow> (Fault f, s')
      | (out, s') \<Rightarrow>
          (case noexcept dtor s' of (Ret _, s'') \<Rightarrow> (out, s'') | (Throw x, s'') \<Rightarrow> (Throw x, s'')
           | (Fault f, s'') \<Rightarrow> (Fault f, s'')))"

type_synonym 'w test_state = "int32 \<times> pdm \<times> 'w"

definition temp_storage_dir_path :: string where "temp_storage_dir_path = ''/tmp''"
definition disk_prefix :: string where "disk_prefix = ''disk_manager_test_''"
definition page_byte_size :: uint where "page_byte_size = 512"
definition max_disk_num_pages :: uint where "max_disk_num_pages = 4"
definition max_test_disk_size :: uint where "max_test_disk_size = page_byte_size * max_disk_num_pages"

definition get_next_random_string :: "string \<Rightarrow> (int32 \<times> 'e, string) cpp" where
  "get_next_random_string prefix =
     bindc (getc fst) (\<lambda>i.
     bindc (liftc (if unat i = INT_MAX then Fault (Undefined Signed_Overflow) else Ret ())) (\<lambda>_.
     bindc (modc (apfst (\<lambda>i. i + 1))) (\<lambda>_. retc (prefix @ show_int (sint i)))))"

definition with_manager :: "('w test_state, 'a) cpp \<Rightarrow> (int32 \<times> 'w, 'a) cpp" where
  \<comment> \<open>the local \<open>PosixDiskManager\<close> of a test\<close>
  "with_manager body s =
     (case body (fst s, pdm_new temp_storage_dir_path page_byte_size max_test_disk_size, snd s) of
        (out, (i', m', w')) \<Rightarrow> (out, (i', w')))"

definition value_of :: "('s, ('r, DiskManagerErrorCode) result) cpp \<Rightarrow> ('s, 'r) cpp" where
  \<comment> \<open>\<open>call().get_value()\<close>\<close>
  "value_of m = bindc m (\<lambda>r. liftc (get_value dm_what r))"

definition with_test_helper :: "'w posix \<Rightarrow> (int32 \<Rightarrow> ('w test_state, 'a) cpp) \<Rightarrow> ('w test_state, 'a) cpp" where
  \<comment> \<open>the life of a \<open>PosixDiskTestHelper\<close>\<close>
  "with_test_helper P body =
     bindc (get_next_random_string disk_prefix) (\<lambda>nm.
     bindc (value_of (on_snd (create P nm))) (\<lambda>disk_id.
     at_exit (bindc (on_snd (destroy P disk_id)) (\<lambda>_. retc ())) (body disk_id)))"

definition read_buffer :: "'w posix \<Rightarrow> int32 \<Rightarrow> int32 \<Rightarrow> byte list
    \<Rightarrow> (pdm \<times> 'w, (unit, DiskManagerErrorCode) result \<times> byte list) cpp" where
  \<comment> \<open>\<open>read\<close> into a buffer of the test: the result and what the buffer holds then\<close>
  "read_buffer P disk_id cur buf s =
     (case pdm_read P disk_id cur (fst s, buf, snd s) of
        (out, (m', buf', w')) \<Rightarrow> (obind out (\<lambda>r. Ret (r, buf')), (m', w')))"

section \<open>The test cases\<close>

text \<open>\<open>mem\<close> is what a new array of a page holds before it is written.\<close>

definition test_bytes :: "byte list" where
  \<comment> \<open>\<open>written_bytes[i] = i % sizeof(uint8_t)\<close>: the size is 1\<close>
  "test_bytes = map (\<lambda>i. of_nat (i mod 1)) [0..<unat page_byte_size]"

type_synonym site = "int \<times> string"  \<comment> \<open>the line and the text of an assertion\<close>

function check_bytes :: "int \<Rightarrow> nat \<Rightarrow> byte list \<Rightarrow> (exn, unit) outcome" where
  "check_bytes line i bs =
     (if i < unat page_byte_size
      then obind (mem_get bs i) (\<lambda>b.
        obind (assert_equal (\<lambda>x y. unat x = y) (\<lambda>x. [char_of (unat x)]) show_nat b (i mod 1)
          line ''ASSERT_EQUAL(read_bytes[i], i % sizeof(uint8_t))'') (\<lambda>_. check_bytes line (Suc i) bs))
      else Ret ())"
  by pat_completeness auto
termination by (relation "measure (\<lambda>(line, i, bs). unat page_byte_size - i)") auto

declare check_bytes.simps [simp del]

definition test_create :: "'w posix \<Rightarrow> (int32 \<times> 'w, unit) cpp" where
  "test_create P = with_manager (retc ())"

definition test_create_destroy :: "'w posix \<Rightarrow> (int32 \<times> 'w, unit) cpp" where
  "test_create_destroy P = with_manager (
     bindc (get_next_random_string disk_prefix) (\<lambda>nm.
     bindc (value_of (on_snd (pdm_exists P nm))) (\<lambda>there.
     bindc (liftc (assert_false there 47 ''ASSERT_FALSE(posix_disk_manager.exists(disk_name).get_value())'')) (\<lambda>_.
     bindc (on_snd (create P nm)) (\<lambda>disk_id_res.
     bindc (liftc (assert_true (is_value disk_id_res) 50 ''ASSERT_TRUE(disk_id_res.is_value())'')) (\<lambda>_.
     bindc (value_of (on_snd (pdm_exists P nm))) (\<lambda>there.
     bindc (liftc (assert_true there 51 ''ASSERT_TRUE(posix_disk_manager.exists(disk_name).get_value())'')) (\<lambda>_.
     bindc (liftc (get_value dm_what disk_id_res)) (\<lambda>disk_id.
     bindc (value_of (on_snd (is_loaded disk_id))) (\<lambda>loaded.
     bindc (liftc (assert_true loaded 52
       ''ASSERT_TRUE(posix_disk_manager.is_loaded(disk_id_res.get_value()).get_value())'')) (\<lambda>_.
     bindc (on_snd (destroy P disk_id)) (\<lambda>del_res.
     bindc (liftc (assert_true (is_value del_res) 55 ''ASSERT_TRUE(del_res.is_value())'')) (\<lambda>_.
     bindc (value_of (on_snd (pdm_exists P nm))) (\<lambda>there.
     bindc (liftc (assert_false there 56 ''ASSERT_FALSE(posix_disk_manager.exists(disk_name).get_value())'')) (\<lambda>_.
     bindc (value_of (on_snd (is_loaded disk_id))) (\<lambda>loaded.
     liftc (assert_false loaded 57
       ''ASSERT_FALSE(posix_disk_manager.is_loaded(disk_id_res.get_value()).get_value())'')))))))))))))))))"

definition test_load_unload :: "'w posix \<Rightarrow> (int32 \<times> 'w, unit) cpp" where
  "test_load_unload P = with_manager (
     bindc (get_next_random_string disk_prefix) (\<lambda>nm.
     bindc (value_of (on_snd (create P nm))) (\<lambda>created.
     bindc (value_of (on_snd (is_loaded created))) (\<lambda>loaded.
     bindc (liftc (assert_true loaded 70
       ''ASSERT_TRUE(posix_disk_manager.is_loaded(disk_id_res.get_value()).get_value())'')) (\<lambda>_.
     bindc (on_snd (unload created)) (\<lambda>res.
     bindc (liftc (assert_true (is_value res) 72
       ''ASSERT_TRUE(posix_disk_manager.unload(disk_id_res.get_value()).is_value())'')) (\<lambda>_.
     bindc (value_of (on_snd (is_loaded created))) (\<lambda>loaded.
     bindc (liftc (assert_false loaded 73
       ''ASSERT_FALSE(posix_disk_manager.is_loaded(disk_id_res.get_value()).get_value())'')) (\<lambda>_.
     bindc (on_snd (load P nm)) (\<lambda>disk_id_res.
     bindc (liftc (assert_true (is_value disk_id_res) 76 ''ASSERT_TRUE(disk_id.is_value())'')) (\<lambda>_.
     bindc (liftc (get_value dm_what disk_id_res)) (\<lambda>disk_id.
     bindc (value_of (on_snd (is_loaded disk_id))) (\<lambda>loaded.
     bindc (liftc (assert_true loaded 77
       ''ASSERT_TRUE(posix_disk_manager.is_loaded(disk_id.get_value()).get_value())'')) (\<lambda>_.
     bindc (on_snd (destroy P disk_id)) (\<lambda>_. retc ())))))))))))))))"

definition write_and_read ::
    "site \<Rightarrow> site \<Rightarrow> int \<Rightarrow> site \<Rightarrow> 'w posix \<Rightarrow> int32 \<Rightarrow> int32 \<Rightarrow> uint \<Rightarrow> byte list \<Rightarrow> ('w test_state, byte list) cpp" where
  \<comment> \<open>one page is written, read and compared, then the size; the read buffer is returned. The sites are those
     of the four assertions\<close>
  "write_and_read written read_ok bytes_line sized P disk_id cur byte_size buf =
     bindc (on_snd (pdm_write P disk_id cur test_bytes)) (\<lambda>res.
     bindc (liftc (assert_true (is_value res) (fst written) (snd written))) (\<lambda>_.
     bindc (on_snd (read_buffer P disk_id cur buf)) (\<lambda>(res, read_bytes).
     bindc (liftc (assert_true (is_value res) (fst read_ok) (snd read_ok))) (\<lambda>_.
     bindc (liftc (check_bytes bytes_line 0 read_bytes)) (\<lambda>_.
     bindc (value_of (on_snd (disk_byte_size P disk_id))) (\<lambda>sz.
     bindc (liftc (assert_equal (=) (show_nat \<circ> unat) (show_nat \<circ> unat) sz byte_size (fst sized) (snd sized))) (\<lambda>_.
     retc read_bytes)))))))"

definition test_single_page :: "'w posix \<Rightarrow> byte list \<Rightarrow> (int32 \<times> 'w, unit) cpp" where
  "test_single_page P mem = with_manager (with_test_helper P (\<lambda>disk_id.
     bindc (write_and_read
       (95, ''ASSERT_TRUE(posix_disk_manager.write(posix_disk_test_helper.get_disk_id(), 0, written_bytes).is_value())'')
       (99, ''ASSERT_TRUE(posix_disk_manager.read(posix_disk_test_helper.get_disk_id(), 0, read_bytes).is_value())'')
       102
       (105, ''ASSERT_EQUAL(posix_disk_manager.disk_byte_size(posix_disk_test_helper.get_disk_id()).get_value(), Tests::DiskManagerOpts::page_byte_size)'')
       P disk_id 0 page_byte_size mem) (\<lambda>_. retc ())))"

fun write_pages :: "'w posix \<Rightarrow> int32 \<Rightarrow> nat list \<Rightarrow> byte list \<Rightarrow> ('w test_state, unit) cpp" where
  "write_pages P disk_id [] buf = retc ()"
| "write_pages P disk_id (cur # curs) buf =
     bindc (write_and_read
       (127, ''ASSERT_TRUE(posix_disk_manager.write(posix_disk_test_helper.get_disk_id(), cur_page, written_bytes).is_value())'')
       (128, ''ASSERT_TRUE(posix_disk_manager.read(posix_disk_test_helper.get_disk_id(), cur_page, read_bytes).is_value())'')
       131
       (134, ''ASSERT_EQUAL(posix_disk_manager.disk_byte_size(posix_disk_test_helper.get_disk_id()).get_value(), Tests::DiskManagerOpts::page_byte_size * (cur_page + 1))'')
       P disk_id (of_nat cur) (page_byte_size * (of_nat cur + 1)) buf) (\<lambda>buf'.
     write_pages P disk_id curs buf')"

definition test_multi_page :: "'w posix \<Rightarrow> byte list \<Rightarrow> (int32 \<times> 'w, unit) cpp" where
  "test_multi_page P mem = with_manager (with_test_helper P (\<lambda>disk_id.
     write_pages P disk_id [0..<unat (max_disk_num_pages - 1)] mem))"

definition expect_exceeds :: "'w posix \<Rightarrow> byte list \<Rightarrow> int32 \<Rightarrow> ('w test_state, unit) cpp" where
  "expect_exceeds P mem disk_id =
     bindc (on_snd (pdm_write P disk_id max_disk_num_pages mem)) (\<lambda>write_res.
     bindc (liftc (assert_true (is_error write_res) 151 ''ASSERT_TRUE(write_res.is_error())'')) (\<lambda>_.
     bindc (liftc (get_error write_res)) (\<lambda>err.
     liftc (assert_equal (=) (print_object ''DiskManagerErrorCode'') (print_object ''DiskManagerErrorCode'')
       err DISK_EXCEEDS_MAX_SIZE 152
       ''ASSERT_EQUAL(write_res.get_error().error_code, DiskManagerErrorCode::DISK_EXCEEDS_MAX_SIZE)''))))"

definition test_exceeds_max_size :: "'w posix \<Rightarrow> byte list \<Rightarrow> (int32 \<times> 'w, unit) cpp" where
  "test_exceeds_max_size P mem = with_manager (with_test_helper P (expect_exceeds P mem))"

definition disk_tests :: "'w posix \<Rightarrow> byte list \<Rightarrow> (string \<times> (int32 \<times> 'w, unit) cpp) list" where
  "disk_tests P mem =
     [(''posix_disk_manager_create'', test_create P),
      (''posix_disk_manager_disk_create_destroy'', test_create_destroy P),
      (''posix_disk_manager_load_and_unload'', test_load_unload P),
      (''posix_disk_manager_disk_single_page_read_write'', test_single_page P mem),
      (''posix_disk_manager_disk_multi_page_read_write'', test_multi_page P mem),
      (''posix_disk_manager_disk_exceeds_max_size'', test_exceeds_max_size P mem)]"

section \<open>Running on the store\<close>

text \<open>
  \<open>sim vw S m a S'\<close>: from every state with counter and store \<open>S\<close> the call \<open>m\<close> returns \<open>a\<close> in a state with
  counter and store \<open>S'\<close>.
\<close>

definition sim :: "('w \<Rightarrow> fs_view) \<Rightarrow> int32 \<times> store \<Rightarrow> ('w test_state, 'a) cpp \<Rightarrow> 'a \<Rightarrow> int32 \<times> store \<Rightarrow> bool" where
  "sim vw S m a S' \<longleftrightarrow> (\<forall>s. store_inv vw s \<longrightarrow> store_of vw s = snd S \<longrightarrow>
     (\<exists>s'. m (fst S, s) = (Ret a, (fst S', s')) \<and> store_inv vw s' \<and> store_of vw s' = snd S'))"

lemma sim_bind: "sim vw S m a S' \<Longrightarrow> sim vw S' (k a) b S'' \<Longrightarrow> sim vw S (bindc m k) b S''"
  unfolding sim_def bindc_def by fastforce

lemma sim_lift: "out = Ret a \<Longrightarrow> sim vw S (liftc out) a S"
  by (simp add: sim_def)

lemma sim_ret: "sim vw S (retc a) a S"
  by (simp add: sim_def)

lemma sim_value: "sim vw S m (Inr a) S' \<Longrightarrow> sim vw S (value_of m) a S'"
  unfolding value_of_def by (erule sim_bind) (simp add: sim_lift get_value_def)

lemma sim_next_string:
  "unat i \<noteq> INT_MAX \<Longrightarrow> sim vw (i, st) (get_next_random_string prefix) (prefix @ show_int (sint i)) (i + 1, st)"
  by (simp add: sim_def get_next_random_string_def)

lemma sim_at_exit:
  "sim vw S m a S' \<Longrightarrow> sim vw S' dtor () S'' \<Longrightarrow> sim vw S (at_exit dtor m) a S''"
  unfolding sim_def at_exit_def by (fastforce simp: noexcept_def)

lemma sim_replies:
  assumes "sim vw S (on_snd (replies f m)) (map_sum id f r) S'" and "inj f"
  shows "sim vw S (on_snd m) r S'"
  unfolding sim_def
proof (intro allI impI)
  fix s
  assume "store_inv vw s" "store_of vw s = snd S"
  then obtain s' where run: "on_snd (replies f m) (fst S, s) = (Ret (map_sum id f r), (fst S', s'))"
    and s': "store_inv vw s' \<and> store_of vw s' = snd S'"
    using assms(1) unfolding sim_def by blast
  obtain out t where m: "m s = (out, t)" by (cases "m s")
  obtain r' where "out = Ret r'" "map_sum id f r' = map_sum id f r" "t = s'" "fst S' = fst S"
    using run m by (cases out) (auto simp: on_snd_iff replies_def bindc_def)
  moreover from this(2) have "r' = r" using assms(2) by (cases r; cases r') (auto dest: injD)
  ultimately show "\<exists>s'. on_snd m (fst S, s) = (Ret r, (fst S', s')) \<and> store_inv vw s' \<and> store_of vw s' = snd S'"
    using m s' by (auto simp: on_snd_iff)
qed

context posix_reliable begin

lemma sim_exec:
  assumes "spec c st = (r, st')" and "\<And>m. unat (dm_page_size m) = st_page st \<Longrightarrow> admissible m c"
    and "unat (st_next st) \<noteq> INT_MAX"
  shows "sim view (i, st) (on_snd (exec P c)) r (i, st')"
  unfolding sim_def
proof (intro allI impI)
  fix s
  assume inv: "store_inv view s" and st: "store_of view s = snd (i, st)"
  obtain m w where s: "s = (m, w)" by (cases s)
  have "refines view P c (m, w)" using inv st assms(2,3) by (intro exec_refines) (auto simp: s)
  then obtain s' where "exec P c s = (Ret r, s')" "store_of view s' = st'" "store_inv view s'"
    using assms(1) st by (auto simp: refines_def s)
  then show "\<exists>s'. on_snd (exec P c) (fst (i, st), s) = (Ret r, (fst (i, st'), s')) \<and> store_inv view s'
      \<and> store_of view s' = snd (i, st')"
    by (auto simp: on_snd_iff)
qed

lemma sim_call:
  assumes "exec P c = replies f m" and "inj f" and "spec c st = (map_sum id f r, st')"
    and "\<And>m. unat (dm_page_size m) = st_page st \<Longrightarrow> admissible m c" and "unat (st_next st) \<noteq> INT_MAX"
  shows "sim view (i, st) (on_snd m) r (i, st')"
  using sim_exec [OF assms(3,4,5), of i] assms(1,2) by (intro sim_replies [of view "(i, st)" f m r "(i, st')"]) simp_all

lemma inj_replies [simp]: "inj R_Id" "inj R_Size" "inj R_Bool" "inj (\<lambda>_ :: unit. R_Done)"
  by (simp_all add: inj_def)

lemma sim_create:
  "spec (Create nm) st = (map_sum id R_Id r, st') \<Longrightarrow> unat (st_next st) \<noteq> INT_MAX \<Longrightarrow>
    sim view (i, st) (on_snd (create P nm)) r (i, st')"
  by (rule sim_call [OF exec.simps(1)], simp (no_asm), assumption, simp (no_asm), assumption)

lemma sim_load:
  "spec (Load nm) st = (map_sum id R_Id r, st') \<Longrightarrow> unat (st_next st) \<noteq> INT_MAX \<Longrightarrow>
    sim view (i, st) (on_snd (load P nm)) r (i, st')"
  by (rule sim_call [OF exec.simps(2)], simp (no_asm), assumption, simp (no_asm), assumption)

lemma sim_unload:
  "spec (Unload d) st = (map_sum id (\<lambda>_. R_Done) r, st') \<Longrightarrow> unat (st_next st) \<noteq> INT_MAX \<Longrightarrow>
    sim view (i, st) (on_snd (unload d)) r (i, st')"
  by (rule sim_call [OF exec.simps(3)], simp (no_asm), assumption, simp (no_asm), assumption)

lemma sim_destroy:
  "spec (Destroy d) st = (map_sum id (\<lambda>_. R_Done) r, st') \<Longrightarrow> unat (st_next st) \<noteq> INT_MAX \<Longrightarrow>
    sim view (i, st) (on_snd (destroy P d)) r (i, st')"
  by (rule sim_call [OF exec.simps(4)], simp (no_asm), assumption, simp (no_asm), assumption)

lemma sim_size:
  "spec (Size d) st = (map_sum id R_Size r, st') \<Longrightarrow> unat (st_next st) \<noteq> INT_MAX \<Longrightarrow>
    sim view (i, st) (on_snd (disk_byte_size P d)) r (i, st')"
  by (rule sim_call [OF exec.simps(7)], simp (no_asm), assumption, simp (no_asm), assumption)

lemma sim_exists:
  "spec (Exists nm) st = (map_sum id R_Bool r, st') \<Longrightarrow> unat (st_next st) \<noteq> INT_MAX \<Longrightarrow>
    sim view (i, st) (on_snd (pdm_exists P nm)) r (i, st')"
  by (rule sim_call [OF exec.simps(9)], simp (no_asm), assumption, simp (no_asm), assumption)

lemma sim_is_loaded:
  "spec (Is_Loaded d) st = (map_sum id R_Bool r, st') \<Longrightarrow> unat (st_next st) \<noteq> INT_MAX \<Longrightarrow>
    sim view (i, st) (on_snd (is_loaded d)) r (i, st')"
  by (rule sim_call [OF exec.simps(10)], simp (no_asm), assumption, simp (no_asm), assumption)

lemma sim_write:
  assumes "spec (Write d cur bs) st = (map_sum id (\<lambda>_. R_Done) r, st')" and "unat (st_next st) \<noteq> INT_MAX"
    and "unat cur * st_page st + st_page st < 4294967296" and "st_page st \<le> length bs"
  shows "sim view (i, st) (on_snd (pdm_write P d cur bs)) r (i, st')"
  by (rule sim_call [OF exec.simps(5) _ assms(1)]) (use assms(2-4) in \<open>simp_all add: no_wrap_def\<close>)

lemma sim_read:
  assumes "unat (st_next st) \<noteq> INT_MAX" and "unat cur * st_page st + st_page st < 4294967296" and "st_page st \<le> length buf"
    and "spec (Read d cur buf) st = (Inr (R_Buf bs), st')"
  shows "sim view (i, st) (on_snd (read_buffer P d cur buf)) (Inr (), bs) (i, st')"
  unfolding sim_def
proof (intro allI impI)
  fix s
  assume inv: "store_inv view s" and st: "store_of view s = snd (i, st)"
  have "sim view (i, st) (on_snd (exec P (Read d cur buf))) (Inr (R_Buf bs)) (i, st')"
    using assms by (intro sim_exec) (simp_all add: no_wrap_def)
  then obtain s' where "on_snd (exec P (Read d cur buf)) (i, s) = (Ret (Inr (R_Buf bs)), (i, s'))"
    and s': "store_inv view s' \<and> store_of view s' = st'"
    using inv st unfolding sim_def fst_conv snd_conv by blast
  then have run: "read_into P d cur buf s = (Ret (Inr (R_Buf bs)), s')" by (auto simp: on_snd_iff)
  obtain out m' buf' w' where r: "pdm_read P d cur (fst s, buf, snd s) = (out, (m', buf', w'))" by (metis surj_pair)
  then have "out = Ret (Inr ()) \<and> buf' = bs \<and> (m', w') = s'"
    using run by (cases out) (auto simp: read_into_def map_sum_def split: sum.splits)
  then show "\<exists>s'. on_snd (read_buffer P d cur buf) (fst (i, st), s) = (Ret (Inr (), bs), (fst (i, st'), s'))
      \<and> store_inv view s' \<and> store_of view s' = snd (i, st')"
    using r s' by (auto simp: on_snd_iff read_buffer_def)
qed

end

section \<open>The store of the tests\<close>

definition test_store :: "(string \<Rightarrow> byte list option) \<Rightarrow> (int32 \<Rightarrow> string option) \<Rightarrow> int32 \<Rightarrow> store" where
  "test_store files table n =
     \<lparr>st_dir = ''/tmp'', st_page = 512, st_limit = 2048, st_files = files, st_table = table, st_next = n\<rparr>"

definition test_path :: "string \<Rightarrow> string" where
  "test_path nm = ''/tmp'' @ ''/'' @ get_disk_full_name nm"

lemma put_page_append:
  "length xs = k * ps \<Longrightarrow> length bs = ps \<Longrightarrow> put_page ps k bs xs = xs @ bs"
  by (simp add: put_page_def grow_def extend_to_def overwrite_def)

lemma page_append:
  assumes "length xs = k * ps" and "length bs = ps"
  shows "grow ps k (xs @ bs) = xs @ bs" and "get_page ps k (xs @ bs) = bs"
  using assms by (simp_all add: get_page_def grow_def)

lemma overwrite_all: "length bs = length buf \<Longrightarrow> overwrite 0 bs buf = bs"
  by (simp add: overwrite_def)

lemmas test_specs = test_store_def test_path_def st_path_def spec_load_def on_disk_def st_fits_def

context posix_reliable begin

lemma sim_t_exists: "unat n \<noteq> INT_MAX \<Longrightarrow>
    sim view (i, test_store F t n) (on_snd (pdm_exists P nm)) (Inr (F (test_path nm) \<noteq> None)) (i, test_store F t n)"
  by (rule sim_exists) (simp_all add: test_specs)

lemma sim_t_is_loaded: "unat n \<noteq> INT_MAX \<Longrightarrow>
    sim view (i, test_store F t n) (on_snd (is_loaded d)) (Inr (t d \<noteq> None)) (i, test_store F t n)"
  by (rule sim_is_loaded) (simp_all add: test_specs)

lemma sim_t_create: "F (test_path nm) = None \<Longrightarrow> unat n \<noteq> INT_MAX \<Longrightarrow>
    sim view (i, test_store F t n) (on_snd (create P nm)) (Inr n)
      (i, test_store (F(test_path nm \<mapsto> [])) (t(n \<mapsto> test_path nm)) (n + 1))"
  by (rule sim_create) (simp_all add: test_specs)

lemma sim_t_load: "F (test_path nm) \<noteq> None \<Longrightarrow> unat n \<noteq> INT_MAX \<Longrightarrow>
    sim view (i, test_store F t n) (on_snd (load P nm)) (Inr n) (i, test_store F (t(n \<mapsto> test_path nm)) (n + 1))"
  by (rule sim_load) (simp_all add: test_specs)

lemma sim_t_unload: "t d \<noteq> None \<Longrightarrow> unat n \<noteq> INT_MAX \<Longrightarrow>
    sim view (i, test_store F t n) (on_snd (unload d)) (Inr ()) (i, test_store F (t(d := None)) n)"
  by (rule sim_unload) (simp_all add: test_specs)

lemma sim_t_destroy: "t d = Some p \<Longrightarrow> F p \<noteq> None \<Longrightarrow> unat n \<noteq> INT_MAX \<Longrightarrow>
    sim view (i, test_store F t n) (on_snd (destroy P d)) (Inr ()) (i, test_store (F(p := None)) (t(d := None)) n)"
  by (rule sim_destroy) (auto simp: test_specs)

lemma sim_t_size: "t d = Some p \<Longrightarrow> F p = Some xs \<Longrightarrow> unat n \<noteq> INT_MAX \<Longrightarrow>
    sim view (i, test_store F t n) (on_snd (disk_byte_size P d)) (Inr (of_nat (length xs))) (i, test_store F t n)"
  by (rule sim_size) (simp_all add: test_specs)

lemma sim_t_write:
  "t d = Some p \<Longrightarrow> F p = Some xs \<Longrightarrow> length xs = unat cur * 512 \<Longrightarrow> unat cur < 3 \<Longrightarrow> length bs = 512 \<Longrightarrow>
    unat n \<noteq> INT_MAX \<Longrightarrow>
    sim view (i, test_store F t n) (on_snd (pdm_write P d cur bs)) (Inr ()) (i, test_store (F(p \<mapsto> xs @ bs)) t n)"
  by (rule sim_write) (simp_all add: test_specs put_page_append)

lemma sim_t_read:
  "t d = Some p \<Longrightarrow> F p = Some (xs @ bs) \<Longrightarrow> length xs = unat cur * 512 \<Longrightarrow> unat cur < 3 \<Longrightarrow> length bs = 512 \<Longrightarrow>
    length buf = 512 \<Longrightarrow> unat n \<noteq> INT_MAX \<Longrightarrow>
    sim view (i, test_store F t n) (on_snd (read_buffer P d cur buf)) (Inr (), bs) (i, test_store F t n)"
  by (rule sim_read) (simp_all add: test_specs page_append overwrite_all fun_upd_idem)

lemma sim_t_write_exceeds:
  "t d = Some p \<Longrightarrow> F p = Some xs \<Longrightarrow> unat cur = 4 \<Longrightarrow> length bs = 512 \<Longrightarrow> unat n \<noteq> INT_MAX \<Longrightarrow>
    sim view (i, test_store F t n) (on_snd (pdm_write P d cur bs)) (Inl DISK_EXCEEDS_MAX_SIZE) (i, test_store F t n)"
  by (rule sim_write) (simp_all add: test_specs)

end

lemma sim_assert: "b \<Longrightarrow> sim vw S (liftc (assert_true b line txt)) () S"
  by (simp add: sim_lift assert_true_def)

lemma sim_assert_false: "\<not> b \<Longrightarrow> sim vw S (liftc (assert_false b line txt)) () S"
  by (simp add: sim_lift assert_false_def)

lemma sim_equal: "eq a b \<Longrightarrow> sim vw S (liftc (assert_equal eq pr1 pr2 a b line txt)) () S"
  by (simp add: sim_lift assert_equal_def)

lemma sim_get_value: "sim vw S (liftc (get_value what (Inr a))) a S"
  by (simp add: sim_lift get_value_def)

lemma length_test_bytes [simp]: "length test_bytes = 512"
  by (simp add: test_bytes_def page_byte_size_def)

lemma test_bytes_zero: "test_bytes = replicate 512 0"
  by (rule nth_equalityI) (simp_all add: test_bytes_def page_byte_size_def)

lemma check_test_bytes: "check_bytes line i test_bytes = Ret ()"
proof (induction line i test_bytes rule: check_bytes.induct)
  case (1 line i)
  then show ?case
    by (subst check_bytes.simps) (auto simp: mem_get_def test_bytes_zero page_byte_size_def assert_equal_def)
qed

section \<open>The test cases pass\<close>

context posix_reliable begin

lemmas sim_calls = sim_value sim_next_string sim_t_exists sim_t_is_loaded sim_t_create sim_t_load sim_t_unload
  sim_t_destroy sim_assert sim_assert_false sim_equal sim_get_value sim_ret

lemma write_and_read_sim:
  assumes "t d = Some p" and "F p = Some xs" and "length xs = unat cur * 512" and "unat cur < 3"
    and "length buf = 512" and "unat n \<noteq> INT_MAX" and "byte_size = of_nat (length xs + 512)"
  shows "sim view (i, test_store F t n) (write_and_read wr rd bl sz P d cur byte_size buf) test_bytes
    (i, test_store (F(p \<mapsto> xs @ test_bytes)) t n)"
proof -
  let ?S = "(i, test_store (F(p \<mapsto> xs @ test_bytes)) t n)"
  have w: "sim view (i, test_store F t n) (on_snd (pdm_write P d cur test_bytes)) (Inr ()) ?S"
    using assms by (intro sim_t_write) simp_all
  have r: "sim view ?S (on_snd (read_buffer P d cur buf)) (Inr (), test_bytes) ?S"
    using assms by (intro sim_t_read [where xs = xs and p = p]) simp_all
  have z: "sim view ?S (on_snd (disk_byte_size P d)) (Inr byte_size) ?S"
    using sim_t_size [of t d p "F(p \<mapsto> xs @ test_bytes)" "xs @ test_bytes" n i] assms by simp
  show ?thesis unfolding write_and_read_def
    by (rule sim_bind [OF w], rule sim_bind, rule sim_assert, simp add: is_value_def, rule sim_bind [OF r],
        unfold prod.case, rule sim_bind, rule sim_assert, simp add: is_value_def, rule sim_bind, rule sim_lift,
        rule check_test_bytes, rule sim_bind, rule sim_value [OF z], rule sim_bind, rule sim_equal, rule refl,
        rule sim_ret)
qed

lemma write_pages_sim:
  assumes "k + m = 3" and "t d = Some p" and "F p = Some xs" and "length xs = k * 512"
    and "length buf = 512" and "unat n \<noteq> INT_MAX"
  shows "\<exists>ys. sim view (i, test_store F t n) (write_pages P d [k..<3] buf) () (i, test_store (F(p \<mapsto> ys)) t n)"
  using assms
proof (induction m arbitrary: k xs F buf)
  case 0
  then have same: "F(p \<mapsto> xs) = F" and none: "[k..<3] = []" by auto
  show ?case unfolding none write_pages.simps by (rule exI [of _ xs]) (unfold same, rule sim_ret)
next
  case (Suc m)
  have cur: "unat (of_nat k :: int32) = k" using Suc.prems(1) by (simp add: unat_of_nat_uint)
  have 1: "sim view (i, test_store F t n) (write_and_read wr rd bl sz P d (of_nat k) (page_byte_size * (of_nat k + 1)) buf)
      test_bytes (i, test_store (F(p \<mapsto> xs @ test_bytes)) t n)" for wr rd bl sz
    using Suc.prems by (intro write_and_read_sim) (simp_all add: cur page_byte_size_def)
  have "\<exists>ys. sim view (i, test_store (F(p \<mapsto> xs @ test_bytes)) t n)
      (write_pages P d [Suc k..<3] test_bytes) () (i, test_store ((F(p \<mapsto> xs @ test_bytes))(p \<mapsto> ys)) t n)"
    using Suc.prems by (intro Suc.IH [where xs = "xs @ test_bytes"]) simp_all
  then obtain ys where "sim view (i, test_store (F(p \<mapsto> xs @ test_bytes)) t n)
      (write_pages P d [Suc k..<3] test_bytes) () (i, test_store (F(p \<mapsto> ys)) t n)"
    unfolding fun_upd_upd by blast
  then have "sim view (i, test_store F t n)
      (write_pages P d (k # [Suc k..<3]) buf) () (i, test_store (F(p \<mapsto> ys)) t n)"
    by (simp only: write_pages.simps) (rule sim_bind [OF 1])
  moreover have "k # [Suc k..<3] = [k..<3]" using Suc.prems(1) by (simp add: upt_rec)
  ultimately show ?case by metis
qed

lemma with_test_helper_sim:
  assumes free: "F (test_path (disk_prefix @ show_int (sint i))) = None" and i: "unat i \<noteq> INT_MAX"
    and body: "\<exists>ys. sim view (i + 1, test_store (F(test_path (disk_prefix @ show_int (sint i)) \<mapsto> []))
        [0 \<mapsto> test_path (disk_prefix @ show_int (sint i))] 1) (body 0) a
      (i + 1, test_store (F(test_path (disk_prefix @ show_int (sint i)) \<mapsto> ys))
        [0 \<mapsto> test_path (disk_prefix @ show_int (sint i))] 1)"
  shows "sim view (i, test_store F Map.empty 0) (with_test_helper P body) a (i + 1, test_store F Map.empty 1)"
proof -
  let ?nm = "disk_prefix @ show_int (sint i)"
  let ?p = "test_path ?nm"
  obtain ys where b: "sim view (i + 1, test_store (F(?p \<mapsto> [])) [0 \<mapsto> ?p] 1) (body 0) a
      (i + 1, test_store (F(?p \<mapsto> ys)) [0 \<mapsto> ?p] 1)" using body by blast
  have c: "sim view (i + 1, test_store F Map.empty 0) (on_snd (create P ?nm)) (Inr 0)
      (i + 1, test_store (F(?p \<mapsto> [])) [0 \<mapsto> ?p] 1)"
    using sim_t_create [of F ?nm 0 "i + 1" Map.empty] free by simp
  have "(F(?p \<mapsto> ys))(?p := None) = F" using free by auto
  then have d: "sim view (i + 1, test_store (F(?p \<mapsto> ys)) [0 \<mapsto> ?p] 1) (on_snd (destroy P 0)) (Inr ())
      (i + 1, test_store F Map.empty 1)"
    using sim_t_destroy [of "[0 \<mapsto> ?p]" 0 ?p "F(?p \<mapsto> ys)" 1 "i + 1"] by simp
  show ?thesis unfolding with_test_helper_def
    by (rule sim_bind, rule sim_next_string [OF i], rule sim_bind, rule sim_value [OF c],
        rule sim_at_exit [OF b], rule sim_bind [OF d], rule sim_ret)
qed

end

lemma distinct_disk_tests: "distinct (map fst (disk_tests P mem))"
  by (simp add: disk_tests_def)

definition test_manager :: pdm where
  "test_manager = pdm_new temp_storage_dir_path page_byte_size max_test_disk_size"

definition passes :: "('w \<Rightarrow> fs_view) \<Rightarrow> (string \<Rightarrow> byte list option) \<Rightarrow> int32 \<Rightarrow> (int32 \<times> 'w, unit) cpp \<Rightarrow> int32 \<Rightarrow> bool" where
  \<comment> \<open>the test returns and the files are as they were\<close>
  "passes vw F i t i' \<longleftrightarrow> (\<forall>w. store_inv vw (test_manager, w) \<longrightarrow> file_at (vw w) = F \<longrightarrow>
     (\<exists>w'. t (i, w) = (Ret (), (i', w')) \<and> store_inv vw (test_manager, w') \<and> file_at (vw w') = F))"

lemma test_manager_sel [simp]:
  "dir_path test_manager = ''/tmp''" "dm_page_size test_manager = 512" "max_disk_byte_size test_manager = 2048"
  "cur_disk_id test_manager = 0" "disks test_manager = []"
  by (simp_all add: test_manager_def pdm_new_eq temp_storage_dir_path_def page_byte_size_def
      max_test_disk_size_def max_disk_num_pages_def)

lemma store_of_test_manager: "store_of vw (test_manager, w) = test_store (file_at (vw w)) Map.empty 0"
  by (simp add: store_of_def test_store_def disk_path_def fun_eq_iff)

lemma store_inv_constants:
  assumes "store_inv vw (m, w)" and "store_of vw (m, w) = test_store F t n"
  shows "store_inv vw (test_manager, w)"
proof -
  have "dir_path m = ''/tmp''" "unat (dm_page_size m) = 512" "unat (max_disk_byte_size m) = 2048"
    using assms(2) by (simp_all add: store_of_def test_store_def)
  then show ?thesis using assms(1) by (simp add: store_inv_def path_of_file_def whole_pages_def)
qed

lemma passes_sim:
  assumes run: "sim vw (i, test_store F Map.empty 0) body () (i', test_store F' t n)" and same: "F' = F"
  shows "passes vw F i (with_manager body) i'"
  unfolding passes_def
proof (intro allI impI)
  fix w
  assume inv: "store_inv vw (test_manager, w)" and F: "file_at (vw w) = F"
  have "store_of vw (test_manager, w) = snd (i, test_store F Map.empty 0)" by (simp add: store_of_test_manager F)
  with run inv obtain s' where "body (i, test_manager, w) = (Ret (), (i', s'))" "store_inv vw s'"
    "store_of vw s' = test_store F t n" unfolding sim_def same by fastforce
  moreover obtain m' w' where "s' = (m', w')" by (cases s')
  ultimately show "\<exists>w'. with_manager body (i, w) = (Ret (), (i', w')) \<and> store_inv vw (test_manager, w')
      \<and> file_at (vw w') = F"
    using store_inv_constants [of vw m' w' F t n]
    by (auto simp: with_manager_def test_manager_def store_of_def test_store_def)
qed

context posix_reliable begin

lemma test_create_passes: "passes view F i (test_create P) i"
  unfolding test_create_def by (rule passes_sim [OF sim_ret refl])

lemma test_create_destroy_passes:
  assumes "F (test_path (disk_prefix @ show_int (sint i))) = None" and "unat i \<noteq> INT_MAX"
  shows "passes view F i (test_create_destroy P) (i + 1)"
  unfolding test_create_destroy_def
  by (rule passes_sim) (rule sim_bind sim_calls fun_upd_same | simp add: assms is_value_def fun_upd_idem_iff; fail)+

lemma test_load_unload_passes:
  assumes "F (test_path (disk_prefix @ show_int (sint i))) = None" and "unat i \<noteq> INT_MAX"
  shows "passes view F i (test_load_unload P) (i + 1)"
  unfolding test_load_unload_def
  by (rule passes_sim) (rule sim_bind sim_calls fun_upd_same | simp add: assms is_value_def fun_upd_idem_iff; fail)+

lemma helper_test_passes:
  assumes "F (test_path (disk_prefix @ show_int (sint i))) = None" and "unat i \<noteq> INT_MAX"
    and "\<And>p. \<exists>ys. sim view (i + 1, test_store (F(p \<mapsto> [])) [0 \<mapsto> p] 1) (body 0) ()
      (i + 1, test_store (F(p \<mapsto> ys)) [0 \<mapsto> p] 1)"
  shows "passes view F i (with_manager (with_test_helper P body)) (i + 1)"
  using assms by (intro passes_sim [OF with_test_helper_sim refl])

lemma single_page_sim:
  assumes "length mem = 512"
  shows "\<exists>ys. sim view (i, test_store (F(p \<mapsto> [])) [0 \<mapsto> p] 1)
    (bindc (write_and_read wr rd bl sz P 0 0 page_byte_size mem) (\<lambda>_. retc ())) ()
    (i, test_store (F(p \<mapsto> ys)) [0 \<mapsto> p] 1)"
proof -
  have "sim view (i, test_store (F(p \<mapsto> [])) [0 \<mapsto> p] 1) (write_and_read wr rd bl sz P 0 0 page_byte_size mem) test_bytes
      (i, test_store ((F(p \<mapsto> []))(p \<mapsto> [] @ test_bytes)) [0 \<mapsto> p] 1)"
    using assms by (intro write_and_read_sim) (simp_all add: page_byte_size_def)
  from sim_bind [OF this sim_ret] show ?thesis unfolding fun_upd_upd append_Nil by (rule exI)
qed

lemma test_single_page_passes:
  assumes "F (test_path (disk_prefix @ show_int (sint i))) = None" and "unat i \<noteq> INT_MAX" and "length mem = 512"
  shows "passes view F i (test_single_page P mem) (i + 1)"
  unfolding test_single_page_def using assms(1,2)
  by (rule helper_test_passes) (rule single_page_sim [OF assms(3)])

lemma test_multi_page_passes:
  assumes "F (test_path (disk_prefix @ show_int (sint i))) = None" and "unat i \<noteq> INT_MAX" and "length mem = 512"
  shows "passes view F i (test_multi_page P mem) (i + 1)"
  unfolding test_multi_page_def using assms(1,2)
proof (rule helper_test_passes)
  fix p
  have three: "[0..<unat (max_disk_num_pages - 1)] = [0..<3]" by (simp add: max_disk_num_pages_def)
  have "\<exists>ys. sim view (i + 1, test_store (F(p \<mapsto> [])) [0 \<mapsto> p] 1) (write_pages P 0 [0..<3] mem) ()
      (i + 1, test_store ((F(p \<mapsto> []))(p \<mapsto> ys)) [0 \<mapsto> p] 1)"
    using assms(3) by (intro write_pages_sim) simp_all
  then show "\<exists>ys. sim view (i + 1, test_store (F(p \<mapsto> [])) [0 \<mapsto> p] 1)
      (write_pages P 0 [0..<unat (max_disk_num_pages - 1)] mem) ()
      (i + 1, test_store (F(p \<mapsto> ys)) [0 \<mapsto> p] 1)" unfolding three fun_upd_upd .
qed

lemma test_exceeds_passes:
  assumes "F (test_path (disk_prefix @ show_int (sint i))) = None" and "unat i \<noteq> INT_MAX" and "length mem = 512"
  shows "passes view F i (test_exceeds_max_size P mem) (i + 1)"
  unfolding test_exceeds_max_size_def using assms(1,2)
proof (rule helper_test_passes)
  fix p
  let ?S = "(i + 1, test_store (F(p \<mapsto> [])) [0 \<mapsto> p] 1)"
  have w: "sim view ?S (on_snd (pdm_write P 0 max_disk_num_pages mem)) (Inl DISK_EXCEEDS_MAX_SIZE) ?S"
    using assms(3) by (intro sim_t_write_exceeds [where xs = "[]" and p = p]) (simp_all add: max_disk_num_pages_def)
  have "sim view ?S (expect_exceeds P mem 0) () ?S" unfolding expect_exceeds_def
    by (rule sim_bind [OF w], rule sim_bind, rule sim_assert, simp add: is_error_def, rule sim_bind, rule sim_lift,
        simp add: get_error_def is_error_def, rule sim_equal, rule refl)
  then show "\<exists>ys. sim view ?S (expect_exceeds P mem 0) () (i + 1, test_store (F(p \<mapsto> ys)) [0 \<mapsto> p] 1)" by (rule exI)
qed

lemma test_case_passes:
  assumes "t \<in> snd ` set (disk_tests P mem)" and "F (test_path (disk_prefix @ show_int (sint i))) = None"
    and "unat i \<noteq> INT_MAX" and "length mem = 512"
  shows "passes view F i t i \<or> passes view F i t (i + 1)"
  using assms(1) test_create_passes test_create_destroy_passes [of F i, OF assms(2,3)] test_load_unload_passes [of F i, OF assms(2,3)]
    test_single_page_passes [of F i, OF assms(2-4)] test_multi_page_passes [of F i, OF assms(2-4)] test_exceeds_passes [of F i, OF assms(2-4)]
  unfolding disk_tests_def by auto

lemma run_cases_pass:
  assumes "set ts \<subseteq> snd ` set (disk_tests P mem)" and "length mem = 512" and "unat i + length ts \<le> INT_MAX"
    and "\<forall>k :: int32. unat i \<le> unat k \<longrightarrow> F (test_path (disk_prefix @ show_int (sint k))) = None"
    and "store_inv view (test_manager, w)" and "file_at (view w) = F"
  shows "\<exists>i' w'. run_cases ts (i, w) = (Ret (map (\<lambda>_. Pass) ts), (i', w')) \<and> file_at (view w') = F"
  using assms
proof (induction ts arbitrary: i w)
  case Nil
  then show ?case by simp
next
  case (Cons t ts)
  have "passes view F i t i \<or> passes view F i t (i + 1)"
    using Cons.prems(1-3) Cons.prems(4) [rule_format, of i] by (intro test_case_passes) auto
  then obtain i1 w1 where 1: "t (i, w) = (Ret (), (i1, w1))" "store_inv view (test_manager, w1)" "file_at (view w1) = F"
    "i1 = i \<or> i1 = i + 1"
    using Cons.prems(5,6) unfolding passes_def by metis
  then have i1: "unat i \<le> unat i1" "unat i1 \<le> unat i + 1" using Cons.prems(3) by (auto simp: unat_add_uint)
  then have "\<exists>i' w'. run_cases ts (i1, w1) = (Ret (map (\<lambda>_. Pass) ts), (i', w')) \<and> file_at (view w') = F"
    using Cons.prems 1 by (intro Cons.IH) auto
  then show ?case using 1(1) by (auto simp: run_case_def bindc_def)
qed

lemma test_program_passes:
  assumes "store_inv view (test_manager, w)"
    and "set (names_wanted (disk_tests P mem) args) \<subseteq> fst ` set (disk_tests P mem)" and "length mem = 512"
    and "unat i + length (names_wanted (disk_tests P mem) args) \<le> INT_MAX"
    and "\<forall>k :: int32. unat i \<le> unat k \<longrightarrow> file_at (view w) (test_path (disk_prefix @ show_int (sint k))) = None"
  shows "\<exists>i' w'. test_program (disk_tests P mem) args (i, w) = (Ret 0, (i', w')) \<and> file_at (view w') = file_at (view w)"
proof (cases "exits args")
  case True
  then show ?thesis by (simp add: test_program_def)
next
  case False
  let ?names = "names_wanted (disk_tests P mem) args"
  let ?ts = "map (\<lambda>name. the (map_of (disk_tests P mem) name)) ?names"
  have found: "map_of (disk_tests P mem) name \<noteq> None" if "name \<in> set ?names" for name
    using that assms(2) by (auto simp: map_of_eq_None_iff)
  have "the (map_of (disk_tests P mem) name) \<in> snd ` set (disk_tests P mem)" if "name \<in> set ?names" for name
    using found [OF that] by (force dest: map_of_SomeD)
  then have "set ?ts \<subseteq> snd ` set (disk_tests P mem)" by auto
  then obtain i' w' where "run_cases ?ts (i, w) = (Ret (map (\<lambda>_. Pass) ?ts), (i', w'))" "file_at (view w') = file_at (view w)"
    using run_cases_pass [of ?ts mem i "file_at (view w)" w] assms by auto
  then show ?thesis using False found by (auto simp: test_program_def noexcept_def bindc_eqs)
qed

end

end
