(* ===== verification/Disk_Properties.thy ===== *)
theory Disk_Properties
  imports Disk_Ids Disk_Torn Manager_Tests
begin

text \<open>
  The properties of the disk manager: the refinement of the store, pages that stay as they
  were written, what a call can touch when the system fails, the ids, the test suite, and the
  places where the code does not keep its limits or its descriptors.
\<close>

section \<open>A cursor whose page wraps around\<close>

lemma unat_neg_uint:
  assumes "w \<noteq> (0 :: uint)"
  shows "unat (- w) = 4294967296 - unat w"
proof -
  have "4294967296 - unat w + unat w = 4294967296"
    by (rule le_add_diff_inverse2) (rule less_imp_le [OF unat_uint_less])
  then have "(of_nat (4294967296 - unat w + unat w) :: uint) = of_nat 4294967296" by (rule arg_cong)
  then have "of_nat (4294967296 - unat w) + w = (0 :: uint)" by simp
  then have "- w = of_nat (4294967296 - unat w)" by (metis add_eq_0_iff add.commute)
  moreover have "0 < unat w" using assms by (simp add: unat_gt_0)
  ultimately show ?thesis by (simp add: unat_of_nat_uint)
qed

context posix_reliable begin

lemma pd_prepare_rw_wraps:
  assumes h: "handle (view w) pd i off" and ps: "m_page_size pd \<noteq> 0" "m_page_size pd \<noteq> 1"
    and whole: "unat (m_page_size pd) dvd length (contents (view w) i)" and limit: "m_max_disk_size pd \<noteq> 0"
  obtains w' where "pd_prepare_rw P (- 1) (pd, w) = (Ret (Inr ()), (pd, w'))"
    and "view w' = fs_seek (m_fd pd) i (4294967296 - unat (m_page_size pd)) (view w)"
proof -
  let ?ps = "m_page_size pd" and ?xs = "contents (view w) i"
  obtain w1 where 1: "pd_prepare_rw P (- 1) (pd, w) =
      noexcept (pd_prepare_sized P (- 1) (of_nat (length ?xs))) (pd, w1)" and v1: "view w1 = view w"
    using h ps(1) whole by (rule pd_prepare_rw_unfold)
  have neg: "unat (- ?ps) = 4294967296 - unat ?ps" using ps(1) by (rule unat_neg_uint)
  have fd: "fds (view w1) (m_fd pd) = Some (i, off)" "- ?ps \<noteq> - 1" using h v1 ps(2) by (simp_all add: handle_def)
  then obtain w2 where 2: "pd_seek P (- ?ps) (pd, w1) = (Ret (Inr ()), (pd, w2))"
    and v2: "view w2 = fs_seek (m_fd pd) i (unat (- ?ps)) (view w1)" by (rule pd_seek_run)
  have "pd_prepare_sized P (- 1) (of_nat (length ?xs)) (pd, w1) = (Ret (Inr ()), (pd, w2))"
    using limit 2 by (simp add: pd_prepare_sized_def Let_def pd_grow_to_def prop_if_error_value word_le_nat_alt unat_eq_zero)
  then have "pd_prepare_rw P (- 1) (pd, w) = (Ret (Inr ()), (pd, w2))"
    unfolding 1 by (rule noexcept_eqs)
  then show thesis using v1 v2 neg by (intro that) simp_all
qed

lemma pd_write_wraps:
  assumes h: "handle (view w) pd i off" and ps: "m_page_size pd \<noteq> 0" "m_page_size pd \<noteq> 1"
    and whole: "unat (m_page_size pd) dvd length (contents (view w) i)" and limit: "m_max_disk_size pd \<noteq> 0"
    and data: "unat (m_page_size pd) \<le> length data"
  obtains w' where "pd_write P (- 1) data (pd, w) = (Ret (Inr ()), (pd, w'))"
    and "view w' = fs_seek (m_fd pd) i 4294967296
      (fs_set i (put_bytes (4294967296 - unat (m_page_size pd)) (take (unat (m_page_size pd)) data)
         (contents (view w) i)) (view w))"
proof -
  let ?ps = "unat (m_page_size pd)" and ?xs = "contents (view w) i" and ?fd = "m_fd pd"
  let ?bs = "take ?ps data"
  obtain w1 where 1: "pd_prepare_rw P (- 1) (pd, w) = (Ret (Inr ()), (pd, w1))"
    and v1: "view w1 = fs_seek ?fd i (4294967296 - ?ps) (view w)"
    using h ps whole limit by (rule pd_prepare_rw_wraps)
  have "fds (view w1) ?fd = Some (i, 4294967296 - ?ps)" using v1 by simp
  then obtain w2 where 2: "sys_write P ?fd ?bs w1 = (Inr (length ?bs), w2)"
    and v2: "view w2 = fs_seek ?fd i (4294967296 - ?ps + length ?bs)
      (fs_set i (put_bytes (4294967296 - ?ps) ?bs (contents (view w1) i)) (view w1))" by (rule write_run)
  have "fds (view w2) ?fd = Some (i, 4294967296 - ?ps + length ?bs)" using v2 by simp
  then obtain w3 where 3: "pd_sync P (pd, w2) = (Ret (Inr ()), (pd, w3))" and v3: "view w3 = view w2"
    by (rule pd_sync_run)
  have len: "length ?bs = ?ps" using data by simp
  have "4294967296 - ?ps + ?ps = 4294967296" using unat_uint_less [of "m_page_size pd"] by linarith
  then have "view w3 = fs_seek ?fd i 4294967296
      (fs_set i (put_bytes (4294967296 - ?ps) ?bs ?xs) (view w))"
    unfolding v3 v2 v1 len by (simp add: fs_defs)
  moreover have "pd_write P (- 1) data (pd, w) = (Ret (Inr ()), (pd, w3))"
    using 1 2 3 data len by (simp add: pd_write_def mem_read_def run_simps)
  ultimately show thesis by (intro that)
qed

lemma pdm_write_wraps:
  assumes lf: "loaded_file m (view w) disk_id i" and ps: "dm_page_size m \<noteq> 1"
    and limit: "max_disk_byte_size m \<noteq> 0" and data: "unat (dm_page_size m) \<le> length bytes"
  obtains w' where "pdm_write P disk_id (- 1) bytes (m, w) = (Ret (Inr ()), (m, w'))"
    and "view w' = fs_set i (put_bytes (4294967296 - unat (dm_page_size m))
      (take (unat (dm_page_size m)) bytes) (contents (view w) i)) (view w)"
proof -
  let ?ps = "unat (dm_page_size m)" and ?xs = "contents (view w) i"
  let ?ys = "put_bytes (4294967296 - ?ps) (take ?ps bytes) ?xs"
  let ?body = "prop_if_error (past_fst (pd_write P (- 1) bytes)) (retc (Inr ()))
    :: (posix_disk \<times> pdm \<times> 'a, (unit, DiskManagerErrorCode) result) cpp"
  obtain p where p: "disk_path m disk_id = Some p" "names (view w) p = Some i"
    using lf by (auto simp: loaded_file_def)
  have body: "\<exists>off w2. ?body (pd, m, w1) = (Ret (Inr ()), (pd, m, w2))
      \<and> view w2 = fs_seek (m_fd pd) i off (fs_set i ?ys (view w))"
    if pd: "pd = posix_disk_new p (m_fd pd) (dm_page_size m) (max_disk_byte_size m)"
      and h: "handle (view w1) pd i 0" and v1: "view w1 = fs_open i (m_fd pd) (view w)" for pd w1
  proof -
    have sel: "m_page_size pd = dm_page_size m" "m_max_disk_size pd = max_disk_byte_size m"
      by (subst pd, simp add: posix_disk_new_def)+
    have side: "m_page_size pd \<noteq> 0" "m_page_size pd \<noteq> 1" "m_max_disk_size pd \<noteq> 0"
      "unat (m_page_size pd) dvd length (contents (view w1) i)" "unat (m_page_size pd) \<le> length bytes"
      using lf ps limit data v1 by (simp_all add: sel loaded_file_def)
    obtain w2 where 2: "pd_write P (- 1) bytes (pd, w1) = (Ret (Inr ()), (pd, w2))"
      and v2: "view w2 = fs_seek (m_fd pd) i 4294967296
        (fs_set i (put_bytes (4294967296 - unat (m_page_size pd)) (take (unat (m_page_size pd)) bytes)
           (contents (view w1) i)) (view w1))"
      using h side(1,2,4,3,5) by (rule pd_write_wraps)
    have "?body (pd, m, w1) = (Ret (Inr ()), (pd, m, w2))"
      using 2 by (simp add: prop_if_error_value past_fst_eq)
    moreover have "view w2 = fs_seek (m_fd pd) i 4294967296 (fs_set i ?ys (view w))"
      unfolding v2 v1 by (simp add: sel fs_defs)
    ultimately show ?thesis by blast
  qed
  from p body obtain w' where
    "with_disk (init_for P) (pd_destructor P) disk_id ?body (m, w) = (Ret (Inr ()), (m, w'))"
    and "view w' = fs_set i ?ys (view w)" by (rule with_disk_run)
  then show thesis by (intro that [of w']) (simp_all add: pdm_write_def noexcept_def)
qed

end

section \<open>The file a call is about\<close>

fun target :: "pdm \<Rightarrow> dm_cmd \<Rightarrow> string option" where
  "target m (Create nm) = Some (path_of_file m (get_disk_full_name nm))"
| "target m (Load nm) = Some (path_of_file m (get_disk_full_name nm))"
| "target m (Unload i) = None"
| "target m (Destroy i) = disk_path m i"
| "target m (Write i cur bs) = disk_path m i"
| "target m (Read i cur buf) = disk_path m i"
| "target m (Size i) = disk_path m i"
| "target m (Extend i) = disk_path m i"
| "target m _ = None"

definition untouched :: "fs_view \<Rightarrow> string option \<Rightarrow> fs_view \<Rightarrow> bool" where
  \<comment> \<open>every file but the named one is as before\<close>
  "untouched v p v' \<longleftrightarrow> no_hard_links v' \<and> (\<forall>q. p \<noteq> Some q \<longrightarrow> file_at v' q = file_at v q)"

definition size_frame :: "('w \<Rightarrow> fs_view) \<Rightarrow> int32 \<Rightarrow> pdm \<times> 'w \<Rightarrow> pdm \<times> 'w \<Rightarrow> bool" where
  "size_frame vw i s s' \<longleftrightarrow> fst s' = fst s
     \<and> (no_hard_links (vw (snd s)) \<longrightarrow> untouched (vw (snd s)) (disk_path (fst s) i) (vw (snd s')))"

lemma size_frame_refl [simp]: "reflp (size_frame vw i)"
  by (simp add: reflp_def size_frame_def untouched_def)

lemma size_frame_trans [simp]: "transp (size_frame vw i)"
  by (auto simp: transp_def size_frame_def untouched_def)

lemma replies_snd [simp]: "snd (replies f m s) = snd (m s)"
  by (auto simp: replies_def bindc_def split: prod.splits outcome.splits)

lemma read_into_snd:
  "snd (read_into P i cur buf (m, w)) = (case pdm_read P i cur (m, buf, w) of (out, (m', buf', w')) \<Rightarrow> (m', w'))"
  by (auto simp: read_into_def split: prod.splits)

context posix_fs begin

lemma extend_frame: "keeps (size_frame view i) (Posix_Disk_Manager.extend P i)"
proof -
  have "keeps (size_frame view i) (disk_byte_size P i)"
    by (rule keepsI) (auto simp: size_frame_def untouched_def dest: disk_byte_size_frame size_manager)
  then show ?thesis unfolding Posix_Disk_Manager.extend_def
    by (intro keeps_noexcept keeps_unwrap_or_prop_error)
      (auto intro!: keeps_bindc keeps_getc keeps_liftc keeps_retc)
qed

lemma named_untouched:
  "named_frame view nm (m, w) (m', w') \<Longrightarrow> no_hard_links (view w) \<Longrightarrow>
    untouched (view w) (Some (path_of_file m (get_disk_full_name nm))) (view w')"
  by (auto simp: named_frame_def untouched_def others_same_def)

theorem exec_untouched:
  assumes run: "exec P c (m, w) = (out, (m', w'))" and links: "no_hard_links (view w)"
  shows "untouched (view w) (target m c) (view w')"
proof -
  have out: "snd (exec P c (m, w)) = (m', w')" using run by simp
  show ?thesis
  proof (cases c)
    case (Create nm)
    then have "named_frame view nm (m, w) (m', w')"
      using create_frame out by (simp add: keeps_def) metis
    then show ?thesis using Create links by (simp add: named_untouched)
  next
    case (Load nm)
    then have "named_frame view nm (m, w) (m', w')"
      using load_frame out by (simp add: keeps_def) metis
    then show ?thesis using Load links by (simp add: named_untouched)
  next
    case (Unload i)
    then show ?thesis using out links by (auto simp: unload_run untouched_def split: if_splits)
  next
    case (Destroy i)
    then show ?thesis using out links destroy_frame
      by (cases "destroy P i (m, w)") (auto simp: untouched_def)
  next
    case (Write i cur bs)
    then show ?thesis using out links pdm_write_frame
      by (cases "pdm_write P i cur bs (m, w)") (auto simp: untouched_def)
  next
    case (Read i cur buf)
    then show ?thesis using out links pdm_read_frame
      by (cases "pdm_read P i cur (m, buf, w)") (auto simp: untouched_def read_into_snd split: prod.splits)
  next
    case (Size i)
    then show ?thesis using out links disk_byte_size_frame
      by (cases "disk_byte_size P i (m, w)") (auto simp: untouched_def)
  next
    case (Extend i)
    then have "size_frame view i (m, w) (m', w')" using extend_frame out by (simp add: keeps_def) metis
    then show ?thesis using Extend links by (simp add: size_frame_def)
  next
    case (Exists nm)
    then have "view w' = view w"
      using out by (auto simp: pdm_exists_def on_snd_def zoom_def dest: pd_exists_view split: prod.splits)
    then show ?thesis using links by (simp add: untouched_def)
  qed (use out links in \<open>auto simp: untouched_def is_loaded_run loaded_disk_name_run num_loaded_run\<close>)
qed

end

section \<open>A write, other calls, and a read\<close>

lemma exec_all_append:
  "exec_all P cs s = (Ret rs, s1) \<Longrightarrow> exec_all P ds s1 = (Ret rs', s2) \<Longrightarrow>
    exec_all P (cs @ ds) s = (Ret (rs @ rs'), s2)"
proof (induction cs arbitrary: s rs)
  case (Cons c cs)
  then obtain r s' rs0 where 1: "exec P c s = (Ret r, s')" "exec_all P cs s' = (Ret rs0, s1)" "rs = r # rs0"
    by (auto elim!: bindc_RetE)
  then have "exec_all P (cs @ ds) s' = (Ret (rs0 @ rs'), s2)" using Cons by blast
  then show ?case using 1 by (simp add: bindc_eqs)
qed simp

lemma spec_all_append:
  "spec_all (cs @ ds) st =
    (case spec_all cs st of (rs, st') \<Rightarrow> case spec_all ds st' of (rs', st'') \<Rightarrow> (rs @ rs', st''))"
  by (induction cs arbitrary: st) (auto split: prod.splits)

lemma spec_write_page:
  assumes "st_fits st cur" and "st_table st i = Some p" and "st_files st p \<noteq> None" and "st_page st \<le> length bs"
  obtains st1 where "spec (Write i cur bs) st = (Inr R_Done, st1)" and "st_page st1 = st_page st"
    and "st_limit st1 = st_limit st" and "st_page_at st1 p (unat cur) = Some (take (st_page st) bs)"
  using assms by (auto simp: on_disk_def st_page_at_def get_page_put_page)

lemma spec_write_then_read:
  assumes fits: "st_fits st cur" and i: "st_table st i = Some p" and present: "st_files st p \<noteq> None"
    and whole: "st_page st \<le> length bs" "\<forall>c \<in> set cs. writes_whole st c"
    and undist: "undisturbed (snd (spec (Write i cur bs) st)) p (unat cur) cs"
    and j: "st_table (snd (spec_all (Write i cur bs # cs) st)) j = Some p"
  obtains rs where "fst (spec_all (Write i cur bs # cs @ [Read j cur buf]) st) =
    Inr R_Done # rs @ [Inr (R_Buf (overwrite 0 (take (st_page st) bs) buf))]"
proof -
  obtain st1 where 1: "spec (Write i cur bs) st = (Inr R_Done, st1)" and st1: "st_page st1 = st_page st"
    "st_limit st1 = st_limit st" and page: "st_page_at st1 p (unat cur) = Some (take (st_page st) bs)"
    using fits i present whole(1) by (rule spec_write_page)
  obtain rs st2 where 2: "spec_all cs st1 = (rs, st2)" by fastforce
  have "\<forall>c \<in> set cs. writes_whole st1 c" using whole(2) writes_whole_page [of st1 st] by (simp add: st1)
  then have "st_page_at (snd (spec_all cs st1)) p (unat cur) = Some (take (st_page st) bs)"
    using page undist 1 by (intro spec_all_keeps_page) simp_all
  then obtain ys where ys: "st_files st2 p = Some ys" "get_page (st_page st2) (unat cur) ys = take (st_page st) bs"
    using 2 by (auto simp: st_page_at_def)
  have const: "st_page st2 = st_page st" "st_limit st2 = st_limit st"
    using spec_all_constants [OF 2] by (simp_all add: st1)
  have "st_table st2 j = Some p" using j 1 2 by simp
  then have "fst (spec (Read j cur buf) st2) = Inr (R_Buf (overwrite 0 (take (st_page st) bs) buf))"
    using ys fits const by (simp add: on_disk_def st_fits_def)
  then show thesis using 1 2 by (intro that [of rs]) (auto simp: spec_all_append split: prod.splits)
qed

section \<open>A system to run on\<close>

text \<open>
  The witnesses run on an empty file system in lists, with a manager of two-byte pages and
  a limit of sixteen bytes.
\<close>

definition empty_world :: sim_world where
  "empty_world = \<lparr>sim_names = [], sim_data = [], sim_fds = [], sim_faults = []\<rparr>"

definition small_manager :: pdm where
  "small_manager = pdm_new ''d'' 2 16"

definition small_store :: store where
  "small_store =
     \<lparr>st_dir = ''d'', st_page = 2, st_limit = 16, st_files = (\<lambda>p. None), st_table = (\<lambda>i. None), st_next = 0\<rparr>"

lemma small_store_of: "store_of sim_view (small_manager, empty_world) = small_store"
  by (simp add: store_of_def small_manager_def pdm_new_eq empty_world_def small_store_def file_at_def
      disk_path_def fun_eq_iff)

lemma small_inv: "store_inv sim_view (small_manager, empty_world)"
  by (simp add: store_inv_def no_hard_links_def small_manager_def pdm_new_eq empty_world_def file_at_def)

lemma small_manager_sel [simp]:
  "dm_page_size small_manager = 2" "max_disk_byte_size small_manager = 16" "cur_disk_id small_manager = 0"
  "disks small_manager = []" "dir_path small_manager = ''d''"
  by (simp_all add: small_manager_def pdm_new_eq)

lemma small_store_sel [simp]:
  "st_dir small_store = ''d''" "st_page small_store = 2" "st_limit small_store = 16"
  "st_files small_store p = None" "st_table small_store i = None" "st_next small_store = 0"
  by (simp_all add: small_store_def)

lemmas run_spec = small_store_def spec_load_def on_disk_def st_fits_def st_path_def get_disk_full_name_def
  disk_suffix_def put_page_def get_page_def grow_def extend_to_def overwrite_def

section \<open>Properties\<close>

text \<open>
  C1. On a reliable system, in a directory whose disks are whole pages within the limit, any sequence of
  calls to \<open>PosixDiskManager\<close>, of every virtual method of \<open>DiskManager\<close>, returns, answers as the
  store of pages does, call by call, and leaves the store the specification leaves: the manager with
  its files refines \<open>spec_all\<close>.  The calls are those whose page ends below 2 ^ 32 and whose buffer
  holds a page (\<open>admissible\<close>), and no more of them than there are ids left.
\<close>

theorem store_refinement:
  assumes "posix_reliable P view" and "store_inv view s"
    and "\<forall>c \<in> set cs. admissible (fst s) c" and "unat (cur_disk_id (fst s)) + length cs \<le> INT_MAX"
  shows "\<exists>rs s'. exec_all P cs s = (Ret rs, s') \<and> spec_all cs (store_of view s) = (rs, store_of view s')
    \<and> store_inv view s'"
  using posix_reliable.exec_all_refines [OF assms] by blast

theorem store_refinement_witness:
  "fst (exec_all calm_posix [Create ''a'', Write 0 1 [7, 8], Read 0 1 [0, 0], Read 5 0 [0, 0]]
     (small_manager, empty_world)) =
   Ret [Inr (R_Id 0), Inr R_Done, Inr (R_Buf [7, 8]), Inl DISK_NOT_FOUND]"
proof -
  let ?cs = "[Create ''a'', Write 0 1 [7, 8], Read 0 1 [0, 0], Read 5 0 [0, 0]]"
  have "\<exists>rs s'. exec_all calm_posix ?cs (small_manager, empty_world) = (Ret rs, s')
      \<and> spec_all ?cs (store_of sim_view (small_manager, empty_world)) = (rs, store_of sim_view s')
      \<and> store_inv sim_view s'"
    using calm.posix_reliable_axioms small_inv by (rule store_refinement) (simp_all add: no_wrap_def)
  moreover have "fst (spec_all ?cs small_store) =
      [Inr (R_Id 0), Inr R_Done, Inr (R_Buf [7, 8]), Inl DISK_NOT_FOUND]"
    by (simp add: run_spec)
  ultimately show ?thesis by (auto simp: small_store_of)
qed

text \<open>
  C2. A page stays as written: on a reliable system, in a directory whose disks are whole pages within
  the limit, after a write to a loaded disk that fits, any calls that neither write that page nor
  destroy its disk (through whatever id) leave it, and a read through any id loaded on the same file
  returns the bytes that were written.  All the calls are \<open>admissible\<close>: a cursor whose page ends past
  2 ^ 32 can lose the page, since it leaves a file of 4 GB that the next access truncates.
\<close>

theorem page_survives:
  assumes sys: "posix_reliable P view" and inv: "store_inv view s"
    and adm: "\<forall>c \<in> set (Write i cur bs # cs @ [Read j cur buf]). admissible (fst s) c"
    and ids: "unat (cur_disk_id (fst s)) + length cs + 2 \<le> INT_MAX"
    and fits: "fits (fst s) cur" and i: "disk_path (fst s) i = Some p" and present: "file_at (view (snd s)) p \<noteq> None"
    and undist: "undisturbed (snd (spec (Write i cur bs) (store_of view s))) p (unat cur) cs"
    and j: "st_table (snd (spec_all (Write i cur bs # cs) (store_of view s))) j = Some p"
  shows "\<exists>rs s'. exec_all P (Write i cur bs # cs @ [Read j cur buf]) s =
    (Ret (Inr R_Done # rs @ [Inr (R_Buf (overwrite 0 (take (unat (dm_page_size (fst s))) bs) buf))]), s')"
proof -
  obtain m w where s: "s = (m, w)" by (cases s)
  have whole: "writes_whole (store_of view s) c" if "admissible m c" for c
    using that by (cases c) (simp_all add: writes_whole_def s)
  let ?cs = "Write i cur bs # cs @ [Read j cur buf]"
  have "length ?cs = length cs + 2" by simp
  then have "unat (cur_disk_id (fst s)) + length ?cs \<le> INT_MAX" using ids by simp
  then obtain rs s' where run: "exec_all P ?cs s = (Ret rs, s')" "spec_all ?cs (store_of view s) = (rs, store_of view s')"
    using posix_reliable.exec_all_refines [OF sys inv adm] by blast
  obtain rs' where "fst (spec_all ?cs (store_of view s)) =
      Inr R_Done # rs' @ [Inr (R_Buf (overwrite 0 (take (st_page (store_of view s)) bs) buf))]"
  proof (rule spec_write_then_read)
    show "st_fits (store_of view s) cur" "st_table (store_of view s) i = Some p"
      "st_files (store_of view s) p \<noteq> None" "st_page (store_of view s) \<le> length bs"
      "\<forall>c \<in> set cs. writes_whole (store_of view s) c"
      using fits i present adm whole by (simp_all add: s)
  qed (use undist j in auto)
  then show ?thesis using run by (auto simp: s)
qed

text \<open>A disk \<open>a\<close> of no bytes, loaded as 0 and as 1.\<close>

definition loaded_world :: sim_world where
  "loaded_world = \<lparr>sim_names = [(''d/a.disk'', 1)], sim_data = [(1, [])], sim_fds = [], sim_faults = []\<rparr>"

definition loaded_manager :: pdm where
  "loaded_manager =
     small_manager\<lparr>disks := [(0, ''a.disk''), (1, ''a.disk'')], cur_disk_id := 2\<rparr>"

definition loaded_store :: store where
  "loaded_store = small_store\<lparr>st_files := [''d/a.disk'' \<mapsto> []],
     st_table := [0 \<mapsto> ''d/a.disk'', 1 \<mapsto> ''d/a.disk''], st_next := 2\<rparr>"

lemma loaded_manager_sel [simp]:
  "dm_page_size loaded_manager = 2" "max_disk_byte_size loaded_manager = 16" "cur_disk_id loaded_manager = 2"
  "disks loaded_manager = [(0, ''a.disk''), (1, ''a.disk'')]" "dir_path loaded_manager = ''d''"
  by (simp_all add: loaded_manager_def)

lemma loaded_files: "file_at (sim_view loaded_world) = [''d/a.disk'' \<mapsto> []]"
  by (auto simp: file_at_def loaded_world_def sim_contents_def fun_eq_iff)

lemma loaded_paths: "disk_path loaded_manager = [0 \<mapsto> ''d/a.disk'', 1 \<mapsto> ''d/a.disk'']"
  by (auto simp: disk_path_def path_of_file_def fun_eq_iff)

lemma loaded_store_of: "store_of sim_view (loaded_manager, loaded_world) = loaded_store"
  by (simp add: store_of_def loaded_store_def small_store_def loaded_files loaded_paths)

lemma loaded_inv: "store_inv sim_view (loaded_manager, loaded_world)"
proof -
  have "no_hard_links (sim_view loaded_world)"
    by (auto simp: no_hard_links_def loaded_world_def split: if_splits)
  moreover have "''a.disk'' = get_disk_full_name ''a''" by (simp add: get_disk_full_name_def disk_suffix_def)
  ultimately show ?thesis
    by (auto simp: store_inv_def loaded_files whole_pages_def split: if_splits)
qed

theorem page_survives_witness:
  "\<exists>rs s'. exec_all calm_posix (Write 0 1 [7, 8] # [Write 1 0 [9, 9], Unload 0, Create ''b''] @ [Read 1 1 [0, 0]])
     (loaded_manager, loaded_world) = (Ret (Inr R_Done # rs @ [Inr (R_Buf [7, 8])]), s')"
proof -
  let ?cs = "[Write 1 0 [9, 9], Unload 0, Create ''b'']"
  let ?st = "store_of sim_view (loaded_manager, loaded_world)"
  have u: "undisturbed (snd (spec (Write 0 1 [7, 8]) ?st)) ''d/a.disk'' (unat (1 :: uint)) ?cs"
    by (simp add: loaded_store_of loaded_store_def run_spec)
  have j: "st_table (snd (spec_all (Write 0 1 [7, 8] # ?cs) ?st)) 1 = Some ''d/a.disk''"
    by (simp add: loaded_store_of loaded_store_def run_spec)
  have "\<exists>rs s'. exec_all calm_posix (Write 0 1 [7, 8] # ?cs @ [Read 1 1 [0, 0]]) (loaded_manager, loaded_world) =
    (Ret (Inr R_Done # rs @ [Inr (R_Buf (overwrite 0 (take (unat (dm_page_size (fst (loaded_manager, loaded_world))))
        [7, 8]) [0, 0]))]), s')"
    using calm.posix_reliable_axioms loaded_inv _ _ _ _ _ u j
    by (rule page_survives) (simp_all add: no_wrap_def fits_def loaded_files loaded_paths)
  then show ?thesis by (simp add: overwrite_def)
qed

text \<open>
  C11. The test program passes: on a reliable system, in a directory whose disks are whole pages within
  the limit and that has no file under the names to come, the test program with its six disk manager
  tests ends with the exit status 0 for every command line whose names are those of tests (options,
  any of the tests in any order and number, or none, which is all), with any contents of fresh memory,
  and leaves the files as they were.
\<close>

theorem test_suite_passes:
  assumes "posix_reliable P view" and "store_inv view (test_manager, w)"
    and "set (names_wanted (disk_tests P mem) args) \<subseteq> fst ` set (disk_tests P mem)" and "length mem = 512"
    and "unat i + length (names_wanted (disk_tests P mem) args) \<le> INT_MAX"
    and "\<forall>k :: int32. unat i \<le> unat k \<longrightarrow> file_at (view w) (test_path (disk_prefix @ show_int (sint k))) = None"
  shows "\<exists>r. test_main prog args (runner_start (disk_tests P mem) (i, w)) = (Ret 0, r)
    \<and> file_at (view (snd (world r))) = file_at (view w)"
proof -
  have "\<exists>i' w'. test_program (disk_tests P mem) args (i, w) = (Ret 0, (i', w')) \<and> file_at (view w') = file_at (view w)"
    using assms by (intro posix_reliable.test_program_passes)
  then obtain i' w' where run: "test_program (disk_tests P mem) args (i, w) = (Ret 0, (i', w'))"
    and "file_at (view w') = file_at (view w)" by blast
  moreover obtain r where "test_main prog args (runner_start (disk_tests P mem) (i, w)) = (Ret 0, r)" "world r = (i', w')"
    using test_main_runs [OF distinct_disk_tests, of prog args P mem "(i, w)"] unfolding run
    by (cases "test_main prog args (runner_start (disk_tests P mem) (i, w))") simp
  ultimately show ?thesis by simp
qed

theorem test_suite_passes_witness:
  "\<exists>r. test_main ''posix_disk_manager_test'' [''-q'', ''posix_disk_manager_create'', ''posix_disk_manager_create'']
    (runner_start (disk_tests calm_posix (replicate 512 7)) (0, empty_world)) = (Ret 0, r)"
proof -
  have none: "file_at (sim_view empty_world) p = None" for p by (simp add: file_at_def empty_world_def)
  have inv: "store_inv sim_view (test_manager, empty_world)"
    by (simp add: store_inv_def none) (simp add: no_hard_links_def empty_world_def)
  have names: "names_wanted (disk_tests calm_posix (replicate 512 7))
      [''-q'', ''posix_disk_manager_create'', ''posix_disk_manager_create'']
      = [''posix_disk_manager_create'', ''posix_disk_manager_create'']"
    by (simp add: names_wanted_def named_def asks_quiet_def)
  show ?thesis
    using test_suite_passes [OF calm.posix_reliable_axioms inv, of "replicate 512 7"
        "[''-q'', ''posix_disk_manager_create'', ''posix_disk_manager_create'']" 0] none
    unfolding names by (fastforce simp: disk_tests_def)
qed

text \<open>
  C4. On a system whose calls may fail at any point (errors, short writes), whatever the outcome
  of a call, an answer, an error, an abort half-way, every file but the one the call is about
  has the bytes it had, and so have all files when the id is not loaded.
\<close>

theorem calls_touch_one_file:
  assumes "posix_fs P view" and "no_hard_links (view w)" and "exec P c (m, w) = (out, (m', w'))"
    and "target m c \<noteq> Some q"
  shows "file_at (view w') q = file_at (view w) q"
  using posix_fs.exec_untouched [OF assms(1,3,2)] assms(4) by (simp add: untouched_def)

definition two_files :: "nat option list \<Rightarrow> sim_world" where
  \<comment> \<open>\<open>d/a.disk\<close> and another file, with the faults to come\<close>
  "two_files faults =
     \<lparr>sim_names = [(''d/a.disk'', 1), (''d/b'', 2)], sim_data = [(1, [1, 2]), (2, [3])],
      sim_fds = [], sim_faults = faults\<rparr>"

lemma two_files_links: "no_hard_links (sim_view (two_files faults))"
  by (auto simp: no_hard_links_def two_files_def split: if_splits)

theorem calls_touch_one_file_witness:
  "file_at (sim_view (snd (snd (exec sim_posix (Write 0 3 [7, 8])
      (loaded_manager, two_files [None, None, None, None, Some 5]))))) ''d/b'' = Some [3]"
proof -
  let ?w = "two_files [None, None, None, None, Some 5]"
  obtain out m' w' where run: "exec sim_posix (Write 0 3 [7, 8]) (loaded_manager, ?w) = (out, (m', w'))"
    by (metis surj_pair)
  have "target loaded_manager (Write 0 3 [7, 8]) \<noteq> Some ''d/b''" by (simp add: loaded_paths)
  then have "file_at (sim_view w') ''d/b'' = file_at (sim_view ?w) ''d/b''"
    using sim.posix_fs_axioms two_files_links run by (intro calls_touch_one_file)
  moreover have "file_at (sim_view ?w) ''d/b'' = Some [3]"
    by (simp add: file_at_def two_files_def sim_contents_def)
  ultimately show ?thesis using run by simp
qed

text \<open>
  C5. A write that fails half-way spares the other pages: on a system whose calls may fail at any
  point or write only a part of their bytes, a write to a page that ends below 2 ^ 32, of a disk whose
  file is smaller than 4 GB, leaves every other page of the disk with its bytes, whatever its
  outcome, and the file neither shrinks nor grows past the page.
\<close>

theorem torn_write_spares_pages:
  assumes "posix_fs P view" and "pdm_write P i cur bytes (m, w) = (out, (m', w'))"
    and "disk_path m i = Some p" and "file_at (view w) p = Some xs" and "length xs < 4294967296"
    and "no_wrap m cur"
  shows "\<exists>xs'. file_at (view w') p = Some xs' \<and> length xs \<le> length xs'
    \<and> length xs' \<le> max (length xs) (unat cur * unat (dm_page_size m) + unat (dm_page_size m))
    \<and> (\<forall>j. j \<noteq> unat cur \<longrightarrow>
        get_page (unat (dm_page_size m)) j xs' = get_page (unat (dm_page_size m)) j xs)"
proof -
  obtain ino where name: "names (view w) p = Some ino" "xs = contents (view w) ino"
    using assms(4) by (auto simp: file_at_def)
  have "names (view w') p = Some ino
      \<and> page_frame (unat (dm_page_size m)) (unat cur) (contents (view w) ino) (contents (view w') ino)"
    using posix_fs.pdm_write_page_frame [OF assms(1-3) name(1)] assms(5,6) name(2) by (simp add: no_wrap_def)
  then show ?thesis using name(2) by (auto simp: file_at_def page_frame_def)
qed

text \<open>
  The ninth call, the \<open>write\<close> of the bytes, fails; the macro runs \<open>PosixDisk::write\<close> again, which
  succeeds, so that \<open>get_error\<close> asserts.
\<close>

theorem torn_write_spares_pages_witness:
  "\<exists>xs. file_at (sim_view (snd (snd (pdm_write sim_posix 0 1 [9, 9]
      (loaded_manager, two_files (replicate 8 None @ [Some 5])))))) ''d/a.disk'' = Some xs \<and> get_page 2 0 xs = [1, 2]"
proof -
  let ?w = "two_files (replicate 8 None @ [Some 5])"
  obtain out m' w' where run: "pdm_write sim_posix 0 1 [9, 9] (loaded_manager, ?w) = (out, (m', w'))"
    by (metis surj_pair)
  have side: "disk_path loaded_manager 0 = Some ''d/a.disk''" "file_at (sim_view ?w) ''d/a.disk'' = Some [1, 2]"
    "length [1 :: byte, 2] < 4294967296" "no_wrap loaded_manager 1"
    by (simp_all add: loaded_paths file_at_def two_files_def sim_contents_def no_wrap_def)
  obtain xs where "file_at (sim_view w') ''d/a.disk'' = Some xs" "get_page 2 0 xs = get_page 2 0 [1, 2]"
    using torn_write_spares_pages [OF sim.posix_fs_axioms run side] by auto
  moreover have "get_page 2 0 [1, 2 :: byte] = [1, 2]" by (simp add: get_page_def grow_def extend_to_def)
  ultimately show ?thesis using run by simp
qed

text \<open>
  C13. Ids are never used twice: in any history of a manager, on any system and with the files
  changed by others between the calls, the ids that \<open>create\<close> and \<open>load\<close> have returned are
  distinct and increasing, and the table holds only ids below the next one, each once.
\<close>

theorem ids_never_reused:
  assumes "run P (pdm_new dir ps mx, w0) h (m, w)"
  shows "distinct (issued h) \<and> sorted_wrt (\<lambda>i j. unat i < unat j) (issued h) \<and> ids_ok m"
proof -
  have "ids_ok (pdm_new dir ps mx)" by (simp add: ids_ok_def pdm_new_eq)
  then have "ids_ok m \<and> sorted_wrt (\<lambda>i j. unat i < unat j) (issued h)" using run_ids [OF assms] by simp
  moreover have "distinct is" if "sorted_wrt (\<lambda>i j. unat i < unat j) is" for "is" :: "int32 list"
    using that by (induction "is") auto
  ultimately show ?thesis by blast
qed

theorem ids_never_reused_witness:
  "\<exists>h s. run calm_posix (small_manager, empty_world) h s \<and> issued h = [0, 1] \<and> distinct (issued h)"
proof -
  let ?s = "(small_manager, empty_world)"
  have one: "\<exists>r s'. exec calm_posix c s = (Ret r, s') \<and> spec c (store_of sim_view s) = (r, store_of sim_view s')
      \<and> store_inv sim_view s'"
    if "store_inv sim_view s" "admissible (fst s) c" "unat (cur_disk_id (fst s)) \<noteq> INT_MAX" for s c
    using calm.exec_refines [of "fst s" "snd s" c] that by (auto simp: refines_def)
  obtain r1 s1 where 1: "exec calm_posix (Create ''a'') ?s = (Ret r1, s1)"
    "spec (Create ''a'') (store_of sim_view ?s) = (r1, store_of sim_view s1)" "store_inv sim_view s1"
    using one [OF small_inv, of "Create ''a''"] by auto
  have st1: "r1 = Inr (R_Id 0)" "store_of sim_view s1 = small_store\<lparr>st_files := [''d/a.disk'' \<mapsto> []],
      st_table := [0 \<mapsto> ''d/a.disk''], st_next := 1\<rparr>"
    using 1(2) by (simp_all add: small_store_of run_spec)
  then have "cur_disk_id (fst s1) = 1" by (simp add: store_of_def small_store_def)
  then obtain r2 s2 where 2: "exec calm_posix (Load ''a'') s1 = (Ret r2, s2)"
    "spec (Load ''a'') (store_of sim_view s1) = (r2, store_of sim_view s2)"
    using one [OF 1(3), of "Load ''a''"] by auto
  have r2: "r2 = Inr (R_Id 1)" using 2(2) by (simp add: st1 run_spec)
  obtain m1 w1 where s1: "s1 = (m1, w1)" by (cases s1)
  have "run calm_posix ?s ([] @ [(Create ''a'', r1)]) s1"
    using 1(1) by (intro run_call [OF run_start])
  then have h: "run calm_posix ?s (([] @ [(Create ''a'', r1)]) @ [(Load ''a'', r2)]) s2"
    using 2(1) unfolding s1 by (rule run_call)
  obtain m2 w2 where s2: "s2 = (m2, w2)" by (cases s2)
  from h [unfolded s2 small_manager_def]
  have "distinct (issued (([] @ [(Create ''a'', r1)]) @ [(Load ''a'', r2)]))"
    by (rule ids_never_reused [THEN conjunct1])
  with h show ?thesis by (intro exI [of _ "[(Create ''a'', r1), (Load ''a'', r2)]"] exI [of _ s2]) (simp add: st1 r2)
qed

section \<open>Limits, descriptors and faults\<close>

text \<open>
  C20. A cursor of -1 passes the size check: the offset and the new size wrap around, so the
  write goes through and leaves a file of 4 GB, whatever the maximal disk size is.
\<close>

theorem wrapped_cursor_write:
  assumes "posix_reliable P view" and "loaded_file m (view w) disk_id i" and "dm_page_size m \<noteq> 1"
    and "max_disk_byte_size m \<noteq> 0" and "unat (dm_page_size m) \<le> length bytes"
  shows "\<exists>w'. pdm_write P disk_id (- 1) bytes (m, w) = (Ret (Inr ()), (m, w'))
    \<and> length (contents (view w') i) = 4294967296"
proof -
  let ?ps = "unat (dm_page_size m)" and ?xs = "contents (view w) i"
  obtain w' where 1: "pdm_write P disk_id (- 1) bytes (m, w) = (Ret (Inr ()), (m, w'))"
    and v: "view w' = fs_set i (put_bytes (4294967296 - ?ps) (take ?ps bytes) ?xs) (view w)"
    using assms(2-5) by (rule posix_reliable.pdm_write_wraps [OF assms(1)])
  have "?ps \<noteq> 0" using assms(2) by (simp add: loaded_file_def unat_eq_zero)
  then have ne: "take ?ps bytes \<noteq> []" using assms(5) by auto
  have "?ps \<le> 4294967296" by (rule less_imp_le [OF unat_uint_less])
  moreover have "length (take ?ps bytes) = ?ps" using assms(5) by simp
  ultimately have "4294967296 - ?ps + length (take ?ps bytes) = 4294967296" by linarith
  moreover have "length ?xs < 4294967296" using assms(2) by (simp add: loaded_file_def)
  ultimately have "length (contents (view w') i) = 4294967296"
    by (simp only: v view_set_sel fun_upd_same length_put_bytes ne if_False)
  then show ?thesis using 1 by blast
qed

lemma loaded_small: "loaded_file loaded_manager (sim_view loaded_world) 0 1"
  by (simp add: loaded_file_def loaded_paths) (simp add: loaded_world_def sim_contents_def)

theorem wrapped_cursor_write_witness:
  "max_disk_byte_size loaded_manager = 16
    \<and> (\<exists>w'. pdm_write calm_posix 0 (- 1) [7, 8] (loaded_manager, loaded_world) = (Ret (Inr ()), (loaded_manager, w'))
        \<and> length (contents (sim_view w') 1) = 4294967296)"
  using wrapped_cursor_write [OF calm.posix_reliable_axioms loaded_small, of "[7, 8]"] by simp

text \<open>
  C35. The last page of a full disk cannot be used: a page that ends exactly at the maximal size
  is refused, for writing and for reading, and nothing changes.
\<close>

theorem last_page_refused:
  assumes sys: "posix_reliable P view" and lf: "loaded_file m (view w) disk_id i"
    and last: "unat cur * unat (dm_page_size m) + unat (dm_page_size m) = unat (max_disk_byte_size m)"
  shows "(\<exists>w'. pdm_write P disk_id cur bytes (m, w) = (Ret (Inl DISK_EXCEEDS_MAX_SIZE), (m, w')) \<and> view w' = view w)
    \<and> (\<exists>w'. pdm_read P disk_id cur (m, buf, w) = (Ret (Inl DISK_EXCEEDS_MAX_SIZE), (m, buf, w')) \<and> view w' = view w)"
proof -
  have "of_nat (unat cur * unat (dm_page_size m) + unat (dm_page_size m)) = max_disk_byte_size m"
    unfolding last by simp
  then have ex: "exceeds m cur" by (simp add: exceeds_def)
  obtain w1 where "pdm_write P disk_id cur bytes (m, w) = (Ret (Inl DISK_EXCEEDS_MAX_SIZE), (m, w1))" "view w1 = view w"
    using lf ex by (rule posix_reliable.pdm_write_exceeds [OF sys])
  moreover obtain w2 where "pdm_read P disk_id cur (m, buf, w) = (Ret (Inl DISK_EXCEEDS_MAX_SIZE), (m, buf, w2))"
    "view w2 = view w" using lf ex by (rule posix_reliable.pdm_read_exceeds [OF sys])
  ultimately show ?thesis by blast
qed

theorem last_page_refused_witness:
  "\<exists>w'. pdm_write calm_posix 0 7 [7, 8] (loaded_manager, loaded_world) = (Ret (Inl DISK_EXCEEDS_MAX_SIZE), (loaded_manager, w'))"
proof -
  have "unat (7 :: int32) * unat (dm_page_size loaded_manager) + unat (dm_page_size loaded_manager) =
      unat (max_disk_byte_size loaded_manager)" by simp
  from last_page_refused [OF calm.posix_reliable_axioms loaded_small this] show ?thesis by blast
qed

text \<open>
  \<open>extend\<close> does not extend: two calls in a row answer the same page, one past the first page
  behind the end of the file, and the store is as before.
\<close>

theorem extend_same_page_twice:
  assumes sys: "posix_reliable P view" and inv: "store_inv view s" and i: "disk_path (fst s) i = Some p"
    and xs: "file_at (view (snd s)) p = Some xs" and ids: "unat (cur_disk_id (fst s)) + 2 \<le> INT_MAX"
  shows "\<exists>s' n. n = of_nat (length xs div unat (dm_page_size (fst s)) + 1)
    \<and> exec_all P [Extend i, Extend i] s = (Ret [Inr (R_Id n), Inr (R_Id n)], s')
    \<and> store_of view s' = store_of view s"
proof -
  have "\<forall>c \<in> set [Extend i, Extend i]. admissible (fst s) c" by simp
  moreover have "unat (cur_disk_id (fst s)) + length [Extend i, Extend i] \<le> INT_MAX" using ids by simp
  ultimately obtain rs s' where run: "exec_all P [Extend i, Extend i] s = (Ret rs, s')"
    and sp: "spec_all [Extend i, Extend i] (store_of view s) = (rs, store_of view s')"
    using posix_reliable.exec_all_refines [OF sys inv] by blast
  obtain m w where s: "s = (m, w)" by (cases s)
  let ?n = "of_nat (length xs div unat (dm_page_size m) + 1) :: int32"
  have "spec (Extend i) (store_of view s) = (Inr (R_Id ?n), store_of view s)"
    using i xs by (simp add: on_disk_def s)
  then have "rs = [Inr (R_Id ?n), Inr (R_Id ?n)]" "store_of view s' = store_of view s"
    using sp by simp_all
  then show ?thesis using run by (auto simp: s)
qed

theorem extend_same_page_twice_witness:
  "\<exists>s. exec_all calm_posix [Extend 0, Extend 0] (loaded_manager, loaded_world) = (Ret [Inr (R_Id 1), Inr (R_Id 1)], s)"
  using extend_same_page_twice [OF calm.posix_reliable_axioms loaded_inv, of 0 "''d/a.disk''" "[]"]
  by (auto simp: loaded_files loaded_paths)

text \<open>
  C29. Descriptors: on a reliable system, in a directory whose disks are whole pages within the limit, a
  sequence of \<open>admissible\<close> calls leaves open exactly one new descriptor for each disk that
  it destroys; every other call, whether it succeeds or answers an error, closes what it opened.
\<close>

theorem descriptors_left_open:
  assumes "posix_reliable P view" and "store_inv view s"
    and "\<forall>c \<in> set cs. admissible (fst s) c" and "unat (cur_disk_id (fst s)) + length cs \<le> INT_MAX"
  shows "\<exists>rs s' left. exec_all P cs s = (Ret rs, s') \<and> distinct left
    \<and> length left = length (filter (\<lambda>(c, r). leaks c r) (zip cs rs))
    \<and> set left \<inter> dom (fds (view (snd s))) = {}
    \<and> dom (fds (view (snd s'))) = dom (fds (view (snd s))) \<union> set left"
  using posix_reliable.exec_all_descriptors [OF assms] .

theorem descriptors_left_open_witness:
  "\<exists>rs s'. exec_all calm_posix [Create ''a'', Write 0 1 [7, 8], Destroy 0, Destroy 0, Create ''b'', Destroy 1]
      (small_manager, empty_world) = (Ret rs, s') \<and> card (dom (fds (sim_view (snd s')))) = 2"
proof -
  let ?cs = "[Create ''a'', Write 0 1 [7, 8], Destroy 0, Destroy 0, Create ''b'', Destroy 1]"
  have adm: "\<forall>c \<in> set ?cs. admissible (fst (small_manager, empty_world)) c" by (simp add: no_wrap_def)
  have ids: "unat (cur_disk_id (fst (small_manager, empty_world))) + length ?cs \<le> INT_MAX" by simp
  obtain rs s' left where 1: "exec_all calm_posix ?cs (small_manager, empty_world) = (Ret rs, s')" "distinct left"
    "length left = length (filter (\<lambda>(c, r). leaks c r) (zip ?cs rs))"
    "dom (fds (sim_view (snd s'))) = dom (fds (sim_view (snd (small_manager, empty_world)))) \<union> set left"
    using descriptors_left_open [OF calm.posix_reliable_axioms small_inv adm ids] by blast
  have "fst (spec_all ?cs small_store) = rs"
    using posix_reliable.exec_all_refines [OF calm.posix_reliable_axioms small_inv adm ids] 1(1)
    by (auto simp: small_store_of)
  moreover have "fst (spec_all ?cs small_store) =
      [Inr (R_Id 0), Inr R_Done, Inr R_Done, Inl DISK_NOT_FOUND, Inr (R_Id 1), Inr R_Done]"
    by (simp add: run_spec)
  ultimately have "length left = 2" using 1(3) by (auto simp: leaks_def)
  moreover have "dom (fds (sim_view (snd s'))) = set left" using 1(4) by (simp add: empty_world_def)
  ultimately show ?thesis using 1(1,2) by (auto simp: distinct_card)
qed

text \<open>
  C21. An error that comes or goes between two system calls ends the process: \<open>init\<close> evaluates
  \<open>exists\<close> twice, so when the first answers and the second fails the empty value is unwrapped in
  a \<open>noexcept\<close> function, and when the first fails and the second answers \<open>get_error\<close> asserts.
\<close>

theorem transient_error_kills_load:
  assumes "sys_access P (path_of_file m (get_disk_full_name nm)) w = (r1, w1)"
    and "sys_access P (path_of_file m (get_disk_full_name nm)) w1 = (r2, w2)"
    and "err \<noteq> ENOENT" and "r1 = Inr () \<and> r2 = Inl err \<or> r1 = Inl err \<and> r2 = Inr ()"
  shows "load P nm (m, w) =
    (Fault (if r1 = Inr () then Terminated else Assertion_Failed), (m, w2))"
proof -
  let ?p = "path_of_file m (get_disk_full_name nm)"
  have e: "pd_exists P ?p w = (Ret (if r1 = Inr () then Inr True else Inl UNKOWN_ERROR), w1)"
    "pd_exists P ?p w1 = (Ret (if r2 = Inr () then Inr True else Inl UNKOWN_ERROR), w2)"
    using assms by (auto simp: pd_exists_def bindc_def posix_call_def noexcept_def)
  have "pd_init P ?p True ps mx w = (Fault (if r1 = Inr () then Terminated else Assertion_Failed), w2)" for ps mx
  proof (cases "r1 = Inr ()")
    case True
    then have "pd_exists P ?p w = (Ret (Inr True), w1)" "pd_exists P ?p w1 = (Ret (Inl UNKOWN_ERROR), w2)"
      "dm_what UNKOWN_ERROR = Ret ''disk manager unknown error''"
      using e assms(4) by auto
    then show ?thesis using True unfolding pd_init_def noexcept_def by (subst unwrap_value_then_error) auto
  next
    case False
    then have "pd_exists P ?p w = (Ret (Inl UNKOWN_ERROR), w1)" "pd_exists P ?p w1 = (Ret (Inr True), w2)"
      using e assms(4) by auto
    then show ?thesis using False unfolding pd_init_def noexcept_def by (subst unwrap_error_then_value) auto
  qed
  then show ?thesis by (simp add: load_def bindc_def on_snd_eq noexcept_def)
qed

theorem transient_error_kills_load_witness:
  "\<exists>w. load sim_posix ''a'' (small_manager, two_files [None, Some 5]) = (Fault Terminated, (small_manager, w))"
proof -
  let ?p = "path_of_file small_manager (get_disk_full_name ''a'')"
  obtain w1 where 1: "sys_access sim_posix ?p (two_files [None, Some 5]) = (Inr (), w1)" and w1: "w1 = two_files [Some 5]"
    by (simp add: path_of_file_def get_disk_full_name_def disk_suffix_def two_files_def sim_posix_def
        sim_on_name_def sim_call_def)
  obtain w2 where 2: "sys_access sim_posix ?p w1 = (Inl (Errno 5), w2)"
    by (simp add: w1 path_of_file_def get_disk_full_name_def disk_suffix_def two_files_def sim_posix_def
        sim_on_name_def sim_call_def)
  show ?thesis using transient_error_kills_load [OF 1 2, of "Errno 5"] by auto
qed

end
