(* ===== verification/Disk_Lives.thy ===== *)
theory Disk_Lives
  imports Disk_Properties
begin

text \<open>
  Managers one after another.  \<open>PosixDiskManager\<close> keeps its table of ids in memory only, so a
  manager constructed later, over the same directory, starts with no disk loaded and with the
  first id; what earlier managers left is in the files.  \<open>run_lives\<close> runs a list of calls on each
  manager in turn, \<open>spec_lives\<close> says what the store of pages answers, with \<open>restart\<close> in between.
\<close>

section \<open>Lives of managers\<close>

type_synonym replies = "(dm_reply, DiskManagerErrorCode) result list"

primrec run_lives :: "'w posix \<Rightarrow> string \<Rightarrow> uint \<Rightarrow> uint \<Rightarrow> dm_cmd list list \<Rightarrow> ('w, replies list) cpp" where
  "run_lives P dir ps mx [] = retc []"
| "run_lives P dir ps mx (cs # css) = (\<lambda>w.
     case exec_all P cs (pdm_new dir ps mx, w) of (out, (m, w')) \<Rightarrow>
       bindc (\<lambda>w. (out, w)) (\<lambda>rs. bindc (run_lives P dir ps mx css) (\<lambda>rss. retc (rs # rss))) w')"

definition restart :: "store \<Rightarrow> store" where
  "restart st = st\<lparr>st_table := Map.empty, st_next := 0\<rparr>"

primrec spec_lives :: "dm_cmd list list \<Rightarrow> store \<Rightarrow> replies list \<times> store" where
  "spec_lives [] st = ([], st)"
| "spec_lives (cs # css) st =
     (case spec_all cs st of (rs, st') \<Rightarrow> case spec_lives css (restart st') of (rss, st'') \<Rightarrow> (rs # rss, st''))"

primrec undisturbed_lives :: "store \<Rightarrow> string \<Rightarrow> nat \<Rightarrow> dm_cmd list list \<Rightarrow> bool" where
  "undisturbed_lives st p k [] = True"
| "undisturbed_lives st p k (cs # css) =
     (undisturbed st p k cs \<and> undisturbed_lives (restart (snd (spec_all cs st))) p k css)"

lemma restart_sel [simp]:
  "st_dir (restart st) = st_dir st" "st_page (restart st) = st_page st" "st_limit (restart st) = st_limit st"
  "st_files (restart st) = st_files st" "st_table (restart st) = Map.empty" "st_next (restart st) = 0"
  by (simp_all add: restart_def)

lemma st_page_at_restart [simp]: "st_page_at (restart st) p k = st_page_at st p k"
  by (simp add: st_page_at_def)

text \<open>A new manager on the files that a manager of the same parameters left.\<close>

lemma store_of_new:
  assumes "dir_path m = dir" and "unat (dm_page_size m) = unat ps" and "unat (max_disk_byte_size m) = unat mx"
  shows "store_of vw (pdm_new dir ps mx, w) = restart (store_of vw (m, w))"
  using assms by (simp add: restart_def store_of_def pdm_new_eq disk_path_def fun_eq_iff)

lemma store_inv_new:
  assumes "store_inv vw (m, w)" and "dir_path m = dir" and "dm_page_size m = ps" and "max_disk_byte_size m = mx"
  shows "store_inv vw (pdm_new dir ps mx, w)"
  using assms by (auto simp: store_inv_def pdm_new_eq path_of_file_def whole_pages_def)

lemma exec_life:
  assumes sys: "posix_reliable P view" and inv: "store_inv view (pdm_new dir ps mx, w)"
    and adm: "\<forall>c \<in> set cs. admissible (pdm_new dir ps mx) c" and len: "length cs \<le> INT_MAX"
  obtains rs m w' where "exec_all P cs (pdm_new dir ps mx, w) = (Ret rs, (m, w'))"
    and "store_inv view (pdm_new dir ps mx, w')"
    and "fst (spec_all cs (store_of view (pdm_new dir ps mx, w))) = rs"
    and "store_of view (pdm_new dir ps mx, w') = restart (snd (spec_all cs (store_of view (pdm_new dir ps mx, w))))"
proof -
  let ?m = "pdm_new dir ps mx"
  have "unat (cur_disk_id (fst (?m, w))) + length cs \<le> INT_MAX" using len by (simp add: pdm_new_eq)
  then obtain rs m w' where 1: "exec_all P cs (?m, w) = (Ret rs, (m, w'))"
    "spec_all cs (store_of view (?m, w)) = (rs, store_of view (m, w'))" "store_inv view (m, w')"
    using posix_reliable.exec_all_refines [OF sys inv, of cs] adm by fastforce
  from spec_all_constants [OF 1(2)] have c: "dir_path m = dir" "dm_page_size m = ps" "max_disk_byte_size m = mx"
    by (simp_all add: store_of_def pdm_new_eq word_unat_eq_iff)
  show thesis
  proof (rule that)
    show "store_inv view (?m, w')" using 1(3) c by (rule store_inv_new)
    show "store_of view (?m, w') = restart (snd (spec_all cs (store_of view (?m, w))))"
      using 1(2) c by (simp add: store_of_new)
  qed (use 1 in simp_all)
qed

lemma run_lives_refine:
  assumes sys: "posix_reliable P view" and inv: "store_inv view (pdm_new dir ps mx, w)"
    and adm: "\<forall>cs \<in> set css. length cs \<le> INT_MAX \<and> (\<forall>c \<in> set cs. admissible (pdm_new dir ps mx) c)"
  shows "\<exists>rss w'. run_lives P dir ps mx css w = (Ret rss, w')
    \<and> spec_lives css (store_of view (pdm_new dir ps mx, w)) = (rss, store_of view (pdm_new dir ps mx, w'))
    \<and> store_inv view (pdm_new dir ps mx, w')"
  using inv adm
proof (induction css arbitrary: w)
  case (Cons cs css)
  let ?m = "pdm_new dir ps mx"
  from Cons.prems obtain rs m w1 where 1: "exec_all P cs (?m, w) = (Ret rs, (m, w1))" "store_inv view (?m, w1)"
    "fst (spec_all cs (store_of view (?m, w))) = rs"
    "store_of view (?m, w1) = restart (snd (spec_all cs (store_of view (?m, w))))"
    using exec_life [OF sys, of dir ps mx w cs] by auto
  from Cons.IH [OF 1(2)] Cons.prems obtain rss w2 where 2: "run_lives P dir ps mx css w1 = (Ret rss, w2)"
    "spec_lives css (store_of view (?m, w1)) = (rss, store_of view (?m, w2))" "store_inv view (?m, w2)" by auto
  have "run_lives P dir ps mx (cs # css) w = (Ret (rs # rss), w2)" using 1(1) 2(1) by (simp add: bindc_eqs)
  moreover have "spec_lives (cs # css) (store_of view (?m, w)) = (rs # rss, store_of view (?m, w2))"
    using 1(3,4) 2(2) by (auto split: prod.splits)
  ultimately show ?case using 2(3) by blast
qed simp

lemma spec_lives_restarted:
  "spec_lives css (restart st) = (rss, st') \<Longrightarrow> st_table st' = Map.empty \<and> st_next st' = 0"
  by (induction css arbitrary: st rss) (auto split: prod.splits)

lemma spec_lives_append:
  "spec_lives (css @ [cs]) st =
    (case spec_lives css st of (rss, st') \<Rightarrow> case spec_all cs st' of (rs, st'') \<Rightarrow> (rss @ [rs], restart st''))"
  by (induction css arbitrary: st) (auto split: prod.splits)

lemma spec_lives_constants:
  "st_page (snd (spec_lives css st)) = st_page st \<and> st_limit (snd (spec_lives css st)) = st_limit st
    \<and> st_dir (snd (spec_lives css st)) = st_dir st"
proof (induction css arbitrary: st)
  case (Cons cs css)
  obtain rs st1 where 1: "spec_all cs st = (rs, st1)" by fastforce
  then show ?case using Cons [of "restart st1"] spec_all_constants [OF 1] by (auto split: prod.splits)
qed simp

lemma spec_lives_keep_page:
  assumes "st_page_at st p k = Some bs" and "undisturbed_lives st p k css"
    and "\<forall>cs \<in> set css. \<forall>c \<in> set cs. writes_whole st c"
  shows "st_page_at (snd (spec_lives css st)) p k = Some bs"
  using assms
proof (induction css arbitrary: st)
  case (Cons cs css)
  obtain rs st1 where 1: "spec_all cs st = (rs, st1)" by fastforce
  have "st_page_at (restart st1) p k = Some bs"
    using spec_all_keeps_page [of st p k bs cs] Cons.prems 1 by simp
  moreover have "writes_whole (restart st1) c = writes_whole st c" for c
    using spec_all_constants [OF 1] by (intro writes_whole_page) simp
  ultimately show ?case using Cons.IH [of "restart st1"] Cons.prems 1 by (auto split: prod.splits)
qed simp

text \<open>The store after a write within a life, and the read of the last life.\<close>

lemma spec_write_life:
  assumes st: "snd (spec_all cs st0) = st" and fits: "st_fits st cur" and i: "st_table st i = Some p"
    and present: "st_files st p \<noteq> None" and whole: "st_page st \<le> length bs" "\<forall>c \<in> set ds. writes_whole st c"
    and undist: "undisturbed (snd (spec (Write i cur bs) st)) p (unat cur) ds"
  shows "st_page_at (snd (spec_all (cs @ Write i cur bs # ds) st0)) p (unat cur) = Some (take (st_page st) bs)"
proof -
  obtain st1 where w: "spec (Write i cur bs) st = (Inr R_Done, st1)" and st1: "st_page st1 = st_page st"
    "st_limit st1 = st_limit st" and page: "st_page_at st1 p (unat cur) = Some (take (st_page st) bs)"
    using fits i present whole(1) by (rule spec_write_page)
  have "\<forall>c \<in> set ds. writes_whole st1 c" using whole(2) writes_whole_page [OF st1(1)] by simp
  then have "st_page_at (snd (spec_all ds st1)) p (unat cur) = Some (take (st_page st) bs)"
    using page undist w by (intro spec_all_keeps_page) simp_all
  moreover have "snd (spec_all (cs @ Write i cur bs # ds) st0) = snd (spec_all ds st1)"
    using st w by (auto simp: spec_all_append simp del: spec.simps split: prod.splits)
  ultimately show ?thesis by simp
qed

lemma spec_load_then_read:
  assumes page: "st_page_at st (st_path st nm) (unat cur) = Some bs" and fits: "st_fits st cur"
    and new: "st_table st = Map.empty" "st_next st = 0"
  shows "fst (spec_all [Load nm, Read 0 cur buf] st) = [Inr (R_Id 0), Inr (R_Buf (overwrite 0 bs buf))]"
  using assms by (auto simp: st_page_at_def spec_load_def on_disk_def st_fits_def)

section \<open>A page survives a restart\<close>

text \<open>
  C3. What one manager wrote a later one reads: on a reliable system, in a directory whose disks are
  whole pages within the limit, a page written within the limit by a manager, and not written over nor
  its disk destroyed by the calls that follow, in that life or in the later ones, is read back with
  the bytes that were written by a new manager that has only loaded the disk by its name.  All the
  calls return, and the disk has the id 0 again.  The calls of every life are \<open>admissible\<close>: their
  pages end below 2 ^ 32 and their buffers hold a page.
\<close>

theorem page_survives_restart:
  assumes sys: "posix_reliable P view" and inv: "store_inv view (pdm_new dir ps mx, w)"
    and st: "snd (spec_all cs (store_of view (pdm_new dir ps mx, w))) = st"
    and i: "st_table st i = Some (st_path st nm)" and present: "st_files st (st_path st nm) \<noteq> None"
    and fits: "st_fits st cur"
    and lives: "lives = (cs @ Write i cur bs # ds) # css @ [[Load nm, Read 0 cur buf]]"
    and adm: "\<forall>cs \<in> set lives. length cs \<le> INT_MAX \<and> (\<forall>c \<in> set cs. admissible (pdm_new dir ps mx) c)"
    and undist: "undisturbed (snd (spec (Write i cur bs) st)) (st_path st nm) (unat cur) ds"
      "undisturbed_lives (restart (snd (spec_all (Write i cur bs # ds) st))) (st_path st nm) (unat cur) css"
  shows "\<exists>rss w'. run_lives P dir ps mx lives w =
    (Ret (rss @ [[Inr (R_Id 0), Inr (R_Buf (overwrite 0 (take (unat ps) bs) buf))]]), w')"
proof -
  let ?m = "pdm_new dir ps mx" and ?p = "st_path st nm" and ?k = "unat cur"
  let ?st0 = "store_of view (?m, w)" and ?life = "cs @ Write i cur bs # ds"
  obtain rs0 where "spec_all cs ?st0 = (rs0, st)" using st by (cases "spec_all cs ?st0") simp
  from spec_all_constants [OF this] have c: "st_page st = unat ps" "st_limit st = st_limit ?st0" "st_dir st = st_dir ?st0"
    by (simp_all add: pdm_new_eq)
  have whole: "writes_whole st' c" if "admissible ?m c" and "st_page st' = unat ps" for st' c
    using that by (cases c) (simp_all add: writes_whole_def pdm_new_eq)
  obtain rss w' where run: "run_lives P dir ps mx lives w = (Ret rss, w')"
    and sp: "spec_lives lives ?st0 = (rss, store_of view (?m, w'))"
    using run_lives_refine [OF sys inv adm] by blast
  obtain rs1 st1 where 1: "spec_all ?life ?st0 = (rs1, st1)" by fastforce
  have "\<forall>c \<in> set ds. writes_whole st c" "st_page st \<le> length bs"
    using adm whole [of _ st] c(1) by (auto simp: lives pdm_new_eq)
  from spec_write_life [OF st fits i present this(2,1) undist(1)]
  have page: "st_page_at st1 ?p ?k = Some (take (unat ps) bs)" using 1 c(1) by simp
  obtain rss2 st2 where 2: "spec_lives css (restart st1) = (rss2, st2)" by fastforce
  have const: "st_page st1 = unat ps" "st_limit st1 = st_limit st" "st_dir st1 = st_dir st"
    using spec_all_constants [OF 1] c by (simp_all add: pdm_new_eq)
  then have "\<forall>cs \<in> set css. \<forall>c \<in> set cs. writes_whole (restart st1) c"
    using adm whole [of _ "restart st1"] by (auto simp: lives)
  moreover have "snd (spec_all (Write i cur bs # ds) st) = st1"
    using 1 st by (auto simp: spec_all_append simp del: spec.simps split: prod.splits)
  ultimately have "st_page_at st2 ?p ?k = Some (take (unat ps) bs)"
    using spec_lives_keep_page [of "restart st1" ?p ?k _ css] page undist(2) 2 by simp
  moreover have const2: "st_page st2 = st_page st" "st_limit st2 = st_limit st" "st_dir st2 = st_dir st"
    using spec_lives_constants [of css "restart st1"] 2 const c(1) by simp_all
  moreover have "st_table st2 = Map.empty \<and> st_next st2 = 0" using spec_lives_restarted 2 by metis
  ultimately have "fst (spec_all [Load nm, Read 0 cur buf] st2) =
      [Inr (R_Id 0), Inr (R_Buf (overwrite 0 (take (unat ps) bs) buf))]"
    using fits by (intro spec_load_then_read) (simp_all add: st_path_def st_fits_def)
  moreover have "rss = (rs1 # rss2) @ [fst (spec_all [Load nm, Read 0 cur buf] st2)]"
    using sp 1 2 by (auto simp: lives spec_lives_append simp del: spec.simps spec_all.simps split: prod.splits)
  ultimately have "rss = (rs1 # rss2) @ [[Inr (R_Id 0), Inr (R_Buf (overwrite 0 (take (unat ps) bs) buf))]]"
    by (simp only:)
  then show ?thesis using run by blast
qed

theorem page_survives_restart_witness:
  "\<exists>rss w'. run_lives calm_posix ''d'' 2 16
      [[Create ''b'', Create ''a'', Write 1 1 [7, 8], Read 0 0 [0, 0]], [Load ''a'', Write 0 0 [9, 9], Unload 0],
       [Load ''a'', Read 0 1 [0, 0]]] empty_world =
    (Ret (rss @ [[Inr (R_Id 0), Inr (R_Buf [7, 8])]]), w')"
proof -
  let ?st = "snd (spec_all [Create ''b'', Create ''a''] small_store)"
  let ?lives = "([Create ''b'', Create ''a''] @ Write 1 1 [7, 8] # [Read 0 0 [0, 0]])
      # [[Load ''a'', Write 0 0 [9, 9], Unload 0]] @ [[Load ''a'', Read 0 1 [0, 0]]]"
  have st: "snd (spec_all [Create ''b'', Create ''a''] (store_of sim_view (pdm_new ''d'' 2 16, empty_world))) = ?st"
    by (simp only: small_manager_def [symmetric] small_store_of)
  have "\<exists>rss w'. run_lives calm_posix ''d'' 2 16 ?lives empty_world =
    (Ret (rss @ [[Inr (R_Id 0), Inr (R_Buf (overwrite 0 (take (unat (2 :: uint)) [7, 8]) [0, 0]))]]), w')"
    using calm.posix_reliable_axioms small_inv [unfolded small_manager_def] st _ _ _ refl
    by (rule page_survives_restart) (simp_all add: run_spec restart_def no_wrap_def pdm_new_eq)
  then show ?thesis by (simp add: overwrite_def)
qed

end
