(* ===== verification/Disk_Errors.thy ===== *)
theory Disk_Errors
  imports Disk_Store
begin

text \<open>
  The error codes that a call of the disk manager can answer, on any system at all: no law of
  \<open>posix_fs\<close> is used.  A rule per construct of the code, then one lemma per method.
\<close>

section \<open>Codes a computation answers\<close>

named_theorems reports_intros \<open>rules for the error codes that a computation answers\<close>

definition reports :: "'e set \<Rightarrow> ('s, ('r, 'e) result) cpp \<Rightarrow> bool" where
  "reports E m \<longleftrightarrow> (\<forall>s e s'. m s = (Ret (Inl e), s') \<longrightarrow> e \<in> E)"

lemma reportsD: "reports E m \<Longrightarrow> m s = (Ret (Inl e), s') \<Longrightarrow> e \<in> E"
  unfolding reports_def by blast

lemma reports_mono: "reports D m \<Longrightarrow> D \<subseteq> E \<Longrightarrow> reports E m"
  unfolding reports_def by blast

lemma reports_value [reports_intros]: "reports E (retc (Inr v))"
  by (simp add: reports_def)

lemma reports_error [reports_intros]: "e \<in> E \<Longrightarrow> reports E (retc (Inl e))"
  by (simp add: reports_def)

lemma reports_fault [reports_intros]: "reports E (liftc (Fault f))"
  by (simp add: reports_def)

lemma reports_bind [reports_intros]: "(\<And>a. reports E (k a)) \<Longrightarrow> reports E (bindc m k)"
  unfolding reports_def by (blast elim: bindc_RetE)

lemma reports_if [reports_intros]: "reports E a \<Longrightarrow> reports E b \<Longrightarrow> reports E (if c then a else b)"
  by simp

lemma reports_sum [reports_intros]:
  "(\<And>x. reports E (f x)) \<Longrightarrow> (\<And>y. reports E (g y)) \<Longrightarrow> reports E (case r of Inl x \<Rightarrow> f x | Inr y \<Rightarrow> g y)"
  by (cases r) simp_all

lemma reports_option [reports_intros]:
  "reports E a \<Longrightarrow> (\<And>x. reports E (f x)) \<Longrightarrow> reports E (case r of None \<Rightarrow> a | Some x \<Rightarrow> f x)"
  by (cases r) simp_all

lemma reports_noexcept [reports_intros]: "reports E m \<Longrightarrow> reports E (noexcept m)"
  by (simp add: reports_def noexcept_Ret_iff)

lemma reports_on_snd [reports_intros]: "reports E m \<Longrightarrow> reports E (on_snd m)"
  by (fastforce simp: reports_def on_snd_iff)

lemma reports_past_fst [reports_intros]: "reports E m \<Longrightarrow> reports E (past_fst m)"
  by (fastforce simp: reports_def past_fst_iff)

text \<open>The macros answer the error of the second evaluation.\<close>

lemma second_evaluation:
  "reports E m \<Longrightarrow> reports E (bindc m (\<lambda>r. bindc (liftc (get_error r)) (\<lambda>e. retc (Inl e))))"
  unfolding reports_def by (fastforce simp: get_error_def elim!: bindc_RetE split: sum.splits)

lemma reports_prop_if_error [reports_intros]:
  "reports E m \<Longrightarrow> reports E rest \<Longrightarrow> reports E (prop_if_error m rest)"
  unfolding prop_if_error_def by (intro reports_bind reports_if second_evaluation)

lemma reports_unwrap [reports_intros]:
  "reports E m \<Longrightarrow> (\<And>v. reports E (k v)) \<Longrightarrow> reports E (unwrap_or_prop_error what m k)"
  unfolding unwrap_or_prop_error_def by (intro reports_bind reports_if second_evaluation)

lemma reports_in_scope [reports_intros]:
  assumes "reports E body"
  shows "reports E (in_scope dtor obj body)"
  unfolding reports_def
proof (intro allI impI)
  fix s e s'
  assume "in_scope dtor obj body s = (Ret (Inl e), s')"
  then obtain t where "bindc body (\<lambda>r. bindc dtor (\<lambda>_. retc r)) (obj, s) = (Ret (Inl e), t)"
    by (auto simp: in_scope_def split: prod.splits)
  then obtain r s1 where "body (obj, s) = (Ret r, s1)" and "bindc dtor (\<lambda>_. retc r) s1 = (Ret (Inl e), t)"
    by (rule bindc_RetE)
  then have "body (obj, s) = (Ret (Inl e), s1)" by (auto elim: bindc_RetE)
  with assms show "e \<in> E" by (rule reportsD)
qed

lemma reports_replies [reports_intros]:
  assumes "reports E m"
  shows "reports E (replies f m)"
  unfolding reports_def replies_def
proof (intro allI impI)
  fix s e s'
  assume "bindc m (\<lambda>r. retc (map_sum id f r)) s = (Ret (Inl e), s')"
  then obtain r where "m s = (Ret r, s')" "map_sum id f r = Inl e" by (auto elim: bindc_RetE)
  with assms show "e \<in> E" by (cases r) (auto dest: reportsD)
qed

section \<open>The methods\<close>

text \<open>What a disk can answer when it is opened, and what preparing an access adds.\<close>

definition open_codes :: "bool \<Rightarrow> DiskManagerErrorCode set" where
  "open_codes should_exist =
     {UNKOWN_ERROR, CREATE_DISK_ERROR, if should_exist then DISK_NOT_FOUND else DISK_ALREADY_EXISTS}"

definition access_codes :: "DiskManagerErrorCode set" where
  "access_codes = {UNKOWN_ERROR, GET_DISK_SIZE_ERROR, DISK_EXCEEDS_MAX_SIZE}"

lemma reports_pd_exists: "reports {UNKOWN_ERROR} (pd_exists P p)"
  unfolding pd_exists_def by (intro reports_intros) simp

lemma reports_pd_init: "reports (open_codes se) (pd_init P p se ps mx)"
proof -
  have "reports (open_codes se) (pd_init_checked P p se ps mx ex)" for ex
    unfolding pd_init_checked_def
    by (cases se; cases ex) (auto simp: open_codes_def split: prod.splits intro!: reports_intros)
  moreover have "reports (open_codes se) (pd_exists P p)"
    using reports_pd_exists by (rule reports_mono) (simp add: open_codes_def)
  ultimately show ?thesis unfolding pd_init_def by (intro reports_intros)
qed

lemma reports_pd_size: "reports {GET_DISK_SIZE_ERROR} (pd_get_disk_byte_size P)"
  unfolding pd_get_disk_byte_size_def by (intro reports_intros) simp

lemma reports_pd_sync: "reports {UNKOWN_ERROR} (pd_sync P)"
  unfolding pd_sync_def by (intro reports_intros) simp

lemma reports_pd_seek: "reports {UNKOWN_ERROR} (pd_seek P pos)"
  unfolding pd_seek_def Let_def by (intro reports_intros) simp

lemma reports_pd_prepare_rw: "reports access_codes (pd_prepare_rw P cur)"
proof -
  have "reports access_codes (pd_seek P pos)" for pos
    using reports_pd_seek by (rule reports_mono) (simp add: access_codes_def)
  then have "reports access_codes (pd_prepare_sized P cur n)" for n
    unfolding pd_prepare_sized_def Let_def by (intro reports_intros) (simp_all add: access_codes_def)
  moreover have "reports access_codes (pd_get_disk_byte_size P)"
    using reports_pd_size by (rule reports_mono) (simp add: access_codes_def)
  ultimately show ?thesis unfolding pd_prepare_rw_def by (intro reports_intros)
qed

lemma reports_pd_write: "reports access_codes (pd_write P cur data)"
proof -
  have "reports access_codes (pd_sync P)"
    using reports_pd_sync by (rule reports_mono) (simp add: access_codes_def)
  then show ?thesis unfolding pd_write_def Let_def
    by (intro reports_intros reports_pd_prepare_rw) (simp_all add: access_codes_def)
qed

lemma reports_pd_read: "reports (insert READ_DISK_ERROR access_codes) (pd_read P cur)"
proof -
  have "reports (insert READ_DISK_ERROR access_codes) (pd_prepare_rw P cur)"
    using reports_pd_prepare_rw by (rule reports_mono) blast
  then show ?thesis unfolding pd_read_def Let_def by (intro reports_intros) simp_all
qed

lemma reports_pd_destroy: "reports {DESTROY_DISK_ERROR} (pd_destroy P)"
  unfolding pd_destroy_def by (intro reports_intros) simp

lemma reports_get_disk_path: "reports {DISK_NOT_FOUND} (get_disk_path i)"
  unfolding get_disk_path_def loaded_disk_name_def by (intro reports_intros) simp

text \<open>A disk that cannot be opened answers the error of opening it.\<close>

lemma reports_opened:
  assumes "reports E m" and "\<And>pd. reports E (k pd)"
  shows "reports E (bindc m (\<lambda>res. case res of Inl e \<Rightarrow> retc (Inl e) | Inr pd \<Rightarrow> k pd))"
  unfolding reports_def
proof (intro allI impI)
  fix s e s'
  assume "bindc m (\<lambda>res. case res of Inl e \<Rightarrow> retc (Inl e) | Inr pd \<Rightarrow> k pd) s = (Ret (Inl e), s')"
  then obtain r s1 where 1: "m s = (Ret r, s1)"
    and 2: "(case r of Inl e \<Rightarrow> retc (Inl e) | Inr pd \<Rightarrow> k pd) s1 = (Ret (Inl e), s')"
    by (rule bindc_RetE)
  show "e \<in> E"
  proof (cases r)
    case (Inl e')
    then show ?thesis using 1 2 assms(1) by (auto dest: reportsD)
  next
    case (Inr pd)
    then show ?thesis using 2 assms(2) by (auto dest: reportsD)
  qed
qed

lemma reports_with_disk:
  assumes "\<And>p m. reports E (init p m)" and "reports E body" and "DISK_NOT_FOUND \<in> E"
  shows "reports E (with_disk init dtor i body)"
proof -
  have path: "reports E (get_disk_path i)" using reports_get_disk_path by (rule reports_mono) (use assms in simp)
  show ?thesis unfolding with_disk_def
    by (rule reports_unwrap [OF path], rule reports_bind, rule reports_opened, rule reports_on_snd,
        rule assms(1), rule reports_in_scope, rule assms(2))
qed

lemma reports_init_for: "reports (open_codes True) (init_for P path m)"
  unfolding init_for_def by (rule reports_pd_init)

lemma reports_with_file:
  assumes "reports E body" and "open_codes True \<subseteq> E"
  shows "reports E (with_disk (init_for P) dtor i body)"
proof (rule reports_with_disk)
  show "reports E (init_for P p m)" for p m using reports_init_for assms(2) by (rule reports_mono)
  show "DISK_NOT_FOUND \<in> E" using assms(2) by (auto simp: open_codes_def)
qed (rule assms(1))

lemma reports_unload: "reports {DISK_NOT_FOUND} (unload i)"
  unfolding unload_def by (intro reports_intros) simp

lemma reports_load: "reports (open_codes True) (load P nm)"
proof -
  have "reports E (register_disk nm)" for E :: "DiskManagerErrorCode set"
    unfolding register_disk_def by (intro reports_intros)
  then show ?thesis unfolding load_def
    by - (rule reports_noexcept, rule reports_bind,
      intro reports_opened reports_on_snd reports_pd_init reports_in_scope)
qed

lemma reports_create: "reports (open_codes True \<union> open_codes False) (create P nm)"
proof -
  have "reports (open_codes False) (create_file P nm)"
    unfolding create_file_def
    by (rule reports_bind) (intro reports_opened reports_on_snd reports_pd_init reports_in_scope reports_value)
  then show ?thesis
    unfolding create_def by (auto intro!: reports_intros intro: reports_mono reports_load)
qed

lemma reports_destroy: "reports (insert DESTROY_DISK_ERROR (open_codes True)) (destroy P i)"
proof -
  let ?E = "insert DESTROY_DISK_ERROR (open_codes True)"
  have "reports ?E (pd_destroy P)" using reports_pd_destroy by (rule reports_mono) simp
  moreover have "reports ?E (unload i)" using reports_unload by (rule reports_mono) (simp add: open_codes_def)
  ultimately show ?thesis unfolding destroy_def
    by (intro reports_noexcept reports_with_file reports_intros) auto
qed

lemma reports_pdm_write: "reports (open_codes True \<union> access_codes) (pdm_write P i cur bs)"
proof -
  have "reports (open_codes True \<union> access_codes) (pd_write P cur bs)"
    using reports_pd_write by (rule reports_mono) simp
  then show ?thesis unfolding pdm_write_def
    by (intro reports_noexcept reports_with_file reports_intros) auto
qed

lemma reports_pdm_read: "reports (insert READ_DISK_ERROR (open_codes True \<union> access_codes)) (pdm_read P i cur)"
proof -
  let ?E = "insert READ_DISK_ERROR (open_codes True \<union> access_codes)"
  have "reports ?E (pd_read P cur)" using reports_pd_read by (rule reports_mono) blast
  moreover have "reports ?E (on_snd (init_for P p m))" for p m
    using reports_init_for by (intro reports_on_snd) (rule reports_mono, auto)
  ultimately show ?thesis unfolding pdm_read_def
    by (intro reports_noexcept reports_with_disk reports_prop_if_error reports_past_fst reports_value)
      (auto simp: open_codes_def)
qed

lemma reports_disk_byte_size: "reports (insert GET_DISK_SIZE_ERROR (open_codes True)) (disk_byte_size P i)"
proof -
  have "reports (insert GET_DISK_SIZE_ERROR (open_codes True)) (pd_get_disk_byte_size P)"
    using reports_pd_size by (rule reports_mono) simp
  then show ?thesis unfolding disk_byte_size_def
    by (intro reports_noexcept reports_with_file reports_intros) auto
qed

lemma reports_extend:
  "reports (insert GET_DISK_SIZE_ERROR (insert DISK_EXCEEDS_MAX_SIZE (open_codes True))) (Posix_Disk_Manager.extend P i)"
proof -
  have "reports (insert GET_DISK_SIZE_ERROR (insert DISK_EXCEEDS_MAX_SIZE (open_codes True))) (disk_byte_size P i)"
    using reports_disk_byte_size by (rule reports_mono) blast
  then show ?thesis unfolding Posix_Disk_Manager.extend_def by (intro reports_intros) simp_all
qed

section \<open>The calls\<close>

fun error_codes :: "dm_cmd \<Rightarrow> DiskManagerErrorCode set" where
  "error_codes (Create nm) = open_codes True \<union> open_codes False"
| "error_codes (Load nm) = open_codes True"
| "error_codes (Unload i) = {DISK_NOT_FOUND}"
| "error_codes (Destroy i) = insert DESTROY_DISK_ERROR (open_codes True)"
| "error_codes (Write i cur bs) = open_codes True \<union> access_codes"
| "error_codes (Read i cur buf) = insert READ_DISK_ERROR (open_codes True \<union> access_codes)"
| "error_codes (Size i) = insert GET_DISK_SIZE_ERROR (open_codes True)"
| "error_codes (Extend i) = insert GET_DISK_SIZE_ERROR (insert DISK_EXCEEDS_MAX_SIZE (open_codes True))"
| "error_codes (Exists nm) = {UNKOWN_ERROR}"
| "error_codes (Is_Loaded i) = {}"
| "error_codes (Name_Of i) = {DISK_NOT_FOUND}"
| "error_codes Num_Loaded = {}"
| "error_codes (Full_Name nm) = {}"

lemma reports_read_into:
  "reports E (pdm_read P i cur) \<Longrightarrow> reports E (read_into P i cur buf)"
  unfolding reports_def read_into_def
  by (auto simp: obind_eq_Ret split: prod.splits) (metis Inl_Inr_False map_sum.simps id_apply old.sum.exhaust)

lemma exec_reports: "reports (error_codes c) (exec P c)"
proof (cases c)
  case (Exists nm)
  then show ?thesis
    by (auto simp: pdm_exists_def intro!: reports_intros reports_pd_exists)
next
  case (Name_Of i)
  then show ?thesis by (auto simp: loaded_disk_name_def intro!: reports_intros)
next
  case (Is_Loaded i)
  then show ?thesis by (auto simp: is_loaded_def intro!: reports_intros)
next
  case Num_Loaded
  then show ?thesis by (auto simp: num_loaded_disks_def intro!: reports_intros)
next
  case (Full_Name nm)
  then show ?thesis by (auto intro!: reports_intros)
qed (auto intro!: reports_replies reports_create reports_load reports_unload reports_destroy
    reports_pdm_write reports_read_into reports_pdm_read reports_disk_byte_size reports_extend)

text \<open>No call throws: every method is \<open>noexcept\<close>.\<close>

lemma replies_Throw: "replies f m s = (Throw x, s') \<Longrightarrow> m s = (Throw x, s')"
  by (auto simp: replies_def bindc_def split: prod.splits outcome.splits)

lemma exec_no_Throw: "exec P c s \<noteq> (Throw x, s')"
proof (cases c)
  case (Read i cur buf)
  then show ?thesis
    by (auto simp: read_into_def pdm_read_def obind_eq_Throw noexcept_no_Throw split: prod.splits)
qed (auto dest!: replies_Throw simp: noexcept_no_Throw create_def load_def unload_def destroy_def pdm_write_def
    disk_byte_size_def Posix_Disk_Manager.extend_def pdm_exists_def is_loaded_def loaded_disk_name_def
    num_loaded_disks_def)

end
