(* ===== verification/Disk_Codes.thy ===== *)
theory Disk_Codes
  imports Disk_Errors
begin

text \<open>
  Every code of \<open>error_codes\<close> is answered by some run: systems over no state whose calls always
  give the same answer, and a manager with one loaded disk.
\<close>

section \<open>Systems that always answer the same\<close>

definition answering :: "(errno + unit) \<Rightarrow> (errno + int) \<Rightarrow> (errno + nat) \<Rightarrow> (errno + unit) \<Rightarrow> unit posix" where
  "answering acc opened sz unlinked =
     \<lparr>sys_access = (\<lambda>p w. (acc, w)), sys_open = (\<lambda>p w. (opened, w)), sys_stat = (\<lambda>p w. (sz, w)),
      sys_lseek = (\<lambda>fd n w. (Inr 0, w)), sys_write = (\<lambda>fd bs w. (Inl (Errno 5), w)),
      sys_read = (\<lambda>fd n w. (Inl (Errno 5), w)), sys_truncate = (\<lambda>p n w. (Inr (), w)),
      sys_fsync = (\<lambda>fd w. (Inr (), w)), sys_unlink = (\<lambda>p w. (unlinked, w)), sys_close = (\<lambda>fd w. (Inr (), w))\<rparr>"

definition manager_of :: "int32 \<Rightarrow> uint \<Rightarrow> pdm" where
  "manager_of i limit = (pdm_new ''d'' 2 limit)\<lparr>disks := [(i, ''a.disk'')]\<rparr>"

lemma answering_sel [simp]:
  "sys_access (answering a o1 sz u) p w = (a, w)" "sys_open (answering a o1 sz u) p w = (o1, w)"
  "sys_stat (answering a o1 sz u) p w = (sz, w)" "sys_lseek (answering a o1 sz u) fd n w = (Inr 0, w)"
  "sys_write (answering a o1 sz u) fd bs w = (Inl (Errno 5), w)"
  "sys_read (answering a o1 sz u) fd n w = (Inl (Errno 5), w)"
  "sys_truncate (answering a o1 sz u) p n w = (Inr (), w)" "sys_fsync (answering a o1 sz u) fd w = (Inr (), w)"
  "sys_unlink (answering a o1 sz u) p w = (u, w)" "sys_close (answering a o1 sz u) fd w = (Inr (), w)"
  by (simp_all add: answering_def)

lemma manager_of_sel [simp]:
  "dm_page_size (manager_of i l) = 2" "max_disk_byte_size (manager_of i l) = l"
  "disks (manager_of i l) = [(i, ''a.disk'')]" "dir_path (manager_of i l) = ''d''" "cur_disk_id (manager_of i l) = 0"
  by (simp_all add: manager_of_def pdm_new_eq)

lemma disk_path_manager_of: "disk_path (manager_of i l) i = Some ''d/a.disk''"
  by (simp add: disk_path_def path_of_file_def)


section \<open>Opening a disk\<close>

lemma pd_exists_answering:
  "pd_exists (answering a fd sz u) p w =
    (Ret (case a of Inr _ \<Rightarrow> Inr True | Inl e \<Rightarrow> if e = ENOENT then Inr False else Inl UNKOWN_ERROR), w)"
  by (auto simp: pd_exists_def run_simps split: sum.splits)

lemma pd_init_answering:
  "pd_init (answering (Inl (Errno n)) fd sz u) p se ps mx w = (Ret (Inl UNKOWN_ERROR), w)"
  "pd_init (answering (Inl ENOENT) fd sz u) p True ps mx w = (Ret (Inl DISK_NOT_FOUND), w)"
  "pd_init (answering (Inr ()) fd sz u) p False ps mx w = (Ret (Inl DISK_ALREADY_EXISTS), w)"
  "pd_init (answering (Inl ENOENT) (Inl e) sz u) p False ps mx w = (Ret (Inl CREATE_DISK_ERROR), w)"
  "pd_init (answering (Inr ()) (Inl e) sz u) p True ps mx w = (Ret (Inl CREATE_DISK_ERROR), w)"
  "pd_init (answering (Inl ENOENT) (Inr 3) sz u) p False ps mx w = (Ret (Inr (posix_disk_new p 3 ps mx)), w)"
  "pd_init (answering (Inr ()) (Inr 3) sz u) p True ps mx w = (Ret (Inr (posix_disk_new p 3 ps mx)), w)"
  by (simp_all add: pd_init_def pd_exists_answering unwrap_or_prop_error_def bindc_def noexcept_def
      pd_init_checked_def run_simps in_scope_def pd_move_def posix_disk_new_def pd_destructor_def)

lemma close_answering:
  "0 \<le> m_fd pd \<Longrightarrow> pd_destructor (answering a fd sz u) (pd, w) =
    (Ret (), pd\<lparr>should_close := False\<rparr>, w)"
  by (simp add: pd_destructor_def pd_close_def run_simps noexcept_def apfst_def map_prod_def)

lemma load_runs:
  "exec (answering (Inl (Errno n)) fd sz u) (Load nm) (m, w) = (Ret (Inl UNKOWN_ERROR), (m, w))"
  "exec (answering (Inl ENOENT) fd sz u) (Load nm) (m, w) = (Ret (Inl DISK_NOT_FOUND), (m, w))"
  "exec (answering (Inr ()) (Inl e) sz u) (Load nm) (m, w) = (Ret (Inl CREATE_DISK_ERROR), (m, w))"
  "exec (answering (Inl (Errno n)) fd sz u) (Create nm) (m, w) = (Ret (Inl UNKOWN_ERROR), (m, w))"
  "exec (answering (Inr ()) fd sz u) (Create nm) (m, w) = (Ret (Inl DISK_ALREADY_EXISTS), (m, w))"
  "exec (answering (Inl ENOENT) (Inl e) sz u) (Create nm) (m, w) = (Ret (Inl CREATE_DISK_ERROR), (m, w))"
  "exec (answering (Inl ENOENT) (Inr 3) sz u) (Create nm) (m, w) = (Ret (Inl DISK_NOT_FOUND), (m, w))"
  by (simp_all add: load_def create_def create_file_def pd_init_answering on_snd_eq bindc_def noexcept_def prop_if_error_def
    in_scope_def close_answering posix_disk_new_def past_fst_def zoom_def)


lemma disk_sel [simp]:
  "m_page_size (posix_disk_new p fd ps mx) = ps" "m_max_disk_size (posix_disk_new p fd ps mx) = mx"
  "m_fd (posix_disk_new p fd ps mx) = fd"
  by (simp_all add: posix_disk_new_def)

lemma with_disk_answering:
  assumes "pd_init P ''d/a.disk'' True 2 l () = (r, ())"
  shows "with_disk (init_for P) dtor i body (manager_of i l, ()) =
    (case r of Ret (Inl e) \<Rightarrow> (Ret (Inl e), (manager_of i l, ()))
     | Ret (Inr pd) \<Rightarrow> in_scope (past_fst dtor) pd body (manager_of i l, ())
     | Throw x \<Rightarrow> (Throw x, (manager_of i l, ())) | Fault f \<Rightarrow> (Fault f, (manager_of i l, ())))"
  using assms by (auto simp: with_disk_loaded [OF disk_path_manager_of] init_for_def bindc_def on_snd_eq
     split: outcome.splits sum.splits)

lemma with_disk_answering_buf:
  assumes "pd_init P ''d/a.disk'' True 2 l () = (r, ())"
  shows "with_disk (\<lambda>path m. on_snd (init_for P path m)) dtor i body (manager_of i l, buf, ()) =
    (case r of Ret (Inl e) \<Rightarrow> (Ret (Inl e), (manager_of i l, buf, ()))
     | Ret (Inr pd) \<Rightarrow> in_scope (past_fst dtor) pd body (manager_of i l, buf, ())
     | Throw x \<Rightarrow> (Throw x, (manager_of i l, buf, ())) | Fault f \<Rightarrow> (Fault f, (manager_of i l, buf, ())))"
  using assms by (auto simp: with_disk_loaded [OF disk_path_manager_of] init_for_def bindc_def on_snd_eq
     split: outcome.splits sum.splits)

lemmas answer_simps = with_disk_answering [OF pd_init_answering(1)] with_disk_answering [OF pd_init_answering(2)]
   with_disk_answering [OF pd_init_answering(5)] with_disk_answering [OF pd_init_answering(7)]
   with_disk_answering_buf [OF pd_init_answering(1)] with_disk_answering_buf [OF pd_init_answering(2)]
   with_disk_answering_buf [OF pd_init_answering(5)] with_disk_answering_buf [OF pd_init_answering(7)]
  noexcept_def

lemma open_runs:
  assumes "c = Write i cur bs \<or> c = Read i cur buf \<or> c = Size i \<or> c = Extend i \<or> c = Destroy i"
  shows
  "\<exists>s'. exec (answering (Inl (Errno n)) fd sz u) c (manager_of i l, ()) =
    (Ret (Inl UNKOWN_ERROR), s')"
  "\<exists>s'. exec (answering (Inl ENOENT) fd sz u) c (manager_of i l, ()) = (Ret (Inl DISK_NOT_FOUND), s')"
  "\<exists>s'. exec (answering (Inr ()) (Inl e) sz u) c (manager_of i l, ()) =
    (Ret (Inl CREATE_DISK_ERROR), s')"
  using assms
  by (auto simp: answer_simps pdm_write_def read_into_def pdm_read_def disk_byte_size_def destroy_def
    Posix_Disk_Manager.extend_def unwrap_or_prop_error_def bindc_def)

section \<open>Using a disk\<close>

lemma size_answering:
  "m_page_size pd = 2 \<Longrightarrow> pd_get_disk_byte_size (answering a fd (Inr 2) u) (pd, w) =
    (Ret (Inr 2), (pd, w))"
  "pd_get_disk_byte_size (answering a fd (Inl e) u) (pd, w) = (Ret (Inl GET_DISK_SIZE_ERROR), (pd, w))"
  by (auto simp: pd_get_disk_byte_size_def run_simps)

lemma byte_size_runs:
  "disk_byte_size (answering (Inr ()) (Inr 3) (Inl e) u) i (manager_of i l, ()) =
    (Ret (Inl GET_DISK_SIZE_ERROR), (manager_of i l, ()))"
  "disk_byte_size (answering (Inr ()) (Inr 3) (Inr 2) u) i (manager_of i l, ()) =
    (Ret (Inr 2), (manager_of i l, ()))"
  by (simp_all add: answer_simps disk_byte_size_def in_scope_def bindc_def past_fst_def zoom_def size_answering close_answering)

lemma prepare_answering:
  "pd_prepare_rw (answering a fd (Inl e) u) cur (pd, w) = (Ret (Inl GET_DISK_SIZE_ERROR), (pd, w))"
  "m_page_size pd = 2 \<Longrightarrow> m_max_disk_size pd = 0 \<Longrightarrow> pd_prepare_rw (answering a fd (Inr 2) u) cur (pd, w) =
    (Ret (Inl DISK_EXCEEDS_MAX_SIZE), (pd, w))"
  by (simp_all add: pd_prepare_rw_def unwrap_or_prop_error_def bindc_def size_answering noexcept_def pd_prepare_sized_def)

lemma prepare_answering_ok:
  assumes "m_page_size pd = 2" "m_max_disk_size pd = - 1"
  shows "pd_prepare_rw (answering a fd (Inr 2) u) cur (pd, w) = (Ret (Inr ()), (pd, w))"
proof -
  have "\<not> - 1 \<le> cur * 2 + (2 :: uint)"
  proof
    assume "- 1 \<le> cur * 2 + (2 :: uint)"
    then have "cur * 2 + 2 = (- 1 :: uint)" by (simp add: word_order.extremum_unique)
    then have "even (- 1 :: uint)" by (metis even_add even_mult_iff even_numeral)
    then show False by simp
  qed
  then show ?thesis using assms
    by (simp add: pd_prepare_rw_def unwrap_or_prop_error_def bindc_def size_answering noexcept_def pd_prepare_sized_def
       Let_def pd_grow_to_def pd_truncate_def pd_sync_def pd_seek_def prop_if_error_def run_simps)
qed

lemma access_runs:
  "\<exists>s'. exec (answering (Inr ()) (Inr 3) (Inl e) u) (Write i cur bs) (manager_of i l, ()) =
    (Ret (Inl GET_DISK_SIZE_ERROR), s')"
  "\<exists>s'. exec (answering (Inr ()) (Inr 3) (Inr 2) u) (Write i cur bs) (manager_of i 0, ()) =
    (Ret (Inl DISK_EXCEEDS_MAX_SIZE), s')"
  "\<exists>s'. exec (answering (Inr ()) (Inr 3) (Inl e) u) (Read i cur bs) (manager_of i l, ()) =
    (Ret (Inl GET_DISK_SIZE_ERROR), s')"
  "\<exists>s'. exec (answering (Inr ()) (Inr 3) (Inr 2) u) (Read i cur bs) (manager_of i 0, ()) =
    (Ret (Inl DISK_EXCEEDS_MAX_SIZE), s')"
  by (simp_all add: answer_simps pdm_write_def read_into_def pdm_read_def pd_write_def pd_read_def prop_if_error_def bindc_def
     in_scope_def past_fst_def zoom_def prepare_answering close_answering)

lemma read_answering:
  assumes "m_page_size pd = 2" "m_max_disk_size pd = - 1" "2 \<le> length buf"
  shows "pd_read (answering a fd (Inr 2) u) cur (pd, buf, w) = (Ret (Inl READ_DISK_ERROR), (pd, buf, w))"
proof -
  have "past_fst (pd_prepare_rw (answering a fd (Inr 2) u) cur) (pd, buf, w) = (Ret (Inr ()), (pd, buf, w))"
    using prepare_answering_ok [OF assms(1,2)] by (simp add: past_fst_eq)
  then show ?thesis using assms by (simp add: pd_read_def prop_if_error_value run_simps mem_read_def apsnd_def apfst_def map_prod_def)
qed

lemma read_refused:
  "2 \<le> length bs \<Longrightarrow> \<exists>s'. exec (answering (Inr ()) (Inr 3) (Inr 2) u) (Read i cur bs) (manager_of i (- 1), ()) =
    (Ret (Inl READ_DISK_ERROR), s')"
  by (simp add: answer_simps read_into_def pdm_read_def prop_if_error_def bindc_def
     in_scope_def past_fst_def zoom_def read_answering close_answering)

lemma destroy_refused:
  "\<exists>s'. exec (answering (Inr ()) (Inr 3) sz (Inl e)) (Destroy i) (manager_of i l, ()) =
    (Ret (Inl DESTROY_DISK_ERROR), s')"
  by (simp add: answer_simps destroy_def pd_destroy_def prop_if_error_def bindc_def
     in_scope_def past_fst_def on_snd_def zoom_def close_answering posix_call_def)

lemma size_runs:
  "\<exists>s'. exec (answering (Inr ()) (Inr 3) (Inl e) u) (Extend i) (manager_of i l, ()) =
    (Ret (Inl GET_DISK_SIZE_ERROR), s')"
  "\<exists>s'. exec (answering (Inr ()) (Inr 3) (Inr 2) u) (Extend i) (manager_of i 0, ()) =
    (Ret (Inl DISK_EXCEEDS_MAX_SIZE), s')"
  "\<exists>s'. exec (answering (Inr ()) (Inr 3) (Inl e) u) (Size i) (manager_of i l, ()) =
    (Ret (Inl GET_DISK_SIZE_ERROR), s')"
  by (simp_all add: Posix_Disk_Manager.extend_def byte_size_runs unwrap_or_prop_error_def bindc_def noexcept_def replies_def)


section \<open>Every code\<close>

definition can_answer :: "dm_cmd \<Rightarrow> DiskManagerErrorCode \<Rightarrow> bool" where
  "can_answer c e \<longleftrightarrow> (\<exists>(P :: unit posix) s s'. exec P c s = (Ret (Inl e), s'))"

lemma can_answerI: "\<exists>s'. exec P c s = (Ret (Inl e), s') \<Longrightarrow> can_answer c e" for P :: "unit posix"
  unfolding can_answer_def by blast

lemma can_answer_run: "exec P c s = (Ret (Inl e), s') \<Longrightarrow> can_answer c e" for P :: "unit posix"
  unfolding can_answer_def by blast

lemma can_open:
  assumes "c = Write i cur bs \<or> c = Read i cur buf \<or> c = Size i \<or> c = Extend i \<or> c = Destroy i"
  shows "e \<in> open_codes True \<Longrightarrow> can_answer c e"
  using open_runs [OF assms, THEN can_answerI] by (auto simp: open_codes_def)

lemma error_codes_answered:
  assumes "e \<in> error_codes c" and "\<forall>i cur buf. c = Read i cur buf \<longrightarrow> 2 \<le> length buf"
  shows "can_answer c e"
proof (cases c)
  case (Create nm)
  show ?thesis using assms(1) load_runs(4-7) [THEN can_answer_run] unfolding Create
    by (auto simp: open_codes_def)
next
  case (Load nm)
  show ?thesis using assms(1) load_runs(1-3) [THEN can_answer_run] unfolding Load
    by (auto simp: open_codes_def)
next
  case (Write i cur bs)
  show ?thesis using assms(1) can_open [of c] access_runs(1,2) [THEN can_answerI] open_runs(1) [THEN can_answerI] unfolding Write
    by (auto simp: access_codes_def)
next
  case (Read i cur buf)
  show ?thesis using assms can_open [of c] access_runs(3,4) [THEN can_answerI] open_runs(1) [THEN can_answerI]
       read_refused [THEN can_answerI] unfolding Read
    by (auto simp: access_codes_def)
next
  case (Destroy i)
  show ?thesis using assms(1) can_open [of c] destroy_refused [THEN can_answerI] unfolding Destroy by auto
next
  case (Size i)
  show ?thesis using assms(1) can_open [of c] size_runs(3) [THEN can_answerI] unfolding Size by auto
next
  case (Extend i)
  show ?thesis using assms(1) can_open [of c] size_runs(1,2) [THEN can_answerI] unfolding Extend by auto
next
  case (Exists nm)
  have "exec (answering (Inl (Errno 1)) (Inr 3) (Inr 0) (Inr ())) (Exists nm) (m, ()) =
    (Ret (Inl UNKOWN_ERROR), (m, ()))" for m
    by (simp add: pdm_exists_def noexcept_def pd_exists_answering on_snd_eq)
  from this [THEN can_answer_run] show ?thesis using assms(1) unfolding Exists by simp
next
  case (Unload i)
  have "exec (P :: unit posix) c (pdm_new [] 2 2, ()) =
    (Ret (Inl DISK_NOT_FOUND), (pdm_new [] 2 2, ()))" for P
    by (simp add: Unload unload_run pdm_new_eq)
  from this [THEN can_answer_run] show ?thesis using assms(1) unfolding Unload by simp
next
  case (Name_Of i)
  have "exec (P :: unit posix) c (pdm_new [] 2 2, ()) =
    (Ret (Inl DISK_NOT_FOUND), (pdm_new [] 2 2, ()))" for P
    by (simp add: Name_Of loaded_disk_name_run pdm_new_eq)
  from this [THEN can_answer_run] show ?thesis using assms(1) unfolding Name_Of by simp
qed (use assms in simp_all)

end
