(* ===== verification/Disk_Error_Properties.thy ===== *)
theory Disk_Error_Properties
  imports Disk_Codes Disk_Properties
begin

text \<open>
  The properties of the disk manager's errors: the codes each call can answer, and a file that
  does not end at a page boundary.
\<close>

section \<open>A file that is not a sequence of pages\<close>

definition partial_file :: "pdm \<Rightarrow> fs_view \<Rightarrow> int32 \<Rightarrow> bool" where
  \<comment> \<open>the disk is loaded and its file does not end at a page boundary\<close>
  "partial_file m v disk_id \<longleftrightarrow> dm_page_size m \<noteq> 0
     \<and> (\<exists>p i. disk_path m disk_id = Some p \<and> names v p = Some i
          \<and> \<not> unat (dm_page_size m) dvd length (contents v i))"

context posix_reliable begin

lemma pd_size_fault:
  assumes "names (view w) (m_file_path pd) = Some i" and "m_page_size pd \<noteq> 0"
    and "\<not> unat (m_page_size pd) dvd length (contents (view w) i)"
  obtains w' where "pd_get_disk_byte_size P (pd, w) = (Fault Assertion_Failed, (pd, w'))"
    and "view w' = view w"
proof -
  obtain w' where "sys_stat P (m_file_path pd) w = (Inr (length (contents (view w) i)), w')"
    and "view w' = view w" using assms(1) by (rule stat_run)
  then show thesis using assms
    by (intro that [of w']) (simp_all add: pd_get_disk_byte_size_def run_simps mod_eq_0_iff_dvd)
qed

text \<open>What the calls do with the disk starts with its size.\<close>

lemma starts_with_size:
  assumes "pd_get_disk_byte_size P (pd, w) = (Fault f, (pd, w'))"
  shows "pd_write P cur bs (pd, w) = (Fault f, (pd, w'))"
    and "pd_read P cur (pd, buf, w) = (Fault f, (pd, buf, w'))"
proof -
  have 1: "pd_prepare_rw P cur (pd, w) = (Fault f, (pd, w'))"
    using assms by (simp add: pd_prepare_rw_def unwrap_or_prop_error_def bindc_def noexcept_def)
  then show "pd_write P cur bs (pd, w) = (Fault f, (pd, w'))"
    by (simp add: pd_write_def prop_if_error_def bindc_def noexcept_def)
  from 1 have "past_fst (pd_prepare_rw P cur) (pd, buf, w) = (Fault f, (pd, buf, w'))" by (rule past_fst_eq)
  then show "pd_read P cur (pd, buf, w) = (Fault f, (pd, buf, w'))"
    by (simp add: pd_read_def prop_if_error_def bindc_def noexcept_def)
qed

lemma partial_opened:
  assumes "partial_file m (view w) i"
  obtains p pd w1 w2 fd where "disk_path m i = Some p" and "init_for P p m w = (Ret (Inr pd), w1)"
    and "pd_get_disk_byte_size P (pd, w1) = (Fault Assertion_Failed, (pd, w2))"
    and "file_at (view w2) = file_at (view w)"
proof -
  obtain p j where p: "disk_path m i = Some p" "names (view w) p = Some j"
    and part: "\<not> unat (dm_page_size m) dvd length (contents (view w) j)" "dm_page_size m \<noteq> 0"
    using assms by (auto simp: partial_file_def)
  from p(2) obtain w1 pd where 1: "init_for P p m w = (Ret (Inr pd), w1)"
    and pd: "pd = posix_disk_new p (m_fd pd) (dm_page_size m) (max_disk_byte_size m)"
    and h: "handle (view w1) pd j 0" and v1: "view w1 = fs_open j (m_fd pd) (view w)" by (rule init_for_run)
  have sel: "m_page_size pd = dm_page_size m" by (subst pd) (simp add: posix_disk_new_def)
  have "names (view w1) (m_file_path pd) = Some j" using h by (simp add: handle_def)
  then obtain w2 where 2: "pd_get_disk_byte_size P (pd, w1) = (Fault Assertion_Failed, (pd, w2))"
    and v2: "view w2 = view w1"
    by (rule pd_size_fault) (use part v1 in \<open>simp_all add: sel fs_open_def\<close>)
  show thesis using p(1) 1 2 by (rule that) (simp add: v2 v1 fs_open_def file_at_def fun_eq_iff)
qed

theorem partial_file_faults:
  assumes part: "partial_file m (view w) i"
    and c: "c = Write i cur bs \<or> c = Read i cur buf \<or> c = Size i \<or> c = Extend i"
  shows "\<exists>w'. exec P c (m, w) = (Fault Assertion_Failed, (m, w')) \<and> file_at (view w') = file_at (view w)"
proof -
  from part obtain p pd w1 w2 where p: "disk_path m i = Some p" and 1: "init_for P p m w = (Ret (Inr pd), w1)"
    and 2: "pd_get_disk_byte_size P (pd, w1) = (Fault Assertion_Failed, (pd, w2))"
    and v: "file_at (view w2) = file_at (view w)" by (rule partial_opened)
  have 3: "past_fst (pd_get_disk_byte_size P) (pd, m, w1) = (Fault Assertion_Failed, (pd, m, w2))"
    using 2 by (rule past_fst_eq)
  have 4: "past_fst (pd_write P cur bs) (pd, m, w1) = (Fault Assertion_Failed, (pd, m, w2))"
    using starts_with_size(1) [OF 2] by (rule past_fst_eq)
  have size: "disk_byte_size P i (m, w) = (Fault Assertion_Failed, (m, w2))"
    using 1 3
    by (simp add: disk_byte_size_def with_disk_loaded [OF p] on_snd_eq bindc_def in_scope_def noexcept_def)
  have wr: "pdm_write P i cur bs (m, w) = (Fault Assertion_Failed, (m, w2))"
    using 1 4
    by (simp add: pdm_write_def with_disk_loaded [OF p] on_snd_eq bindc_def in_scope_def noexcept_def prop_if_error_def)
  have "past_fst (pd_read P cur) (pd, m, buf, w1) = (Fault Assertion_Failed, (pd, m, buf, w2))"
    using starts_with_size(2) [OF 2] by (simp add: past_fst_eq)
  then have rd: "pdm_read P i cur (m, buf, w) = (Fault Assertion_Failed, (m, buf, w2))"
    using 1
    by (simp add: pdm_read_def with_disk_loaded [OF p] on_snd_eq bindc_def in_scope_def noexcept_def prop_if_error_def)
  have ex: "Posix_Disk_Manager.extend P i (m, w) = (Fault Assertion_Failed, (m, w2))"
    using size by (simp add: Posix_Disk_Manager.extend_def unwrap_or_prop_error_def bindc_def noexcept_def)
  show ?thesis
    using c v size wr rd ex by (auto simp: read_into_def replies_def bindc_def)
qed

end

section \<open>Properties\<close>

text \<open>
  C6. The codes of a call: on any system, whatever its calls answer, a disk manager call returns
  a value, answers a code of \<open>error_codes\<close> or ends the process, and throws nothing.  The sets are
  exact: every code of theirs is answered on some system (a read needs a buffer of two bytes for
  the page of that system).  No set has \<open>INIT_DISK_ERROR\<close>, \<open>CLOSE_DISK_ERROR\<close> or
  \<open>WRITE_DISK_ERROR\<close>: a failed write answers \<open>UNKOWN_ERROR\<close>.
\<close>

theorem error_codes_exact:
  "((\<exists>r. fst (exec P c s) = Ret (Inr r)) \<or> (\<exists>e \<in> error_codes c. fst (exec P c s) = Ret (Inl e))
      \<or> (\<exists>f. fst (exec P c s) = Fault f))
    \<and> ((\<forall>i cur buf. c = Read i cur buf \<longrightarrow> 2 \<le> length buf) \<longrightarrow>
        (\<forall>e \<in> error_codes c. \<exists>(Q :: unit posix) t. fst (exec Q c t) = Ret (Inl e)))"
proof -
  obtain out s' where run: "exec P c s = (out, s')" by (cases "exec P c s")
  have "(\<exists>r. out = Ret (Inr r)) \<or> (\<exists>e \<in> error_codes c. out = Ret (Inl e)) \<or> (\<exists>f. out = Fault f)"
  proof (cases out)
    case (Ret r)
    then show ?thesis using run reportsD [OF exec_reports, of P c s _ s'] by (cases r) auto
  next
    case (Throw x)
    then show ?thesis using run exec_no_Throw [of P c s x s'] by simp
  qed simp
  moreover have "\<exists>(Q :: unit posix) t. fst (exec Q c t) = Ret (Inl e)"
    if "e \<in> error_codes c" "\<forall>i cur buf. c = Read i cur buf \<longrightarrow> 2 \<le> length buf" for e
    using error_codes_answered [OF that] unfolding can_answer_def by (metis fst_conv)
  ultimately show ?thesis using run by simp
qed

theorem error_codes_exact_witness:
  "\<exists>(Q :: unit posix) t. fst (exec Q (Read 0 0 [0, 0]) t) = Ret (Inl READ_DISK_ERROR)"
  using error_codes_exact [of calm_posix "Read 0 0 [0, 0]" "(small_manager, empty_world)"] by simp

text \<open>
  C19. A partial page locks the disk: when the file of a loaded disk does not end at a page
  boundary, every write, read, size query and extension of the disk fails the assertion of
  \<open>get_disk_byte_size\<close>, before anything is written, so no write can repair the file.
\<close>

theorem partial_page_locks_disk:
  assumes "posix_reliable P view" and "partial_file m (view w) i"
    and "c = Write i cur bs \<or> c = Read i cur buf \<or> c = Size i \<or> c = Extend i"
  shows "\<exists>w'. exec P c (m, w) = (Fault Assertion_Failed, (m, w')) \<and> file_at (view w') = file_at (view w)"
  using posix_reliable.partial_file_faults [OF assms] .

definition partial_world :: sim_world where
  "partial_world =
     \<lparr>sim_names = [(''d/a.disk'', 1)], sim_data = [(1, [1, 2, 3])], sim_fds = [], sim_faults = []\<rparr>"

theorem partial_page_locks_disk_witness:
  "\<exists>w'. exec calm_posix (Write 0 0 [7, 8]) (loaded_manager, partial_world) =
      (Fault Assertion_Failed, (loaded_manager, w'))
    \<and> file_at (sim_view w') ''d/a.disk'' = Some [1, 2, 3]"
proof -
  have f: "file_at (sim_view partial_world) ''d/a.disk'' = Some [1, 2, 3]"
    by (simp add: file_at_def partial_world_def sim_contents_def)
  have "partial_file loaded_manager (sim_view partial_world) 0"
    by (simp add: partial_file_def loaded_paths partial_world_def sim_contents_def)
  with calm.posix_reliable_axioms have "\<exists>w'. exec calm_posix (Write 0 0 [7, 8]) (loaded_manager, partial_world) =
      (Fault Assertion_Failed, (loaded_manager, w'))
    \<and> file_at (sim_view w') = file_at (sim_view partial_world)"
    by (rule partial_page_locks_disk) blast
  then show ?thesis using f by auto
qed

end
