(* ===== verification/Buffer_Page.thy ===== *)
theory Buffer_Page
  imports Errors
begin

text \<open>
  \<open>buffer_manager/src/buffer_page.h\<close> and \<open>mem/buffer_page_allocator\<close>: a page of the buffer
  pool.  \<open>bp_bytes\<close> is a flexible array at the end of the object: the list holds the memory
  from it to the end of the allocation, which may be longer or shorter than \<open>bp_page_size\<close>.
  A pointer that \<open>to_ptr\<close> returns is its offset in \<open>bp_bytes\<close>.  The messages of \<open>LOG\<close> are not
  modelled here.
\<close>

section \<open>The class\<close>

record buffer_page =
  bp_disk_id :: int32
  bp_disk_page_cursor :: int32
  bp_buffer_page_cursor :: uint
  pin_count :: uint
  bp_page_size :: uint
  dirty :: bool
  initialized :: bool
  bp_bytes :: "byte list"

definition buffer_page_new ::
    "byte list \<Rightarrow> uint \<Rightarrow> int32 \<Rightarrow> int32 \<Rightarrow> uint \<Rightarrow> uint \<Rightarrow> bool \<Rightarrow> buffer_page" where
  \<comment> \<open>the constructor, on the memory \<open>mem\<close> behind the object\<close>
  "buffer_page_new mem ps d dpc bpc pins dt =
     \<lparr>bp_disk_id = d, bp_disk_page_cursor = dpc, bp_buffer_page_cursor = bpc, pin_count = pins,
      bp_page_size = ps, dirty = dt, initialized = True, bp_bytes = mem\<rparr>"

definition sizeof_buffer_page :: nat where
  \<comment> \<open>five words, two \<open>bool\<close>s, padded to a multiple of four\<close>
  "sizeof_buffer_page = 24"

definition buffer_page_size :: "uint \<Rightarrow> uint" where
  \<comment> \<open>\<open>size\<close>: the \<open>size_t\<close> sum is returned as an \<open>unsigned int\<close>\<close>
  "buffer_page_size ps = of_nat (sizeof_buffer_page + unat ps)"

definition to_ptr :: "buffer_page \<Rightarrow> uint \<Rightarrow> (exn, nat) outcome" where
  \<comment> \<open>the check does not depend on the type pointed to\<close>
  "to_ptr pg offset =
     obind (oassert (initialized pg)) (\<lambda>_.
       if bp_page_size pg \<le> offset then Throw (BufferManagerError OUT_OF_PAGE_BOUNDS)
       else Ret (unat offset))"

definition load_ptr :: "buffer_page \<Rightarrow> nat \<Rightarrow> nat \<Rightarrow> (exn, byte list) outcome" where
  \<comment> \<open>\<open>*p\<close> for a \<open>T* p\<close> with \<open>sizeof(T) = sz\<close>\<close>
  "load_ptr pg p sz = mem_read (bp_bytes pg) p sz"

definition store_ptr :: "buffer_page \<Rightarrow> nat \<Rightarrow> byte list \<Rightarrow> (exn, buffer_page) outcome" where
  \<comment> \<open>\<open>*p = v\<close>, the bytes of \<open>v\<close> given\<close>
  "store_ptr pg p v = obind (mem_write (bp_bytes pg) p v) (\<lambda>bs. Ret (pg\<lparr>bp_bytes := bs\<rparr>))"

function memcpy_from :: "nat \<Rightarrow> uint \<Rightarrow> byte list list \<Rightarrow> uint \<Rightarrow> nat \<Rightarrow> buffer_page
    \<Rightarrow> (exn, buffer_page) outcome" where
  \<comment> \<open>the loop of \<open>memcpy\<close>; \<open>int i\<close> is compared to, and multiplied as, an unsigned\<close>
  "memcpy_from sz offset elements num_elements i pg =
     (if i < unat num_elements then
        obind (to_ptr pg (of_nat (unat offset + i * sz))) (\<lambda>p.
        obind (if i < length elements then Ret (elements ! i) else Fault (Undefined Out_Of_Bounds)) (\<lambda>v.
        obind (store_ptr pg p v) (\<lambda>pg'.
          if i = INT_MAX then Fault (Undefined Signed_Overflow)
          else memcpy_from sz offset elements num_elements (Suc i) pg')))
      else Ret pg)"
  by pat_completeness auto
termination
  by (relation "measure (\<lambda>(sz, offset, elements, num_elements, i, pg). unat num_elements - i)") auto

declare memcpy_from.simps [simp del]

definition memcpy :: "nat \<Rightarrow> buffer_page \<Rightarrow> uint \<Rightarrow> byte list list \<Rightarrow> uint \<Rightarrow> (exn, buffer_page) outcome" where
  \<comment> \<open>\<open>sz\<close> is \<open>sizeof(T)\<close>; the bound is computed in \<open>size_t\<close>\<close>
  "memcpy sz pg offset elements num_elements =
     obind (oassert (initialized pg)) (\<lambda>_.
       if ucast (bp_page_size pg) < (ucast offset :: 64 word) + of_nat sz * ucast num_elements
       then Throw (BufferManagerError OUT_OF_PAGE_BOUNDS)
       else memcpy_from sz offset elements num_elements 0 pg)"

definition print_page :: "buffer_page \<Rightarrow> (exn, string) outcome" where
  \<comment> \<open>\<open>operator<<\<close>\<close>
  "print_page pg =
     obind (oassert (initialized pg)) (\<lambda>_.
       Ret (''(disk_id, disk_page_cursor, buffer_page_cursor, pin_count, dirty) = (''
         @ show_int (sint (bp_disk_id pg)) @ '', ''
         @ show_int (sint (bp_disk_page_cursor pg)) @ '', ''
         @ show_nat (unat (bp_buffer_page_cursor pg)) @ '', ''
         @ show_nat (unat (pin_count pg)) @ '', ''
         @ show_nat (if dirty pg then 1 else 0) @ '')''))"

section \<open>Access within the page\<close>

definition page_ok :: "buffer_page \<Rightarrow> bool" where
  \<comment> \<open>constructed on memory that holds the page\<close>
  "page_ok pg \<longleftrightarrow> initialized pg \<and> unat (bp_page_size pg) \<le> length (bp_bytes pg)"

lemma page_ok_new:
  "page_ok (buffer_page_new mem ps d dc bc pins dt) \<longleftrightarrow> unat ps \<le> length mem"
  by (simp add: page_ok_def buffer_page_new_def)

lemma to_ptr_eq:
  "initialized pg \<Longrightarrow> to_ptr pg offset =
    (if unat offset < unat (bp_page_size pg) then Ret (unat offset)
     else Throw (BufferManagerError OUT_OF_PAGE_BOUNDS))"
  by (simp add: to_ptr_def word_le_nat_alt not_less)

lemma load_in_page:
  "page_ok pg \<Longrightarrow> p + sz \<le> unat (bp_page_size pg) \<Longrightarrow> load_ptr pg p sz = Ret (take sz (drop p (bp_bytes pg)))"
  by (simp add: load_ptr_def mem_read_def page_ok_def)

lemma store_in_page:
  "page_ok pg \<Longrightarrow> p + length v \<le> unat (bp_page_size pg) \<Longrightarrow>
    store_ptr pg p v = Ret (pg\<lparr>bp_bytes := overwrite p v (bp_bytes pg)\<rparr>)"
  by (simp add: store_ptr_def mem_write_def page_ok_def)

lemma page_ok_store:
  "page_ok pg \<Longrightarrow> store_ptr pg p v = Ret pg' \<Longrightarrow> page_ok pg' \<and> bp_page_size pg' = bp_page_size pg
    \<and> length (bp_bytes pg') = length (bp_bytes pg)"
  by (auto simp: store_ptr_def mem_write_def page_ok_def split: if_splits)

section \<open>\<open>memcpy\<close>\<close>

lemma memcpy_bound:
  fixes offset num_elements :: uint
  assumes "sz < 4294967296"
  shows "ucast (bp_page_size pg) < (ucast offset :: 64 word) + of_nat sz * ucast num_elements \<longleftrightarrow>
    unat (bp_page_size pg) < unat offset + sz * unat num_elements"
proof -
  have wide: "take_bit 64 (unat u) = unat u" for u :: uint
    by (intro take_bit_nat_eq_self) (simp add: less_le_trans [OF unat_uint_less])
  have sz: "unat (of_nat sz :: 64 word) = sz" using assms by (simp add: unat_of_nat take_bit_nat_eq_self)
  have "sz * unat num_elements \<le> 4294967295 * 4294967295"
    using assms unat_uint_le [of num_elements] by (intro mult_le_mono) simp_all
  then have p: "unat (of_nat sz * ucast num_elements :: 64 word) = sz * unat num_elements"
    by (simp add: unat_word_ariths sz unsigned_ucast_eq wide)
  have "unat offset + sz * unat num_elements < 18446744073709551616"
    using \<open>sz * unat num_elements \<le> _\<close> unat_uint_less [of offset] by linarith
  then have "unat ((ucast offset :: 64 word) + of_nat sz * ucast num_elements) =
      unat offset + sz * unat num_elements"
    by (simp add: unat_word_ariths(1) p unsigned_ucast_eq wide)
  then show ?thesis by (simp add: word_less_nat_alt unsigned_ucast_eq wide)
qed


lemma concat_length: "\<forall>v \<in> set xs. length v = sz \<Longrightarrow> length (concat xs) = length xs * sz"
  by (induction xs) auto

lemma memcpy_from_eq:
  assumes "page_ok pg" and "\<forall>v \<in> set elements. length v = sz" and "0 < sz"
    and "unat num_elements = length elements" and "length elements \<le> INT_MAX"
    and "unat offset + sz * length elements \<le> unat (bp_page_size pg)" and "i \<le> length elements"
    and "bp_bytes pg = overwrite (unat offset) (concat (take i elements)) bs0"
    and "length bs0 = length (bp_bytes pg)"
  shows "memcpy_from sz offset elements num_elements i pg =
    Ret (pg\<lparr>bp_bytes := overwrite (unat offset) (concat elements) bs0\<rparr>)"
  using assms
proof (induction "length elements - i" arbitrary: i pg)
  case 0
  then show ?case by (simp add: memcpy_from.simps)
next
  case (Suc k)
  then have i: "i < length elements" by simp
  have len: "length (concat (take j elements)) = sz * j" if "j \<le> length elements" for j
  proof -
    have "\<forall>v \<in> set (take j elements). length v = sz" using Suc.prems(2) by (meson in_set_takeD)
    then show ?thesis using concat_length [of "take j elements" sz] that by (simp add: mult.commute)
  qed
  have "sz * Suc i \<le> sz * length elements" using i by (intro mult_le_mono2) simp
  then have room: "unat offset + i * sz + sz \<le> unat (bp_page_size pg)"
    using Suc.prems(6) by (simp add: algebra_simps)
  let ?p = "unat offset + i * sz" and ?v = "elements ! i"
  let ?pg = "pg\<lparr>bp_bytes := overwrite ?p ?v (bp_bytes pg)\<rparr>"
  have v: "length ?v = sz" using Suc.prems(2) i by simp
  have off: "unat (of_nat ?p :: uint) = ?p"
    using room unat_uint_less [of "bp_page_size pg"] by (intro unat_of_nat_uint) linarith
  have ptr: "to_ptr pg (of_nat ?p) = Ret ?p"
    using room Suc.prems(1,3) off by (simp add: to_ptr_eq page_ok_def)
  have st: "store_ptr pg ?p ?v = Ret ?pg"
    using Suc.prems(1) room v by (intro store_in_page) simp_all
  have adj: "bp_bytes ?pg = overwrite (unat offset) (concat (take (Suc i) elements)) bs0"
  proof -
    have "?p = unat offset + length (concat (take i elements))" using len [of i] i by (simp add: mult.commute)
    moreover have "?p + sz \<le> length bs0"
      using room Suc.prems(1,9) by (simp add: page_ok_def)
    ultimately show ?thesis
      using i v Suc.prems(8) overwrite_overwrite_adjacent [of "unat offset" "concat (take i elements)" ?v bs0]
      by (simp add: take_Suc_conv_app_nth)
  qed
  have "memcpy_from sz offset elements num_elements (Suc i) ?pg =
      Ret (?pg\<lparr>bp_bytes := overwrite (unat offset) (concat elements) bs0\<rparr>)"
  proof (rule Suc.hyps(1))
    show "k = length elements - Suc i" using Suc.hyps(2) by simp
    show "page_ok ?pg" using page_ok_store [OF Suc.prems(1) st] by simp
    show "length bs0 = length (bp_bytes ?pg)" using page_ok_store [OF Suc.prems(1) st] Suc.prems(9) by simp
  qed (use Suc.prems i adj in simp_all)
  moreover have "i \<noteq> INT_MAX" using i Suc.prems(5) by simp
  ultimately show ?case
    using i ptr st Suc.prems(4) by (simp add: memcpy_from.simps [of _ _ _ _ i])
qed

theorem memcpy_eq:
  assumes "page_ok pg" and "\<forall>v \<in> set elements. length v = sz" and "0 < sz" and "sz < 4294967296"
    and "unat num_elements = length elements" and "length elements \<le> INT_MAX"
    and "unat offset + sz * length elements \<le> unat (bp_page_size pg)"
  shows "memcpy sz pg offset elements num_elements =
    Ret (pg\<lparr>bp_bytes := overwrite (unat offset) (concat elements) (bp_bytes pg)\<rparr>)"
proof -
  have "memcpy_from sz offset elements num_elements 0 pg =
      Ret (pg\<lparr>bp_bytes := overwrite (unat offset) (concat elements) (bp_bytes pg)\<rparr>)"
    using assms by (intro memcpy_from_eq) simp_all
  then show ?thesis
    using assms memcpy_bound [OF assms(4), of pg offset num_elements] by (simp add: memcpy_def page_ok_def)
qed

lemma memcpy_refused:
  assumes "initialized pg" and "sz < 4294967296"
    and "unat (bp_page_size pg) < unat offset + sz * unat num_elements"
  shows "memcpy sz pg offset elements num_elements = Throw (BufferManagerError OUT_OF_PAGE_BOUNDS)"
  using assms memcpy_bound [OF assms(2), of pg offset num_elements] by (simp add: memcpy_def)

text \<open>The blocks of a concatenation.\<close>

lemma nth_concat_block:
  assumes "\<forall>v \<in> set xs. length v = sz" and "i < length xs"
  shows "take sz (drop (i * sz) (concat xs)) = xs ! i"
  using assms
proof (induction xs arbitrary: i)
  case (Cons x xs)
  then show ?case by (cases i) auto
qed simp

section \<open>\<open>BufferPageAllocator\<close>\<close>

record page_allocator =
  m_num_pages :: "64 word"
  m_page_byte_size :: "64 word"
  alloc_buffer :: "byte list option"   \<comment> \<open>\<open>None\<close> is \<open>nullptr\<close>\<close>

definition page_allocator_start :: page_allocator where
  \<comment> \<open>the static initialisers\<close>
  "page_allocator_start = \<lparr>m_num_pages = 512, m_page_byte_size = 512, alloc_buffer = None\<rparr>"

definition allocator_init :: "(nat \<Rightarrow> byte list option) \<Rightarrow> 64 word \<Rightarrow> 64 word
    \<Rightarrow> (page_allocator, unit) cpp" where
  \<comment> \<open>\<open>malloc\<close> is the parameter; it may return \<open>nullptr\<close>\<close>
  "allocator_init malloc num_pgs page_byte_size =
     bindc (getc alloc_buffer) (\<lambda>buffer.
     bindc (if buffer \<noteq> None
            then modc (\<lambda>al. al\<lparr>m_num_pages := num_pgs, m_page_byte_size := page_byte_size,
                   alloc_buffer := malloc (unat (num_pgs * (of_nat sizeof_buffer_page + page_byte_size)))\<rparr>)
            else retc ()) (\<lambda>_.
     liftc (Fault Assertion_Failed)))"

definition allocator_allocate :: "64 word \<Rightarrow> (page_allocator, nat) cpp" where
  \<comment> \<open>an empty body that must return a pointer\<close>
  "allocator_allocate num_buffer_pages = liftc (Fault (Undefined Missing_Return))"

definition allocator_deallocate :: "nat \<Rightarrow> 64 word \<Rightarrow> (page_allocator, unit) cpp" where
  "allocator_deallocate pg num_buffer_pages = retc ()"

lemma allocator_init_aborts:
  "fst (allocator_init malloc n sz al) = Fault Assertion_Failed"
  by (cases "alloc_buffer al") (simp_all add: allocator_init_def)

end
