(* ===== verification/Page_Tracker.thy ===== *)
theory Page_Tracker
  imports Bitmap
begin

text \<open>
  \<open>buffer_page_tracker/\<close>: which pages of the buffer pool are taken.  The abstract class
  \<open>BufferPageTracker\<close> is the locale \<open>page_tracker\<close>, whose \<open>fixes\<close> are its virtual methods
  and whose \<open>assumes\<close> are what its clients rely on, over the list of the pages' statuses;
  \<open>BitmapTracker\<close> is its implementation on \<open>Bitmap\<close>, and the interpretation at the end.
\<close>

section \<open>The interface\<close>

record 't tracker_ops =
  op_get_next_free_page :: "'t \<Rightarrow> (exn, buffer_page_cursor) outcome"
  op_set_page_status :: "'t \<Rightarrow> buffer_page_cursor \<Rightarrow> bool \<Rightarrow> (exn, 't) outcome"
  op_get_page_status :: "'t \<Rightarrow> buffer_page_cursor \<Rightarrow> (exn, bool) outcome"
  op_get_num_free_pages :: "'t \<Rightarrow> (exn, uint) outcome"
  op_get_num_taken_pages :: "'t \<Rightarrow> (exn, uint) outcome"

locale page_tracker =
  fixes T :: "'t tracker_ops" and ok :: "'t \<Rightarrow> bool" and pages :: "'t \<Rightarrow> bool list"
  assumes few_pages: "ok t \<Longrightarrow> length (pages t) < 4294967296"
    and set_law: "ok t \<Longrightarrow> unat c < length (pages t) \<Longrightarrow>
      \<exists>t'. op_set_page_status T t c v = Ret t' \<and> ok t' \<and> pages t' = (pages t)[unat c := v]"
    and get_law: "ok t \<Longrightarrow> unat c < length (pages t) \<Longrightarrow> op_get_page_status T t c = Ret (pages t ! unat c)"
    and next_law: "ok t \<Longrightarrow> op_get_next_free_page T t =
      (case first_False (pages t) of None \<Rightarrow> Throw Bad_Optional_Access | Some k \<Rightarrow> Ret (of_nat k))"
    and free_law: "ok t \<Longrightarrow> op_get_num_free_pages T t = Ret (of_nat (count_list (pages t) False))"
    and taken_law: "ok t \<Longrightarrow> op_get_num_taken_pages T t = Ret (of_nat (count_list (pages t) True))"
begin

lemma next_free:
  assumes "ok t" and "op_get_next_free_page T t = Ret c"
  shows "unat c < length (pages t)" and "\<not> pages t ! unat c" and "\<And>i. i < unat c \<Longrightarrow> pages t ! i"
proof -
  from assms obtain k where k: "first_False (pages t) = Some k" "c = of_nat k"
    by (auto simp: next_law split: option.splits)
  note D = first_False_SomeD [OF k(1)]
  have "unat c = k" using D(1) few_pages [OF assms(1)] k(2) by (simp add: unat_of_nat_uint)
  then show "unat c < length (pages t)" "\<not> pages t ! unat c" "\<And>i. i < unat c \<Longrightarrow> pages t ! i"
    using D by auto
qed

lemma next_full: "ok t \<Longrightarrow> False \<notin> set (pages t) \<Longrightarrow> op_get_next_free_page T t = Throw Bad_Optional_Access"
  by (simp add: next_law first_False_None_iff [THEN iffD2])

lemma next_exists:
  "ok t \<Longrightarrow> False \<in> set (pages t) \<Longrightarrow> \<exists>c. op_get_next_free_page T t = Ret c"
  by (cases "first_False (pages t)") (auto simp: next_law first_False_None_iff)

end

text \<open>Taking pages: the next free page, marked as taken.\<close>

definition take_page :: "'t tracker_ops \<Rightarrow> 't \<Rightarrow> (exn, uint \<times> 't) outcome" where
  "take_page T t =
     obind (op_get_next_free_page T t) (\<lambda>c.
     obind (op_set_page_status T t c True) (\<lambda>t'. Ret (c, t')))"

fun take_pages :: "'t tracker_ops \<Rightarrow> nat \<Rightarrow> 't \<Rightarrow> (exn, uint list \<times> 't) outcome" where
  "take_pages T 0 t = Ret ([], t)"
| "take_pages T (Suc n) t =
     obind (take_page T t) (\<lambda>(c, t'). obind (take_pages T n t') (\<lambda>(cs, t''). Ret (c # cs, t'')))"

lemma count_list_update_True:
  "k < length xs \<Longrightarrow> \<not> xs ! k \<Longrightarrow> count_list xs False = Suc (count_list (xs[k := True]) False)"
  by (induction xs arbitrary: k) (auto split: nat.splits)

context page_tracker begin

lemma take_page_ok:
  assumes "ok t" and "False \<in> set (pages t)"
  obtains c t' where "take_page T t = Ret (c, t')" and "ok t'" and "pages t' = (pages t)[unat c := True]"
    and "unat c < length (pages t)" and "\<not> pages t ! unat c"
proof -
  obtain c where c: "op_get_next_free_page T t = Ret c" using next_exists [OF assms] by blast
  note D = next_free [OF assms(1) c]
  obtain t' where "op_set_page_status T t c True = Ret t'" "ok t'" "pages t' = (pages t)[unat c := True]"
    using set_law [OF assms(1) D(1)] by blast
  then show thesis using c D by (intro that [of c t']) (simp_all add: take_page_def)
qed

theorem take_pages_ok:
  assumes "ok t" and "n \<le> count_list (pages t) False"
  shows "\<exists>cs t'. take_pages T n t = Ret (cs, t') \<and> ok t' \<and> length cs = n \<and> distinct cs
    \<and> (\<forall>c \<in> set cs. unat c < length (pages t) \<and> \<not> pages t ! unat c)
    \<and> length (pages t') = length (pages t)
    \<and> (\<forall>i < length (pages t). pages t' ! i \<longleftrightarrow> pages t ! i \<or> i \<in> unat ` set cs)"
  using assms
proof (induction n arbitrary: t)
  case 0
  then show ?case by simp
next
  case (Suc n)
  have "False \<in> set (pages t)" using Suc.prems(2) by (metis count_notin not_less_eq_eq zero_le)
  with Suc.prems(1) obtain c t1 where 1: "take_page T t = Ret (c, t1)" "ok t1"
    "pages t1 = (pages t)[unat c := True]" "unat c < length (pages t)" "\<not> pages t ! unat c"
    by (rule take_page_ok)
  have "n \<le> count_list (pages t1) False"
    using Suc.prems(2) count_list_update_True [OF 1(4,5)] 1(3) by simp
  from Suc.IH [OF 1(2) this] obtain cs t2 where 2: "take_pages T n t1 = Ret (cs, t2)" "ok t2"
    "length cs = n" "distinct cs" "\<forall>c \<in> set cs. unat c < length (pages t1) \<and> \<not> pages t1 ! unat c"
    "length (pages t2) = length (pages t1)"
    "\<forall>i < length (pages t1). pages t2 ! i \<longleftrightarrow> pages t1 ! i \<or> i \<in> unat ` set cs" by blast
  have new: "c \<notin> set cs" using 2(5) 1(3,4) by auto
  have old: "\<not> pages t ! unat c'" "unat c' < length (pages t)" if "c' \<in> set cs" for c'
  proof -
    have "unat c \<noteq> unat c'" using that new by (metis word_unat_eq_iff)
    then show "\<not> pages t ! unat c'" "unat c' < length (pages t)" using 2(5) that 1(3) by auto
  qed
  show ?case
    using 1 2 new old by (intro exI [of _ "c # cs"] exI [of _ t2]) (auto simp: nth_list_update)
qed

end

section \<open>\<open>BitmapTracker\<close>\<close>

text \<open>The base class keeps the number of pages; the bitmap has a bit for each.\<close>

record page_tracker_base =
  num_pages :: uint

definition page_tracker_base_new :: "uint \<Rightarrow> page_tracker_base" where
  "page_tracker_base_new n = \<lparr>num_pages = n\<rparr>"

record bitmap_tracker = page_tracker_base +
  tracker_bitmap :: bitmap

definition bitmap_tracker_new :: "uint \<Rightarrow> (exn, bitmap_tracker) outcome" where
  "bitmap_tracker_new n =
     obind (bitmap_new n) (\<lambda>b. Ret \<lparr>num_pages = num_pages (page_tracker_base_new n), tracker_bitmap = b\<rparr>)"

definition get_num_free_pages :: "bitmap_tracker \<Rightarrow> (exn, uint) outcome" where
  "get_num_free_pages t = get_num_free_bits (tracker_bitmap t)"

definition get_num_taken_pages :: "bitmap_tracker \<Rightarrow> (exn, uint) outcome" where
  "get_num_taken_pages t = get_num_taken_bits (tracker_bitmap t)"

definition get_next_free_page :: "bitmap_tracker \<Rightarrow> (exn, uint) outcome" where
  \<comment> \<open>\<open>std::optional::value\<close>\<close>
  "get_next_free_page t =
     obind (get_first_free_bit (tracker_bitmap t)) (\<lambda>r.
       case r of None \<Rightarrow> Throw Bad_Optional_Access | Some c \<Rightarrow> Ret c)"

definition set_page_status :: "bitmap_tracker \<Rightarrow> uint \<Rightarrow> bool \<Rightarrow> (exn, bitmap_tracker) outcome" where
  "set_page_status t buffer_page_cursor v =
     obind (set_bit_val (tracker_bitmap t) buffer_page_cursor v) (\<lambda>b. Ret (t\<lparr>tracker_bitmap := b\<rparr>))"

definition get_page_status :: "bitmap_tracker \<Rightarrow> uint \<Rightarrow> (exn, bool) outcome" where
  "get_page_status t buffer_page_cursor = get_bit_val (tracker_bitmap t) buffer_page_cursor"

definition print_tracker :: "bitmap_tracker \<Rightarrow> (exn, string) outcome" where
  "print_tracker t = print_bitmap (tracker_bitmap t)"

definition bitmap_tracker_ops :: "bitmap_tracker tracker_ops" where
  "bitmap_tracker_ops =
     \<lparr>op_get_next_free_page = get_next_free_page, op_set_page_status = set_page_status,
      op_get_page_status = get_page_status, op_get_num_free_pages = get_num_free_pages,
      op_get_num_taken_pages = get_num_taken_pages\<rparr>"

definition wf_tracker :: "bitmap_tracker \<Rightarrow> bool" where
  "wf_tracker t \<longleftrightarrow> wf_bitmap (tracker_bitmap t) \<and> num_bits (tracker_bitmap t) = num_pages t"

definition statuses :: "bitmap_tracker \<Rightarrow> bool list" where
  "statuses t = bits (tracker_bitmap t)"

lemma bitmap_tracker_new_ok:
  assumes "8 dvd unat n" and "unat n \<le> INT_MAX"
  shows "\<exists>t. bitmap_tracker_new n = Ret t \<and> wf_tracker t \<and> statuses t = replicate (unat n) False"
  using wf_bitmap_new [OF assms] by (auto simp: bitmap_tracker_new_def page_tracker_base_new_def wf_tracker_def statuses_def)

interpretation bt: page_tracker bitmap_tracker_ops wf_tracker statuses
proof (unfold_locales, unfold bitmap_tracker_ops_def tracker_ops.select_convs wf_tracker_def statuses_def, goal_cases)
  case (1 t)
  then show ?case by simp
next
  case (2 t c v)
  then show ?case
    using set_bit_val_eq [of "tracker_bitmap t" c v] by (auto simp: set_page_status_def)
next
  case (3 t c)
  then show ?case by (simp add: get_page_status_def get_bit_val_eq)
next
  case (4 t)
  then show ?case by (auto simp: get_next_free_page_def get_first_free_bit_eq split: option.split)
next
  case (5 t)
  then show ?case by (simp add: get_num_free_pages_def get_num_free_bits_eq)
next
  case (6 t)
  then show ?case by (simp add: get_num_taken_pages_def get_num_taken_bits_eq)
qed

end
