(* ===== verification/Buffer_Manager.thy ===== *)
theory Buffer_Manager
  imports Buffer_Page Page_Tracker
begin

text \<open>
  \<open>buffer_manager/src/buffer_manager.{h,cpp}\<close> and \<open>replacement/dumb_alg\<close>.  The map from disk
  pages to pages of the pool is live; \<open>pin\<close>, \<open>unpin\<close>, \<open>set_dirty\<close>, the removal from the map
  and the search for a victim are commented out in the source, and their models are the
  empty bodies that are left: nothing happens, and \<open>pin\<close>, which must return a reference,
  runs off its end.  The page tracker is a parameter \<open>T\<close>, as in the code, where it is a
  pointer to the abstract class.
\<close>

section \<open>The class\<close>

text \<open>
  The type has the keys of \<open>MemPoolMapType\<close> in the order of its declaration, which is not the one of
  its use: the code looks up a disk id and then a disk page cursor, and finds a buffer page cursor.
\<close>

type_synonym mem_pool_map_type = "(buffer_page_cursor \<times> (disk_id \<times> disk_page_cursor) list) list"

record 't buffer_manager =
  mem_pool_map :: mem_pool_map_type
  buffer_page_tracker :: 't

definition buffer_manager_new :: "'t \<Rightarrow> 't buffer_manager" where
  "buffer_manager_new tracker = \<lparr>mem_pool_map = [], buffer_page_tracker = tracker\<rparr>"

definition map_at :: "mem_pool_map_type \<Rightarrow> uint \<Rightarrow> (int32 \<times> int32) list" where
  \<comment> \<open>\<open>mem_pool_map[disk_id]\<close>, which inserts an empty map when there is none\<close>
  "map_at mp i = (case map_of mp i of None \<Rightarrow> [] | Some pgs \<Rightarrow> pgs)"

definition add_page_mem_pool_map ::
    "'t tracker_ops \<Rightarrow> disk_id \<Rightarrow> disk_page_cursor \<Rightarrow> buffer_page_cursor \<Rightarrow> ('t buffer_manager, unit) cpp" where
  "add_page_mem_pool_map T i cur bpc =
     bindc (getc mem_pool_map) (\<lambda>mp.
     bindc (if map_of mp i = None
            then modc (\<lambda>bm. bm\<lparr>mem_pool_map := AList.update i [] (mem_pool_map bm)\<rparr>)
            else retc ()) (\<lambda>_.
     bindc (getc buffer_page_tracker) (\<lambda>t.
     bindc (liftc (op_set_page_status T t bpc True)) (\<lambda>t'.
     bindc (modc (\<lambda>bm. bm\<lparr>buffer_page_tracker := t'\<rparr>)) (\<lambda>_.
     modc (\<lambda>bm. bm\<lparr>mem_pool_map :=
       AList.update i (AList.update cur bpc (map_at (mem_pool_map bm) i)) (mem_pool_map bm)\<rparr>))))))"

definition get_page_mem_pool_map :: "int32 \<Rightarrow> int32 \<Rightarrow> ('t buffer_manager, uint) cpp" where
  "get_page_mem_pool_map i cur =
     bindc (getc mem_pool_map) (\<lambda>mp.
       case map_of mp i of
         None \<Rightarrow> liftc (Throw (BufferManagerError BM_DISK_NOT_FOUND))
       | Some pgs \<Rightarrow>
           (case map_of pgs cur of
              None \<Rightarrow> liftc (Throw (BufferManagerError DISK_PAGE_CURSOR_NOT_FOUND))
            | Some bpc \<Rightarrow> retc bpc))"

definition remove_page_mem_pool_map :: "uint \<Rightarrow> ('t buffer_manager, unit) cpp" where
  "remove_page_mem_pool_map victim = retc ()"

definition print_mem_pool_map :: "string \<Rightarrow> ('t buffer_manager, string) cpp" where
  \<comment> \<open>returns the stream it was given\<close>
  "print_mem_pool_map os = retc os"

definition free_avail_pages :: "('t buffer_manager, unit) cpp" where
  "free_avail_pages = retc ()"

definition unpin :: "int32 \<Rightarrow> int32 \<Rightarrow> ('t buffer_manager, unit) cpp" where
  "unpin i cur = retc ()"

definition pin :: "int32 \<Rightarrow> int32 \<Rightarrow> ('t buffer_manager, nat) cpp" where
  "pin i cur = liftc (Fault (Undefined Missing_Return))"

definition set_dirty :: "int32 \<Rightarrow> int32 \<Rightarrow> ('t buffer_manager, unit) cpp" where
  "set_dirty i cur = retc ()"

subsection \<open>\<open>DumbAlg\<close>\<close>

text \<open>The methods of the abstract class \<open>ReplacementAlg\<close>, and those of its implementation.\<close>

record 't replacement_ops =
  op_on_pin :: "buffer_page_cursor \<Rightarrow> (exn, unit) outcome"
  op_on_unpin :: "buffer_page_cursor \<Rightarrow> (exn, unit) outcome"
  op_get_victim :: "'t \<Rightarrow> (exn, buffer_page_cursor) outcome"

definition on_pin :: "uint \<Rightarrow> (exn, unit) outcome" where
  "on_pin page_cursor = Ret ()"

definition on_unpin :: "uint \<Rightarrow> (exn, unit) outcome" where
  "on_unpin page_cursor = Ret ()"

definition get_victim :: "'t \<Rightarrow> (exn, uint) outcome" where
  "get_victim tracker = Throw (BufferManagerError OUT_OF_PAGES)"

definition dumb_alg_ops :: "'t replacement_ops" where
  "dumb_alg_ops = \<lparr>op_on_pin = on_pin, op_on_unpin = on_unpin, op_get_victim = get_victim\<rparr>"

section \<open>The map of resident pages\<close>

definition resident :: "'t buffer_manager \<Rightarrow> int32 \<Rightarrow> int32 \<Rightarrow> uint option" where
  "resident bm i cur = Option.bind (map_of (mem_pool_map bm) i) (\<lambda>pgs. map_of pgs cur)"

lemma get_page_eq:
  "get_page_mem_pool_map i cur bm =
    (case resident bm i cur of
       Some bpc \<Rightarrow> Ret bpc
     | None \<Rightarrow> Throw (BufferManagerError
         (if map_of (mem_pool_map bm) i = None then BM_DISK_NOT_FOUND else DISK_PAGE_CURSOR_NOT_FOUND)), bm)"
  by (simp add: get_page_mem_pool_map_def resident_def split: option.split)

definition pool_ok :: "('t \<Rightarrow> bool) \<Rightarrow> ('t \<Rightarrow> bool list) \<Rightarrow> 't buffer_manager \<Rightarrow> bool" where
  \<comment> \<open>a resident page is a taken page of the pool, and of one disk page only\<close>
  "pool_ok ok pages bm \<longleftrightarrow> ok (buffer_page_tracker bm)
     \<and> (\<forall>i cur c. resident bm i cur = Some c \<longrightarrow>
          unat c < length (pages (buffer_page_tracker bm)) \<and> pages (buffer_page_tracker bm) ! unat c)
     \<and> (\<forall>i cur j cur' c. resident bm i cur = Some c \<longrightarrow> resident bm j cur' = Some c
          \<longrightarrow> i = j \<and> cur = cur')"

context page_tracker begin

lemma add_page_run:
  assumes "ok (buffer_page_tracker bm)" and "unat bpc < length (pages (buffer_page_tracker bm))"
  obtains bm' where "add_page_mem_pool_map T i cur bpc bm = (Ret (), bm')"
    and "ok (buffer_page_tracker bm')"
    and "pages (buffer_page_tracker bm') = (pages (buffer_page_tracker bm))[unat bpc := True]"
    and "\<forall>j cur'. resident bm' j cur' = (if j = i \<and> cur' = cur then Some bpc else resident bm j cur')"
    and "\<forall>j. map_of (mem_pool_map bm') j = None \<longleftrightarrow> j \<noteq> i \<and> map_of (mem_pool_map bm) j = None"
proof -
  obtain t' where t': "op_set_page_status T (buffer_page_tracker bm) bpc True = Ret t'" "ok t'"
    "pages t' = (pages (buffer_page_tracker bm))[unat bpc := True]"
    using set_law [OF assms] by blast
  let ?mp = "if map_of (mem_pool_map bm) i = None then AList.update i [] (mem_pool_map bm)
    else mem_pool_map bm"
  let ?bm = "\<lparr>mem_pool_map = AList.update i (AList.update cur bpc (map_at ?mp i)) ?mp,
    buffer_page_tracker = t'\<rparr>"
  have run: "add_page_mem_pool_map T i cur bpc bm = (Ret (), ?bm)"
    using t'(1) by (simp add: add_page_mem_pool_map_def bindc_def)
  have "resident ?bm j cur' = (if j = i \<and> cur' = cur then Some bpc else resident bm j cur')" for j cur'
    by (auto simp: resident_def update_conv' map_at_def split: option.split)
  moreover have "map_of (mem_pool_map ?bm) j = None \<longleftrightarrow> j \<noteq> i \<and> map_of (mem_pool_map bm) j = None" for j
    by (auto simp: update_conv')
  ultimately show thesis using run t' by (intro that [of ?bm]) simp_all
qed

lemma pool_ok_add:
  assumes inv: "pool_ok ok pages bm" and range: "unat bpc < length (pages (buffer_page_tracker bm))"
    and free: "\<not> pages (buffer_page_tracker bm) ! unat bpc"
    and run: "add_page_mem_pool_map T i cur bpc bm = (Ret (), bm')"
  shows "pool_ok ok pages bm'"
proof -
  have ok: "ok (buffer_page_tracker bm)" using inv by (simp add: pool_ok_def)
  from ok range obtain bm1 where bm1: "add_page_mem_pool_map T i cur bpc bm = (Ret (), bm1)"
      "ok (buffer_page_tracker bm1)"
      "pages (buffer_page_tracker bm1) = (pages (buffer_page_tracker bm))[unat bpc := True]"
      "\<forall>j cur'. resident bm1 j cur' = (if j = i \<and> cur' = cur then Some bpc else resident bm j cur')"
      "\<forall>j. map_of (mem_pool_map bm1) j = None \<longleftrightarrow> j \<noteq> i \<and> map_of (mem_pool_map bm) j = None"
    by (rule add_page_run [where i = i and cur = cur])
  have "resident bm j cur' \<noteq> Some bpc" for j cur' using inv free by (auto simp: pool_ok_def)
  then show ?thesis using bm1 run inv range
    by (auto simp: pool_ok_def nth_list_update split: if_splits)
qed

end

end
