(* ===== verification/Buffer_Properties.thy ===== *)
theory Buffer_Properties
  imports Buffer_Manager
begin

text \<open>
  The properties of the buffer manager's parts: the page tracker, the map of resident pages
  and the access to a page's bytes.
\<close>

section \<open>The page tracker\<close>

text \<open>
  C16. A new tracker of a number of pages that is a multiple of 8 hands out every page of the pool, each
  once: taking the next free page and marking it, as many times as there are pages, succeeds and gives
  pairwise different pages in range; the next request then throws \<open>bad_optional_access\<close>, not a
  \<open>BufferManagerError\<close>.
\<close>

theorem tracker_hands_out_pages:
  assumes "8 dvd unat n" and "unat n \<le> INT_MAX"
  shows "\<exists>t cs t'. bitmap_tracker_new n = Ret t \<and> take_pages bitmap_tracker_ops (unat n) t = Ret (cs, t')
    \<and> distinct cs \<and> unat ` set cs = {..<unat n} \<and> get_next_free_page t' = Throw Bad_Optional_Access"
proof -
  obtain t where t: "bitmap_tracker_new n = Ret t" "wf_tracker t" "statuses t = replicate (unat n) False"
    using bitmap_tracker_new_ok [OF assms] by blast
  have count: "count_list (replicate k False) False = k" for k by (induction k) simp_all
  have "unat n \<le> count_list (statuses t) False" using t(3) count by simp
  from bt.take_pages_ok [OF t(2) this] obtain cs t' where
    1: "take_pages bitmap_tracker_ops (unat n) t = Ret (cs, t')" "wf_tracker t'"
    "length cs = unat n" "distinct cs" "\<forall>c \<in> set cs. unat c < unat n" "length (statuses t') = unat n"
    "\<forall>i < unat n. statuses t' ! i \<longleftrightarrow> i \<in> unat ` set cs"
    by (auto simp: t(3))
  have "card (unat ` set cs) = unat n"
    using 1(3,4) by (simp add: card_image inj_on_def distinct_card word_unat_eq_iff)
  then have all: "unat ` set cs = {..<unat n}"
    using 1(5) by (intro card_subset_eq) auto
  have "False \<notin> set (statuses t')"
    using 1(6,7) by (auto simp: in_set_conv_nth all)
  then have "get_next_free_page t' = Throw Bad_Optional_Access"
    using bt.next_full [OF 1(2)] by (simp add: bitmap_tracker_ops_def)
  then show ?thesis using t(1) 1(1,4) all by blast
qed

theorem tracker_hands_out_pages_witness:
  "\<exists>t cs t'. bitmap_tracker_new 16 = Ret t \<and> take_pages bitmap_tracker_ops 16 t = Ret (cs, t')
    \<and> unat ` set cs = {..<16}"
  using tracker_hands_out_pages [of 16] by auto

section \<open>The map of resident pages\<close>

text \<open>
  C30. Looking up after an insertion: \<open>add_page_mem_pool_map\<close> with a page in range returns, the
  disk page is then found in that buffer page, and every other disk page is found, or not found,
  as before; on a disk that was unknown the error is now that of the cursor.
\<close>

theorem pool_map_lookup:
  assumes "wf_tracker (buffer_page_tracker bm)" and "unat c < length (statuses (buffer_page_tracker bm))"
  shows "\<exists>bm'. add_page_mem_pool_map bitmap_tracker_ops i cur c bm = (Ret (), bm')
    \<and> get_page_mem_pool_map j cur' bm' =
      (if j = i \<and> cur' = cur then Ret c
       else if j = i \<and> fst (get_page_mem_pool_map j cur' bm) = Throw (BufferManagerError BM_DISK_NOT_FOUND)
         then Throw (BufferManagerError DISK_PAGE_CURSOR_NOT_FOUND)
       else fst (get_page_mem_pool_map j cur' bm), bm')"
proof -
  from assms obtain bm' where 1: "add_page_mem_pool_map bitmap_tracker_ops i cur c bm = (Ret (), bm')"
    "\<forall>j cur'. resident bm' j cur' = (if j = i \<and> cur' = cur then Some c else resident bm j cur')"
    "\<forall>j. map_of (mem_pool_map bm') j = None \<longleftrightarrow> j \<noteq> i \<and> map_of (mem_pool_map bm) j = None"
    by (rule bt.add_page_run [where i = i and cur = cur])
  have "get_page_mem_pool_map j cur' bm' =
      (if j = i \<and> cur' = cur then Ret c
       else if j = i \<and> fst (get_page_mem_pool_map j cur' bm) = Throw (BufferManagerError BM_DISK_NOT_FOUND)
         then Throw (BufferManagerError DISK_PAGE_CURSOR_NOT_FOUND)
       else fst (get_page_mem_pool_map j cur' bm), bm')"
    using 1(2,3) by (auto simp: get_page_eq resident_def split: option.splits)
  then show ?thesis using 1(1) by blast
qed

definition small_pool :: "bitmap_tracker buffer_manager" where
  \<comment> \<open>eight free pages\<close>
  "small_pool = buffer_manager_new
     \<lparr>num_pages = 8, tracker_bitmap = \<lparr>num_bits = 8, num_bytes = 1, bitmap_mem = [0]\<rparr>\<rparr>"

lemma small_pool_ok:
  "wf_tracker (buffer_page_tracker small_pool)" "length (statuses (buffer_page_tracker small_pool)) = 8"
  by (simp_all add: small_pool_def buffer_manager_new_def wf_tracker_def wf_bitmap_def statuses_def)

theorem pool_map_lookup_witness:
  "\<exists>bm. add_page_mem_pool_map bitmap_tracker_ops 1 2 5 small_pool = (Ret (), bm)
    \<and> get_page_mem_pool_map 1 2 bm = (Ret 5, bm)"
  using pool_map_lookup [OF small_pool_ok(1), of 5 1 2 1 2] small_pool_ok(2) by simp

text \<open>The states of a pool: a new one, and pages loaded into the next free page of the pool.\<close>

inductive pool_run :: "uint \<Rightarrow> bitmap_tracker buffer_manager \<Rightarrow> bool" for n where
  pool_start: "bitmap_tracker_new n = Ret t \<Longrightarrow> pool_run n (buffer_manager_new t)"
| pool_load: "pool_run n bm \<Longrightarrow> get_next_free_page (buffer_page_tracker bm) = Ret c \<Longrightarrow>
    add_page_mem_pool_map bitmap_tracker_ops i cur c bm = (Ret (), bm') \<Longrightarrow> pool_run n bm'"

text \<open>
  C15. The pool's invariant, for a number of pages that is a multiple of 8: in every state reached by
  loading disk pages into the next free page, each resident disk page is in a page of the pool that is
  marked as taken, and no two disk pages are in the same one.
\<close>

theorem pool_invariant:
  assumes "pool_run n bm" and "8 dvd unat n" and "unat n \<le> INT_MAX"
  shows "pool_ok wf_tracker statuses bm"
  using assms
proof (induction rule: pool_run.induct)
  case (pool_start t)
  then obtain t' where "bitmap_tracker_new n = Ret t'" "wf_tracker t'" using bitmap_tracker_new_ok by blast
  with pool_start have "wf_tracker t" by simp
  then show ?case by (simp add: pool_ok_def buffer_manager_new_def resident_def)
next
  case (pool_load bm c i cur bm')
  then have inv: "pool_ok wf_tracker statuses bm" by blast
  then have wf: "wf_tracker (buffer_page_tracker bm)" by (simp add: pool_ok_def)
  have "op_get_next_free_page bitmap_tracker_ops (buffer_page_tracker bm) = Ret c"
    using pool_load.hyps(2) by (simp add: bitmap_tracker_ops_def)
  note free = bt.next_free(1,2) [OF wf this]
  show ?case using inv free pool_load.hyps(3) by (rule bt.pool_ok_add)
qed

theorem pool_invariant_witness:
  "\<exists>bm. pool_run 8 bm \<and> resident bm 3 4 = Some 0 \<and> pool_ok wf_tracker statuses bm"
proof -
  obtain t where t: "bitmap_tracker_new 8 = Ret t" "wf_tracker t" "statuses t = replicate 8 False"
    using bitmap_tracker_new_ok [of 8] by auto
  then have next0: "get_next_free_page t = Ret 0"
    using bt.next_law [of t] by (simp add: bitmap_tracker_ops_def first_False_def)
  have "wf_tracker (buffer_page_tracker (buffer_manager_new t))"
    "unat (0 :: uint) < length (statuses (buffer_page_tracker (buffer_manager_new t)))"
    using t by (simp_all add: buffer_manager_new_def)
  then obtain bm where bm: "add_page_mem_pool_map bitmap_tracker_ops 3 4 0 (buffer_manager_new t) = (Ret (), bm)"
    "\<forall>j cur'. resident bm j cur' = (if j = 3 \<and> cur' = 4 then Some 0 else resident (buffer_manager_new t) j cur')"
    by (rule bt.add_page_run [where i = 3 and cur = 4])
  have "pool_run 8 bm"
    using pool_load [OF pool_start [OF t(1)] _ bm(1)] next0 by (simp add: buffer_manager_new_def)
  then show ?thesis using pool_invariant [of 8 bm] bm(2) by auto
qed

section \<open>The bytes of a page\<close>


definition small_page :: buffer_page where
  "small_page = buffer_page_new [0, 0, 0, 0, 0, 0, 0, 0] 8 1 2 3 0 False"



text \<open>Elements written by \<open>memcpy\<close> are read back through \<open>to_ptr\<close>.\<close>

corollary memcpy_read_back:
  assumes "page_ok pg" and "\<forall>v \<in> set elements. length v = sz" and "0 < sz" and "sz < 4294967296"
    and "unat num_elements = length elements" and "length elements \<le> INT_MAX"
    and "unat offset + sz * length elements \<le> unat (bp_page_size pg)" and "i < length elements"
  shows "\<exists>pg'. memcpy sz pg offset elements num_elements = Ret pg'
    \<and> obind (to_ptr pg' (of_nat (unat offset + i * sz))) (\<lambda>p. load_ptr pg' p sz) = Ret (elements ! i)"
proof -
  let ?pg = "pg\<lparr>bp_bytes := overwrite (unat offset) (concat elements) (bp_bytes pg)\<rparr>"
  have "sz * Suc i \<le> sz * length elements" using assms(8) by (intro mult_le_mono2) simp
  then have room: "unat offset + i * sz + sz \<le> unat (bp_page_size pg)"
    using assms(7) by (simp add: algebra_simps)
  have off: "unat (of_nat (unat offset + i * sz) :: uint) = unat offset + i * sz"
    using room unat_uint_less [of "bp_page_size pg"] by (intro unat_of_nat_uint) linarith
  have len: "length (concat elements) = length elements * sz" using assms(2) by (rule concat_length)
  have fits: "unat offset + length (concat elements) \<le> length (bp_bytes pg)"
    using assms(1,7) len by (simp add: page_ok_def mult.commute)
  have ok: "page_ok ?pg" using assms(1) fits by (simp add: page_ok_def)
  have "i * sz + sz \<le> length (concat elements)"
    using \<open>sz * Suc i \<le> _\<close> len by (simp add: algebra_simps)
  with fits have "take sz (drop (unat offset + i * sz) (overwrite (unat offset) (concat elements) (bp_bytes pg))) =
      take sz (drop (i * sz) (concat elements))" by (rule take_drop_overwrite_inner)
  then have "load_ptr ?pg (unat offset + i * sz) sz = Ret (elements ! i)"
    using load_in_page [OF ok, of "unat offset + i * sz" sz] room nth_concat_block [OF assms(2,8)] by simp
  then show ?thesis
    using memcpy_eq [OF assms(1-7)] room assms(3) ok off by (simp add: to_ptr_eq page_ok_def)
qed

text \<open>
  The check of \<open>to_ptr\<close> is for the first byte only: an object that starts in the page and ends
  behind it passes the check, and the access through the pointer is out of bounds.
\<close>

theorem to_ptr_overrun:
  assumes "initialized pg" and "length (bp_bytes pg) = unat (bp_page_size pg)"
    and "unat offset < unat (bp_page_size pg)" and "unat (bp_page_size pg) < unat offset + sz"
  shows "obind (to_ptr pg offset) (\<lambda>p. load_ptr pg p sz) = Fault (Undefined Out_Of_Bounds)"
  using assms by (simp add: to_ptr_eq load_ptr_def mem_read_def)

theorem to_ptr_overrun_witness:
  "obind (to_ptr small_page 6) (\<lambda>p. load_ptr small_page p 4) = Fault (Undefined Out_Of_Bounds)"
  by (rule to_ptr_overrun) (simp_all add: small_page_def buffer_page_new_def)

end
