(* ===== verification/Column_Type.thy ===== *)
theory Column_Type
  imports Errors
begin

text \<open>
  \<open>organizers/src/types/\<close>, \<open>tuple.h\<close> and \<open>tuple.cpp\<close>: the column types and the tuples made
  of them.  A cell is written as the object representation of its value; alignment is not
  modelled (the target machines read and write unaligned words).  \<open>size\<close> is declared to
  return \<open>bool\<close>, so the size of every cell is 1, and \<open>Tuple::serialize\<close> advances by one
  byte per cell whatever the cell's width.
\<close>

section \<open>The column types\<close>

datatype TypeList = BOOL | UINT8_T | UINT16_T | UINT32_T | ARRAY

fun get_type_name :: "TypeList \<Rightarrow> string" where
  "get_type_name BOOL = ''bool''"
| "get_type_name UINT8_T = ''uint8_t''"
| "get_type_name UINT16_T = ''uint16_t''"
| "get_type_name UINT32_T = ''uint32_t''"
| "get_type_name ARRAY = ''array''"

text \<open>
  Each class \<open>Uint8TType\<close>, \<open>Uint16TType\<close>, \<open>Uint32TType\<close> has one member, \<open>val\<close>, and stands for its
  value; its methods come first, then the objects of the abstract class \<open>Type\<close>, on which the
  virtual calls dispatch.
\<close>

type_synonym uint8_t_type = "8 word"
type_synonym uint16_t_type = "16 word"
type_synonym uint32_t_type = "32 word"

datatype cell = Uint8TType uint8_t_type | Uint16TType uint16_t_type | Uint32TType uint32_t_type

subsection \<open>\<open>Uint8TType\<close>\<close>

definition uint8_get_type :: "uint8_t_type \<Rightarrow> TypeList" where
  "uint8_get_type v = UINT8_T"

definition uint8_serialize :: "uint8_t_type \<Rightarrow> byte list \<Rightarrow> nat \<Rightarrow> (exn, byte list) outcome" where
  \<comment> \<open>\<open>*static_cast<uint8_t*>(dest) = val\<close>, the destination at offset \<open>off\<close> of the memory\<close>
  "uint8_serialize v mem off = mem_write mem off (le_bytes 1 v)"

definition read_uint8 :: "byte list \<Rightarrow> (exn, cell) outcome" where
  \<comment> \<open>\<open>new Uint8TType(*static_cast<uint8_t*>(src))\<close>\<close>
  "read_uint8 src = obind (mem_read src 0 1) (\<lambda>bs. Ret (Uint8TType (le_word bs)))"

definition uint8_size :: "uint8_t_type \<Rightarrow> bool" where
  \<comment> \<open>\<open>sizeof(uint8_t)\<close>, converted to \<open>bool\<close>\<close>
  "uint8_size v = ((1 :: nat) \<noteq> 0)"

subsection \<open>\<open>Uint16TType\<close>\<close>

definition uint16_get_type :: "uint16_t_type \<Rightarrow> TypeList" where
  "uint16_get_type v = UINT16_T"

definition uint16_serialize :: "uint16_t_type \<Rightarrow> byte list \<Rightarrow> nat \<Rightarrow> (exn, byte list) outcome" where
  "uint16_serialize v mem off = mem_write mem off (le_bytes 2 v)"

definition read_uint16 :: "byte list \<Rightarrow> (exn, cell) outcome" where
  "read_uint16 src = obind (mem_read src 0 2) (\<lambda>bs. Ret (Uint16TType (le_word bs)))"

definition uint16_size :: "uint16_t_type \<Rightarrow> bool" where
  "uint16_size v = ((2 :: nat) \<noteq> 0)"

subsection \<open>\<open>Uint32TType\<close>\<close>

definition uint32_get_type :: "uint32_t_type \<Rightarrow> TypeList" where
  "uint32_get_type v = UINT32_T"

definition uint32_serialize :: "uint32_t_type \<Rightarrow> byte list \<Rightarrow> nat \<Rightarrow> (exn, byte list) outcome" where
  "uint32_serialize v mem off = mem_write mem off (le_bytes 4 v)"

definition read_uint32 :: "byte list \<Rightarrow> (exn, cell) outcome" where
  "read_uint32 src = obind (mem_read src 0 4) (\<lambda>bs. Ret (Uint32TType (le_word bs)))"

definition uint32_size :: "uint32_t_type \<Rightarrow> bool" where
  "uint32_size v = ((4 :: nat) \<noteq> 0)"

subsection \<open>\<open>Type\<close>\<close>

fun get_type :: "cell \<Rightarrow> TypeList" where
  "get_type (Uint8TType v) = uint8_get_type v"
| "get_type (Uint16TType v) = uint16_get_type v"
| "get_type (Uint32TType v) = uint32_get_type v"

fun cell_serialize :: "cell \<Rightarrow> byte list \<Rightarrow> nat \<Rightarrow> (exn, byte list) outcome" where
  "cell_serialize (Uint8TType v) mem off = uint8_serialize v mem off"
| "cell_serialize (Uint16TType v) mem off = uint16_serialize v mem off"
| "cell_serialize (Uint32TType v) mem off = uint32_serialize v mem off"

fun cell_size :: "cell \<Rightarrow> bool" where
  "cell_size (Uint8TType v) = uint8_size v"
| "cell_size (Uint16TType v) = uint16_size v"
| "cell_size (Uint32TType v) = uint32_size v"

fun cell_deserialize :: "cell \<Rightarrow> byte list \<Rightarrow> (exn, cell) outcome" where
  \<comment> \<open>the virtual \<open>deserialize\<close>, which makes a new object of the receiver's class\<close>
  "cell_deserialize (Uint8TType v) src = read_uint8 src"
| "cell_deserialize (Uint16TType v) src = read_uint16 src"
| "cell_deserialize (Uint32TType v) src = read_uint32 src"

fun get_instance :: "TypeList \<Rightarrow> byte list \<Rightarrow> (exn, cell) outcome" where
  "get_instance UINT8_T param = read_uint8 param"
| "get_instance UINT16_T param = read_uint16 param"
| "get_instance UINT32_T param = read_uint32 param"
| "get_instance _ param = Fault Assertion_Failed"

lemmas uint_type_defs [simp] = uint8_get_type_def uint16_get_type_def uint32_get_type_def
  uint8_size_def uint16_size_def uint32_size_def

fun cell_bytes :: "cell \<Rightarrow> byte list" where
  \<comment> \<open>the object representation of \<open>val\<close>\<close>
  "cell_bytes (Uint8TType v) = le_bytes 1 v"
| "cell_bytes (Uint16TType v) = le_bytes 2 v"
| "cell_bytes (Uint32TType v) = le_bytes 4 v"

lemma cell_serialize_bytes: "cell_serialize c mem off = mem_write mem off (cell_bytes c)"
  by (cases c) (simp_all add: uint8_serialize_def uint16_serialize_def uint32_serialize_def)

lemma get_type_name_inj: "get_type_name t = get_type_name u \<Longrightarrow> t = u"
  by (cases t; cases u) simp_all

lemma cell_round_trip: "get_instance (get_type c) (cell_bytes c @ rest) = Ret c"
  by (cases c) (simp_all add: read_uint8_def read_uint16_def read_uint32_def mem_read_def le_word_le_bytes)

lemma cell_deserialize_get_instance: "cell_deserialize c src = get_instance (get_type c) src"
  by (cases c) simp_all

lemma cell_size_True [simp]: "cell_size c"
  by (cases c) simp_all

lemma get_instance_short:
  "length src < length (cell_bytes c) \<Longrightarrow> get_instance (get_type c) src = Fault (Undefined Out_Of_Bounds)"
  by (cases c) (simp_all add: read_uint8_def read_uint16_def read_uint32_def mem_read_def)

section \<open>Tuples\<close>

type_synonym tuple_cols = "TypeList list"
type_synonym tuple_vals = "cell list"
type_synonym tuple = tuple_vals   \<comment> \<open>its one member, \<open>cells\<close>\<close>

definition tuple_new :: "tuple_vals \<Rightarrow> tuple" where
  "tuple_new cells = cells"

definition tuple_size :: "tuple \<Rightarrow> uint" where
  \<comment> \<open>\<open>size += cell->size()\<close>\<close>
  "tuple_size cells = foldl (\<lambda>size c. size + (if cell_size c then 1 else 0)) 0 cells"

fun serialize_from :: "tuple \<Rightarrow> byte list \<Rightarrow> nat \<Rightarrow> (exn, byte list) outcome" where
  \<comment> \<open>the loop of \<open>serialize\<close>, with \<open>cursor\<close> as an offset of \<open>dest\<close>\<close>
  "serialize_from [] mem cursor = Ret mem"
| "serialize_from (c # cells) mem cursor =
     obind (cell_serialize c mem cursor) (\<lambda>mem'.
       serialize_from cells mem' (cursor + (if cell_size c then 1 else 0)))"

definition tuple_serialize :: "tuple \<Rightarrow> byte list \<Rightarrow> (exn, byte list) outcome" where
  "tuple_serialize cells dest = serialize_from cells dest 0"

definition tuple_deserailize :: "tuple \<Rightarrow> byte list \<Rightarrow> (exn, tuple) outcome" where
  \<comment> \<open>an empty body\<close>
  "tuple_deserailize cells src = Ret cells"

definition num_cells :: "tuple \<Rightarrow> uint" where
  "num_cells cells = of_nat (length cells)"

definition get_cell_type :: "tuple \<Rightarrow> int32 \<Rightarrow> (exn, string) outcome" where
  \<comment> \<open>\<open>cells[index]\<close> is unchecked; a negative index becomes a huge one\<close>
  "get_cell_type cells index =
     (if 0 \<le> sint index \<and> nat (sint index) < length cells
      then Ret (get_type_name (get_type (cells ! nat (sint index))))
      else Fault (Undefined Out_Of_Bounds))"

definition low_byte :: "cell \<Rightarrow> byte" where
  "low_byte c = hd (cell_bytes c)"

lemma le_bytes_1: "le_bytes 1 v = [ucast v]" "le_bytes (Suc 0) v = [ucast v]"
  by (simp_all add: le_bytes_def)

lemma length_cell_bytes: "1 \<le> length (cell_bytes c)" "length (cell_bytes c) \<le> 4"
  by (cases c; simp)+

lemma tuple_size_eq: "tuple_size cells = of_nat (length cells)"
proof -
  have "foldl (\<lambda>size c. size + (if cell_size c then 1 else 0)) a cells = a + of_nat (length cells)"
    for a :: uint
    by (induction cells arbitrary: a) (simp_all add: add.assoc add.commute add.left_commute)
  then show ?thesis by (simp add: tuple_size_def)
qed

lemma serialize_from_eq:
  assumes "cursor + length cells + 3 \<le> length mem"
  shows "\<exists>mem'. serialize_from cells mem cursor = Ret mem' \<and> length mem' = length mem
    \<and> take cursor mem' = take cursor mem
    \<and> (\<forall>i < length cells. mem' ! (cursor + i) = low_byte (cells ! i))
    \<and> drop (cursor + length cells + 3) mem' = drop (cursor + length cells + 3) mem"
  using assms
proof (induction cells arbitrary: mem cursor)
  case Nil
  then show ?case by simp
next
  case (Cons c cells)
  let ?m = "overwrite cursor (cell_bytes c) mem"
  note w = length_cell_bytes [of c]
  have fit: "cursor + length (cell_bytes c) \<le> length mem" using Cons.prems w by simp
  have "Suc cursor + length cells + 3 \<le> length ?m" using Cons.prems fit by simp
  from Cons.IH [OF this] obtain mem' where 1: "serialize_from cells ?m (Suc cursor) = Ret mem'"
    "length mem' = length ?m" "take (Suc cursor) mem' = take (Suc cursor) ?m"
    "\<forall>i < length cells. mem' ! (Suc cursor + i) = low_byte (cells ! i)"
    "drop (Suc cursor + length cells + 3) mem' = drop (Suc cursor + length cells + 3) ?m" by blast
  have "mem' ! cursor = ?m ! cursor"
    using arg_cong [OF 1(3), of "\<lambda>xs. xs ! cursor"] by simp
  then have first: "mem' ! cursor = low_byte c"
    using fit w by (simp add: nth_overwrite low_byte_def hd_conv_nth length_greater_0_conv [symmetric] del: length_greater_0_conv)
  have "take cursor mem' = take cursor ?m"
    using arg_cong [OF 1(3), of "take cursor"] by (simp add: min_def)
  then have before: "take cursor mem' = take cursor mem" using fit by (simp add: overwrite_def)
  have "\<forall>i < length (c # cells). mem' ! (cursor + i) = low_byte ((c # cells) ! i)"
    using first 1(4) by (auto simp: less_Suc_eq_0_disj)
  moreover have "drop (cursor + length (c # cells) + 3) mem' = drop (cursor + length (c # cells) + 3) mem"
    using 1(5) fit w Cons.prems by (simp add: overwrite_def ac_simps)
  ultimately show ?case using 1(1,2) before fit
    by (simp add: cell_serialize_bytes mem_write_def)
qed

text \<open>Tuples of single-byte columns are written faithfully, and only they need no slack.\<close>

definition narrow :: "tuple \<Rightarrow> bool" where
  "narrow cells \<longleftrightarrow> (\<forall>c \<in> set cells. get_type c = UINT8_T)"

lemma cell_bytes_narrow: "get_type c = UINT8_T \<Longrightarrow> cell_bytes c = [low_byte c]"
  by (cases c) (simp_all add: low_byte_def le_bytes_1)

lemma serialize_narrow:
  assumes "narrow cells" and "cursor + length cells \<le> length mem"
  shows "serialize_from cells mem cursor = Ret (overwrite cursor (map low_byte cells) mem)"
  using assms
proof (induction cells arbitrary: mem cursor)
  case (Cons c cells)
  have c: "cell_bytes c = [low_byte c]" using Cons.prems by (simp add: narrow_def cell_bytes_narrow)
  have "serialize_from cells (overwrite cursor [low_byte c] mem) (Suc cursor) =
      Ret (overwrite (Suc cursor) (map low_byte cells) (overwrite cursor [low_byte c] mem))"
    using Cons by (intro Cons.IH) (simp_all add: narrow_def)
  moreover have "overwrite (Suc cursor) (map low_byte cells) (overwrite cursor [low_byte c] mem) =
      overwrite cursor (low_byte c # map low_byte cells) mem"
    using overwrite_overwrite_adjacent [of cursor "[low_byte c]" "map low_byte cells" mem] Cons.prems by simp
  ultimately show ?case using Cons.prems c by (simp add: cell_serialize_bytes mem_write_def)
qed simp

fun read_cells :: "TypeList list \<Rightarrow> byte list \<Rightarrow> (exn, cell list) outcome" where
  \<comment> \<open>a reader for what \<open>serialize\<close> writes: each column at the next byte\<close>
  "read_cells [] src = Ret []"
| "read_cells (t # ts) src =
     obind (get_instance t src) (\<lambda>c. obind (read_cells ts (drop 1 src)) (\<lambda>cs. Ret (c # cs)))"

lemma read_cells_narrow:
  "narrow cells \<Longrightarrow> read_cells (map get_type cells) (map low_byte cells @ rest) = Ret cells"
proof (induction cells)
  case (Cons c cells)
  have "get_instance (get_type c) (low_byte c # map low_byte cells @ rest) = Ret c"
    using cell_round_trip [of c] cell_bytes_narrow [of c] Cons.prems by (simp add: narrow_def)
  with Cons show ?case by (simp add: narrow_def)
qed simp

text \<open>Wider cells lose the bytes that the cells after them overwrite.\<close>

lemma serialize_from_append:
  "serialize_from (xs @ ys) mem cursor =
    obind (serialize_from xs mem cursor) (\<lambda>m. serialize_from ys m (cursor + length xs))"
proof (induction xs arbitrary: mem cursor)
  case (Cons c xs)
  then show ?case by (cases "cell_serialize c mem cursor") (simp_all add: add.commute)
qed simp

lemma serialize_from_covers:
  assumes "length m1 = length m2"
    and "\<forall>i < length m1. i < cursor \<or> cursor + length cells \<le> i \<longrightarrow> m1 ! i = m2 ! i"
  shows "serialize_from cells m1 cursor = serialize_from cells m2 cursor"
  using assms
proof (induction cells arbitrary: m1 m2 cursor)
  case Nil
  then have "m1 = m2" by (intro nth_equalityI) auto
  then show ?case by simp
next
  case (Cons c cells)
  show ?case
  proof (cases "cursor + length (cell_bytes c) \<le> length m1")
    case True
    let ?o = "overwrite cursor (cell_bytes c)"
    have "\<forall>i < length (?o m1). i < Suc cursor \<or> Suc cursor + length cells \<le> i \<longrightarrow> ?o m1 ! i = ?o m2 ! i"
      using Cons.prems True length_cell_bytes(1) [of c] by (auto simp: nth_overwrite less_Suc_eq)
    then have "serialize_from cells (?o m1) (Suc cursor) = serialize_from cells (?o m2) (Suc cursor)"
      using Cons.prems True by (intro Cons.IH) simp_all
    then show ?thesis using True Cons.prems by (simp add: cell_serialize_bytes mem_write_def)
  next
    case False
    then show ?thesis using Cons.prems by (simp add: cell_serialize_bytes mem_write_def)
  qed
qed

end
