(* ===== verification/Heap.thy ===== *)
theory Heap
  imports Buffer_Manager Column_Type Disk_Ids
begin

text \<open>
  \<open>organizers/src/heap.{h,cpp}\<close>, \<open>organizer.h\<close>, \<open>constants.h\<close>: a heap file of tuples.  The heap
  calls the disk manager and the buffer manager through pointers, so both are a parameter
  \<open>E\<close>: their methods, and the memory of the pages that \<open>pin\<close> returns references to (frame
  numbers here).  \<open>lewsql_env\<close> puts the program's own managers there, \<open>resident_env\<close> a pool
  in which every page of the disk is in memory, to run the code that \<open>pin\<close> stops today.
  The walk along the full list has no bound in the source; it takes fuel here, and \<open>None\<close>
  is the answer of a walk still under way.
\<close>

section \<open>\<open>Organizer\<close>\<close>

definition organizer_get_next_tuple :: "(exn, unit) outcome" where
  "organizer_get_next_tuple = Throw (OrganizerError MethodNotImplemented)"

definition organizer_insert_tuple :: "tuple \<Rightarrow> (exn, unit) outcome" where
  "organizer_insert_tuple t = Throw (OrganizerError MethodNotImplemented)"

definition organizer_delete_tuple :: "(exn, unit) outcome" where
  "organizer_delete_tuple = Throw (OrganizerError MethodNotImplemented)"

section \<open>The class\<close>

record 'e heap_env =
  dm_create :: "disk_name \<Rightarrow> ('e, (disk_id, DiskManagerErrorCode) result) cpp"
  dm_load :: "disk_name \<Rightarrow> ('e, (disk_id, DiskManagerErrorCode) result) cpp"
  dm_extend :: "disk_id \<Rightarrow> ('e, (disk_page_cursor, DiskManagerErrorCode) result) cpp"
  dm_unload :: "disk_id \<Rightarrow> ('e, (unit, DiskManagerErrorCode) result) cpp"
  bm_pin :: "disk_id \<Rightarrow> disk_page_cursor \<Rightarrow> ('e, nat) cpp"
  bm_unpin :: "disk_id \<Rightarrow> disk_page_cursor \<Rightarrow> ('e, unit) cpp"
  bm_set_dirty :: "disk_id \<Rightarrow> disk_page_cursor \<Rightarrow> ('e, unit) cpp"
  frame_get :: "nat \<Rightarrow> 'e \<Rightarrow> buffer_page"
  frame_set :: "nat \<Rightarrow> buffer_page \<Rightarrow> 'e \<Rightarrow> 'e"

record heap =
  m_table_name :: string
  m_disk_id :: disk_id
  heap_cols :: tuple_cols
  heap_page_size :: uint

definition HEAP_PAGE_START_STAMP :: uint where
  "HEAP_PAGE_START_STAMP = 1"

definition HEAP_DISK_SUFFIX :: string where
  "HEAP_DISK_SUFFIX = ''.heap''"

definition ROOT_PAGE :: int32 where
  "ROOT_PAGE = 0"

definition FIRST_PAGE_HEAP_PAGE_STAMP_OFFSET :: uint where
  "FIRST_PAGE_HEAP_PAGE_STAMP_OFFSET = 0"

definition FIRST_PAGE_FREE_LIST_OFFSET :: uint where
  "FIRST_PAGE_FREE_LIST_OFFSET = 4"

definition FIRST_PAGE_FULL_LIST_OFFSET :: uint where
  "FIRST_PAGE_FULL_LIST_OFFSET = 4 + 4"

definition FULL_LIST_OFFSET :: uint where
  "FULL_LIST_OFFSET = 4"

definition BITMAP_OFFSET :: nat where
  "BITMAP_OFFSET = 4 + 4"

definition FIRST_TUPLE_OFFSET :: "uint \<Rightarrow> nat" where
  "FIRST_TUPLE_OFFSET bitmap_size = 4 + 4 + unat bitmap_size * 1"

lemmas heap_offsets = ROOT_PAGE_def FIRST_PAGE_HEAP_PAGE_STAMP_OFFSET_def
  FIRST_PAGE_FREE_LIST_OFFSET_def FIRST_PAGE_FULL_LIST_OFFSET_def FULL_LIST_OFFSET_def
  BITMAP_OFFSET_def FIRST_TUPLE_OFFSET_def

definition get_word :: "'e heap_env \<Rightarrow> nat \<Rightarrow> uint \<Rightarrow> ('e, 32 word) cpp" where
  \<comment> \<open>\<open>page.to_ptr<int32_t>(offset)[0]\<close>\<close>
  "get_word E r offset =
     bindc (getc (frame_get E r)) (\<lambda>pg.
     bindc (liftc (to_ptr pg offset)) (\<lambda>p.
     bindc (liftc (load_ptr pg p 4)) (\<lambda>bs. retc (le_word bs))))"

definition put_word :: "'e heap_env \<Rightarrow> nat \<Rightarrow> uint \<Rightarrow> 32 word \<Rightarrow> ('e, unit) cpp" where
  \<comment> \<open>\<open>page.to_ptr<int32_t>(offset)[0] = v\<close>\<close>
  "put_word E r offset v =
     bindc (getc (frame_get E r)) (\<lambda>pg.
     bindc (liftc (to_ptr pg offset)) (\<lambda>p.
     bindc (liftc (store_ptr pg p (le_bytes 4 v))) (\<lambda>pg'. modc (frame_set E r pg'))))"

definition heap_new :: "'e heap_env \<Rightarrow> string \<Rightarrow> TypeList list \<Rightarrow> uint \<Rightarrow> ('e, heap) cpp" where
  "heap_new E table_name cols ps =
     (let nm = table_name @ HEAP_DISK_SUFFIX in
      bindc (dm_create E nm) (\<lambda>created.
      bindc (case created of
               Inl e \<Rightarrow> bindc (dm_load E nm) (\<lambda>loaded. liftc (get_value dm_what loaded))
             | Inr i \<Rightarrow> retc i) (\<lambda>d.
      bindc (bm_pin E d ROOT_PAGE) (\<lambda>root.
      bindc (put_word E root FIRST_PAGE_HEAP_PAGE_STAMP_OFFSET HEAP_PAGE_START_STAMP) (\<lambda>_.
      bindc (put_word E root FIRST_PAGE_FREE_LIST_OFFSET (- 1)) (\<lambda>_.
      bindc (put_word E root FIRST_PAGE_FULL_LIST_OFFSET (- 1)) (\<lambda>_.
      bindc (bm_set_dirty E d ROOT_PAGE) (\<lambda>_.
      bindc (bm_unpin E d ROOT_PAGE) (\<lambda>_.
        retc \<lparr>m_table_name = nm, m_disk_id = d, heap_cols = cols, heap_page_size = ps\<rparr>)))))))))"

definition heap_destructor :: "'e heap_env \<Rightarrow> heap \<Rightarrow> ('e, unit) cpp" where
  "heap_destructor E h = noexcept (bindc (dm_unload E (m_disk_id h)) (\<lambda>_. retc ()))"

definition find_free_page :: "'e heap_env \<Rightarrow> heap \<Rightarrow> ('e, uint option) cpp" where
  "find_free_page E h =
     bindc (bm_pin E (m_disk_id h) ROOT_PAGE) (\<lambda>root.
     bindc (get_word E root FIRST_PAGE_FREE_LIST_OFFSET) (\<lambda>free_list.
     bindc (bm_unpin E (m_disk_id h) ROOT_PAGE) (\<lambda>_.
       if free_list = - 1 then retc None else retc (Some free_list))))"

fun full_list_end :: "'e heap_env \<Rightarrow> int32 \<Rightarrow> nat \<Rightarrow> int32 \<Rightarrow> ('e, (nat \<times> int32) option) cpp" where
  \<comment> \<open>the \<open>for(;;)\<close> of \<open>append_to_full_pages\<close>: the last page of the list and its cursor\<close>
  "full_list_end E d 0 cur_page_cursor = retc None"
| "full_list_end E d (Suc fuel) cur_page_cursor =
     bindc (bm_pin E d cur_page_cursor) (\<lambda>cur_page.
     bindc (get_word E cur_page FULL_LIST_OFFSET) (\<lambda>nxt.
       if nxt = - 1 then retc (Some (cur_page, cur_page_cursor))
       else bindc (get_word E cur_page FULL_LIST_OFFSET) (\<lambda>next_cur_page_cursor.
            bindc (bm_unpin E d cur_page_cursor) (\<lambda>_.
              full_list_end E d fuel next_cur_page_cursor))))"

definition append_at :: "'e heap_env \<Rightarrow> int32 \<Rightarrow> nat \<Rightarrow> int32 \<Rightarrow> uint \<Rightarrow> int32 \<Rightarrow> ('e, unit option) cpp" where
  \<comment> \<open>the end of \<open>append_to_full_pages\<close>\<close>
  "append_at E d cur_page cur_page_cursor full_list_offset page_cursor =
     bindc (put_word E cur_page full_list_offset page_cursor) (\<lambda>_.
     bindc (bm_set_dirty E d cur_page_cursor) (\<lambda>_.
     bindc (bm_unpin E d cur_page_cursor) (\<lambda>_. retc (Some ()))))"

definition append_to_full_pages :: "'e heap_env \<Rightarrow> nat \<Rightarrow> heap \<Rightarrow> int32 \<Rightarrow> ('e, unit option) cpp" where
  "append_to_full_pages E fuel h page_cursor =
     (let d = m_disk_id h in
      bindc (bm_pin E d ROOT_PAGE) (\<lambda>root.
      bindc (get_word E root FIRST_PAGE_FULL_LIST_OFFSET) (\<lambda>full.
        if full = - 1 then append_at E d root ROOT_PAGE FIRST_PAGE_FULL_LIST_OFFSET page_cursor
        else
          bindc (get_word E root FIRST_PAGE_FULL_LIST_OFFSET) (\<lambda>first.
          bindc (bm_unpin E d ROOT_PAGE) (\<lambda>_.
          bindc (full_list_end E d fuel first) (\<lambda>last.
            case last of
              None \<Rightarrow> retc None
            | Some (cur_page, cur_page_cursor) \<Rightarrow>
                append_at E d cur_page cur_page_cursor FULL_LIST_OFFSET page_cursor))))))"

definition choose_page :: "'e heap_env \<Rightarrow> heap \<Rightarrow> ('e, int32) cpp" where
  \<comment> \<open>the first part of \<open>insert_tuple\<close>: the disk id is stored as the head of the free list\<close>
  "choose_page E h =
     (let d = m_disk_id h in
      bindc (find_free_page E h) (\<lambda>free_page_opt.
        case free_page_opt of
          None \<Rightarrow>
            bindc (dm_extend E d) (\<lambda>r.
            bindc (liftc (get_value dm_what r)) (\<lambda>free_disk_page.
            bindc (bm_pin E d ROOT_PAGE) (\<lambda>root.
            bindc (put_word E root FIRST_PAGE_FREE_LIST_OFFSET d) (\<lambda>_.
            bindc (bm_set_dirty E d ROOT_PAGE) (\<lambda>_.
            bindc (bm_unpin E d ROOT_PAGE) (\<lambda>_. retc free_disk_page))))))
        | Some p \<Rightarrow> retc p))"

definition heap_bitmap_size :: "uint \<Rightarrow> uint" where
  \<comment> \<open>\<open>page_size - (sizeof(int32_t) + sizeof(int32_t)) + (sizeof(uint8_t) * 57)\<close> in \<open>size_t\<close>,
     converted to \<open>unsigned int\<close>\<close>
  "heap_bitmap_size ps = ucast ((ucast ps :: 64 word) - (4 + 4) + 1 * 57)"

definition claim_slot :: "'e heap_env \<Rightarrow> nat \<Rightarrow> uint \<Rightarrow> ('e, bitmap \<times> uint) cpp" where
  \<comment> \<open>the bitmap of the page, its first free bit, set and written back\<close>
  "claim_slot E free_page bitmap_size =
     bindc (liftc (bitmap_new bitmap_size)) (\<lambda>bm0.
     bindc (getc (frame_get E free_page)) (\<lambda>pg.
     bindc (liftc (deserialize bm0 (drop BITMAP_OFFSET (bp_bytes pg)))) (\<lambda>bm.
     bindc (liftc (get_num_free_bits bm)) (\<lambda>free.
     bindc (liftc (oassert (0 < free))) (\<lambda>_.
     bindc (liftc (get_first_free_bit bm)) (\<lambda>opt.
       case opt of
         None \<Rightarrow> liftc (Fault Assertion_Failed)
       | Some tuple_offset \<Rightarrow>
           bindc (liftc (set_bit_val bm tuple_offset True)) (\<lambda>bm'.
           bindc (liftc (serialize bm' (drop BITMAP_OFFSET (bp_bytes pg)))) (\<lambda>bs.
           bindc (modc (frame_set E free_page (pg\<lparr>bp_bytes := take BITMAP_OFFSET (bp_bytes pg) @ bs\<rparr>))) (\<lambda>_.
             retc (bm', tuple_offset))))))))))"

definition write_tuple :: "'e heap_env \<Rightarrow> nat \<Rightarrow> uint \<Rightarrow> tuple \<Rightarrow> ('e, unit) cpp" where
  \<comment> \<open>\<open>tuple.serialize(&free_page.bytes[off])\<close>\<close>
  "write_tuple E free_page off t =
     bindc (getc (frame_get E free_page)) (\<lambda>pg.
     bindc (liftc (if unat off \<le> length (bp_bytes pg) then tuple_serialize t (drop (unat off) (bp_bytes pg))
                   else Fault (Undefined Out_Of_Bounds))) (\<lambda>bs.
       modc (frame_set E free_page (pg\<lparr>bp_bytes := take (unat off) (bp_bytes pg) @ bs\<rparr>))))"

definition insert_tuple :: "'e heap_env \<Rightarrow> nat \<Rightarrow> heap \<Rightarrow> tuple \<Rightarrow> ('e, unit option) cpp" where
  "insert_tuple E fuel h t =
     (let d = m_disk_id h in
      bindc (choose_page E h) (\<lambda>free_disk_page.
      bindc (liftc (oassert (free_disk_page \<noteq> ROOT_PAGE))) (\<lambda>_.
      bindc (bm_pin E d free_disk_page) (\<lambda>free_page.
      bindc (claim_slot E free_page (heap_bitmap_size (heap_page_size h))) (\<lambda>(bm, tuple_offset).
      bindc (write_tuple E free_page
               (of_nat (FIRST_TUPLE_OFFSET (get_num_bytes bm)) + tuple_offset * tuple_size t) t) (\<lambda>_.
      bindc (liftc (get_num_free_bits bm)) (\<lambda>free.
      bindc (if free = 0 then append_to_full_pages E fuel h free_disk_page else retc (Some ())) (\<lambda>walked.
        case walked of
          None \<Rightarrow> retc None
        | Some _ \<Rightarrow>
            bindc (bm_set_dirty E d free_disk_page) (\<lambda>_.
            bindc (bm_unpin E d free_disk_page) (\<lambda>_. retc (Some ())))))))))))"

definition get_next_tuple :: "('e, unit) cpp" where
  "get_next_tuple = retc ()"

definition delete_tuple :: "('e, unit) cpp" where
  "delete_tuple = retc ()"

definition is_valid_tuple :: "tuple \<Rightarrow> bool" where
  "is_valid_tuple t = True"

section \<open>What an insertion asks of the page size\<close>

lemma heap_bitmap_size_eq: "heap_bitmap_size ps = ps + 49"
proof -
  have "(ucast ps :: 64 word) - (4 + 4) + 1 * 57 = ucast ps + 49" by simp
  then have "heap_bitmap_size ps = ucast (ucast ps + 49 :: 64 word)" by (simp only: heap_bitmap_size_def)
  moreover have "unat (ucast (ucast ps + 49 :: 64 word) :: uint) = unat (ps + 49)"
  proof -
    have wide: "take_bit 64 (unat ps) = unat ps"
      by (intro take_bit_nat_eq_self) (simp add: less_le_trans [OF unat_uint_less])
    have "unat ps + 49 < 18446744073709551616" using unat_uint_less [of ps] by linarith
    then have "unat (ucast ps + 49 :: 64 word) = unat ps + 49"
      by (simp add: unat_word_ariths(1) unsigned_ucast_eq wide)
    then show ?thesis by (simp add: unsigned_ucast_eq unat_word_ariths(1) take_bit_eq_mod)
  qed
  ultimately show ?thesis by (simp only: word_unat_eq_iff)
qed


lemma free_bits_from_Ret_bound:
  assumes "free_bits_from mem n i acc = Ret r" and "i \<le> INT_MAX" and "i < n"
  shows "n \<le> INT_MAX + 0 \<or> n = 0"
  using assms
proof (induction mem n i acc rule: free_bits_from.induct)
  case (1 mem n i acc)
  then obtain taken where "read_bit mem i = Ret taken" "i \<noteq> INT_MAX"
    "free_bits_from mem n (Suc i) (if taken then acc else acc + 1) = Ret r"
    by (auto simp: free_bits_from.simps [of mem n i] obind_eq_Ret split: if_splits)
  then show ?case using 1 by (cases "Suc i < n") auto
qed

lemma claim_slot_Ret:
  assumes "claim_slot E r n s = (Ret x, s')"
  shows "8 dvd unat n"
proof -
  obtain bm0 where new: "bitmap_new n = Ret bm0" and rest: "\<exists>bm src free.
      deserialize bm0 src = Ret bm \<and> get_num_free_bits bm = Ret free"
    using assms unfolding claim_slot_def by (elim bindc_RetE) (simp, blast)
  from rest obtain bm src free where de: "deserialize bm0 src = Ret bm"
    and free: "get_num_free_bits bm = Ret free" by blast
  have even: "even (unat n)" using new bitmap_new_odd by fastforce
  have bm0: "num_bits bm0 = n" "num_bytes bm0 = n div 8" "length (bitmap_mem bm0) = unat n div 8"
    using bitmap_new_even [OF even] new by auto
  have bm: "num_bits bm = n" "length (bitmap_mem bm) = unat n div 8"
    using de bm0 by (auto simp: deserialize_def mem_write_def mem_read_def obind_eq_Ret unat_div split: if_splits)
  show ?thesis
  proof (rule ccontr)
    assume no: "\<not> 8 dvd unat n"
    then have "0 < unat n" by (metis dvd_0_right gr0I)
    moreover have "free_bits_from (bitmap_mem bm) (unat n) 0 0 = Ret free"
      using free bm by (simp add: get_num_free_bits_def)
    ultimately have "unat n \<le> INT_MAX" using free_bits_from_Ret_bound [of "bitmap_mem bm" "unat n" 0 0 free] by simp
    then have "free_bits_from (bitmap_mem bm) (unat n) 0 0 = Fault (Undefined Out_Of_Bounds)"
      using bm div_8_pred [OF no] \<open>0 < unat n\<close> by (intro free_bits_from_overrun) simp_all
    then show False using \<open>free_bits_from (bitmap_mem bm) (unat n) 0 0 = Ret free\<close> by simp
  qed
qed

section \<open>The program's own managers\<close>

definition on_dm :: "(pdm \<times> 'w, 'a) cpp \<Rightarrow> ((pdm \<times> 'w) \<times> 'b, 'a) cpp" where
  "on_dm = zoom fst (\<lambda>t (_, b). (t, b))"

definition lewsql_env :: "'w posix \<Rightarrow> ((pdm \<times> 'w) \<times> 't buffer_manager) heap_env" where
  \<comment> \<open>\<open>pin\<close> never returns a page, so the two functions on page memory are never called\<close>
  "lewsql_env P =
     \<lparr>dm_create = (\<lambda>nm. on_dm (create P nm)), dm_load = (\<lambda>nm. on_dm (load P nm)),
      dm_extend = (\<lambda>i. on_dm (Posix_Disk_Manager.extend P i)), dm_unload = (\<lambda>i. on_dm (unload i)),
      bm_pin = (\<lambda>i cur. on_snd (pin i cur)), bm_unpin = (\<lambda>i cur. on_snd (unpin i cur)),
      bm_set_dirty = (\<lambda>i cur. on_snd (set_dirty i cur)),
      frame_get = (\<lambda>r e. buffer_page_new [] 0 0 0 0 0 False), frame_set = (\<lambda>r pg e. e)\<rparr>"

lemma on_dm_eq: "m s = (out, s') \<Longrightarrow> on_dm m (s, b) = (out, (s', b))"
  by (simp add: on_dm_def zoom_def)

lemma pin_lewsql: "bm_pin (lewsql_env P) i cur (s, b) = (Fault (Undefined Missing_Return), (s, b))"
  by (simp add: lewsql_env_def pin_def on_snd_eq)

section \<open>With every page in memory\<close>

type_synonym frames = "nat \<Rightarrow> buffer_page"

definition resident_env :: "int32 \<Rightarrow> int32 \<Rightarrow> frames heap_env" where
  \<comment> \<open>a stand-in for the managers: one disk \<open>d\<close>, whose next \<open>extend\<close> answers \<open>n\<close>; page \<open>c\<close> is in frame \<open>c\<close>\<close>
  "resident_env d n =
     \<lparr>dm_create = (\<lambda>nm. retc (Inr d)), dm_load = (\<lambda>nm. retc (Inr d)),
      dm_extend = (\<lambda>i. retc (Inr n)), dm_unload = (\<lambda>i. retc (Inr ())),
      bm_pin = (\<lambda>i cur. retc (unat cur)), bm_unpin = (\<lambda>i cur. retc ()),
      bm_set_dirty = (\<lambda>i cur. retc ()),
      frame_get = (\<lambda>r e. e r), frame_set = (\<lambda>r pg e. e(r := pg))\<rparr>"

definition word_at :: "buffer_page \<Rightarrow> nat \<Rightarrow> int32" where
  "word_at pg off = le_word (take 4 (drop off (bp_bytes pg)))"

definition set_word :: "buffer_page \<Rightarrow> nat \<Rightarrow> int32 \<Rightarrow> buffer_page" where
  "set_word pg off v = pg\<lparr>bp_bytes := overwrite off (le_bytes 4 v) (bp_bytes pg)\<rparr>"

definition roomy :: "buffer_page \<Rightarrow> bool" where
  "roomy pg \<longleftrightarrow> page_ok pg \<and> 12 \<le> unat (bp_page_size pg)"

lemma resident_sel [simp]:
  "dm_create (resident_env d n) nm = retc (Inr d)" "dm_extend (resident_env d n) i = retc (Inr n)"
  "bm_pin (resident_env d n) i cur = retc (unat cur)" "bm_unpin (resident_env d n) i cur = retc ()"
  "bm_set_dirty (resident_env d n) i cur = retc ()"
  "frame_get (resident_env d n) r e = e r" "frame_set (resident_env d n) r pg e = e(r := pg)"
  by (simp_all add: resident_env_def)

lemma get_word_run:
  "roomy (e r) \<Longrightarrow> unat off + 4 \<le> 12 \<Longrightarrow>
    get_word (resident_env d n) r off e = (Ret (word_at (e r) (unat off)), e)"
  by (simp add: get_word_def roomy_def page_ok_def to_ptr_eq load_ptr_def mem_read_def word_at_def)

lemma put_word_run:
  "roomy (e r) \<Longrightarrow> unat off + 4 \<le> 12 \<Longrightarrow>
    put_word (resident_env d n) r off v e = (Ret (), e(r := set_word (e r) (unat off) v))"
  by (simp add: put_word_def roomy_def page_ok_def to_ptr_eq store_ptr_def mem_write_def set_word_def)

lemma roomy_set_word [simp]: "roomy pg \<Longrightarrow> off + 4 \<le> 12 \<Longrightarrow> roomy (set_word pg off v)"
  by (simp add: roomy_def page_ok_def set_word_def)

lemma word_at_set_word:
  assumes "roomy pg" and "off + 4 \<le> 12"
  shows "word_at (set_word pg off v) off = v"
proof -
  have "take 4 (drop off (overwrite off (le_bytes 4 v) (bp_bytes pg))) = le_bytes 4 v"
    using take_drop_overwrite [of off "le_bytes 4 v" "bp_bytes pg"] assms
    by (simp add: roomy_def page_ok_def)
  then show ?thesis by (simp add: word_at_def set_word_def le_word_le_bytes)
qed

lemma word_at_set_word_other:
  "roomy pg \<Longrightarrow> off + 4 \<le> 12 \<Longrightarrow> p + 4 \<le> off \<or> off + 4 \<le> p \<Longrightarrow> word_at (set_word pg off v) p = word_at pg p"
  by (simp add: word_at_def set_word_def take_drop_overwrite_other roomy_def page_ok_def)

lemma find_free_page_resident:
  "(\<And>r. roomy (e r)) \<Longrightarrow> find_free_page (resident_env d n) h e =
    (Ret (if word_at (e 0) 4 = - 1 then None else Some (word_at (e 0) 4)), e)"
  by (simp add: find_free_page_def heap_offsets bindc_def get_word_run)

lemma choose_page_resident:
  assumes "\<And>r. roomy (e r)" and "word_at (e 0) 4 = - 1"
  shows "choose_page (resident_env d n) h e = (Ret n, e(0 := set_word (e 0) 4 (m_disk_id h)))"
  using assms
  by (simp add: choose_page_def Let_def bindc_def find_free_page_resident heap_offsets put_word_run)

section \<open>The list of full pages\<close>

abbreviation full_link :: "frames \<Rightarrow> int32 \<Rightarrow> int32" where
  "full_link e c \<equiv> word_at (e (unat c)) 4"

fun linked :: "frames \<Rightarrow> int32 list \<Rightarrow> bool" where
  "linked e [] = True"
| "linked e [p] = (full_link e p = - 1)"
| "linked e (p # q # ps) = (full_link e p = q \<and> linked e (q # ps))"

definition full_list :: "frames \<Rightarrow> int32 list \<Rightarrow> bool" where
  \<comment> \<open>the full list from the root page: distinct pages, none of them the root\<close>
  "full_list e ps \<longleftrightarrow> word_at (e 0) 8 = (case ps of [] \<Rightarrow> - 1 | p # _ \<Rightarrow> p)
     \<and> linked e ps \<and> distinct ps \<and> - 1 \<notin> set ps \<and> 0 \<notin> set ps"

lemma full_list_end_resident:
  assumes "\<And>r. roomy (e r)" and "linked e (p # ps)" and "- 1 \<notin> set (p # ps)" and "length (p # ps) \<le> fuel"
  shows "full_list_end (resident_env d n) i fuel p e =
    (Ret (Some (unat (last (p # ps)), last (p # ps))), e)"
  using assms(2-4)
proof (induction ps arbitrary: p fuel)
  case Nil
  then show ?case using assms(1)
    by (cases fuel) (simp_all add: bindc_def get_word_run FULL_LIST_OFFSET_def)
next
  case (Cons q ps)
  then obtain f where f: "fuel = Suc f" by (cases fuel) auto
  have "full_list_end (resident_env d n) i f q e = (Ret (Some (unat (last (q # ps)), last (q # ps))), e)"
    using Cons.prems f by (intro Cons.IH) auto
  then show ?case using Cons.prems f assms(1)
    by (auto simp: bindc_def get_word_run FULL_LIST_OFFSET_def)
qed

lemma append_at_resident:
  "(\<And>r. roomy (e r)) \<Longrightarrow> unat off + 4 \<le> 12 \<Longrightarrow>
    append_at (resident_env d n) i r c off p e = (Ret (Some ()), e(r := set_word (e r) (unat off) p))"
  by (simp add: append_at_def bindc_def put_word_run)

lemma append_run:
  assumes "\<And>r. roomy (e r)" and "full_list e ps" and "length ps \<le> fuel"
  shows "append_to_full_pages (resident_env d n) fuel h p e =
    (Ret (Some ()),
     case ps of [] \<Rightarrow> e(0 := set_word (e 0) 8 p)
       | _ \<Rightarrow> e(unat (last ps) := set_word (e (unat (last ps))) 4 p))"
proof (cases ps)
  case Nil
  then show ?thesis using assms
    by (simp add: append_to_full_pages_def Let_def bindc_def get_word_run heap_offsets full_list_def
        append_at_resident)
next
  case (Cons q qs)
  have q: "word_at (e 0) 8 = q" "q \<noteq> - 1" using assms(2) Cons by (auto simp: full_list_def)
  have "full_list_end (resident_env d n) (m_disk_id h) fuel q e =
      (Ret (Some (unat (last (q # qs)), last (q # qs))), e)"
    using assms Cons by (intro full_list_end_resident) (auto simp: full_list_def)
  then show ?thesis using assms(1) q Cons
    by (simp add: append_to_full_pages_def Let_def bindc_def get_word_run heap_offsets append_at_resident)
qed


lemma linked_append:
  assumes "linked e ps" and "ps \<noteq> []" and "distinct (ps @ [p])"
    and "\<And>r. roomy (e r)" and "full_link e p = - 1"
  shows "linked (e(unat (last ps) := set_word (e (unat (last ps))) 4 p)) (ps @ [p])"
  using assms(1-3)
proof (induction ps rule: induct_list012)
  case (2 q)
  then have "unat p \<noteq> unat q" by (metis distinct.simps(2) append_Cons list.set_intros(1) word_unat_eq_iff append_Nil)
  then show ?case using assms(4,5) by (simp add: word_at_set_word)
next
  case (3 q r qs)
  have "unat q \<noteq> unat (last (r # qs))"
    using 3(5) by (metis append_Cons distinct.simps(2) in_set_conv_decomp_last last_in_set list.distinct(1)
        set_append Un_iff word_unat_eq_iff)
  then show ?case using 3 by simp
qed simp

end
