(* ===== verification/Heap_Insert.thy ===== *)
theory Heap_Insert
  imports Heap
begin

text \<open>
  \<open>Heap::insert_tuple\<close> on resident pages: the slot it claims in the bitmap of the chosen page
  and the bytes it writes.  The bitmap of a page are \<open>bitmap_bytes\<close> bytes after its two
  links, the slots follow.
\<close>

section \<open>The bitmap of a page\<close>

definition bitmap_bytes :: "uint \<Rightarrow> nat" where
  "bitmap_bytes ps = (unat ps + 49) div 8"

definition page_bitmap :: "uint \<Rightarrow> buffer_page \<Rightarrow> bitmap" where
  "page_bitmap ps pg =
     \<lparr>num_bits = ps + 49, num_bytes = (ps + 49) div 8,
      bitmap_mem = take (bitmap_bytes ps) (drop 8 (bp_bytes pg))\<rparr>"

definition slots :: "uint \<Rightarrow> buffer_page \<Rightarrow> bool list" where
  \<comment> \<open>which slots of the page are taken\<close>
  "slots ps pg = bits (page_bitmap ps pg)"

definition slotted :: "uint \<Rightarrow> buffer_page \<Rightarrow> bool" where
  \<comment> \<open>the page size fits the bitmap, the memory holds it\<close>
  "slotted ps pg \<longleftrightarrow> unat ps mod 8 = 7 \<and> unat ps + 49 \<le> INT_MAX \<and> 8 + bitmap_bytes ps \<le> length (bp_bytes pg)"

lemma slotted_sizes:
  assumes "slotted ps pg"
  shows "unat (ps + 49) = unat ps + 49" and "8 dvd unat (ps + 49)" and "unat (ps + 49) \<le> INT_MAX"
    and "unat ((ps + 49) div 8) = bitmap_bytes ps"
proof -
  show 1: "unat (ps + 49) = unat ps + 49"
    using assms by (simp add: slotted_def unat_add_uint)
  have "(unat ps + 49) mod 8 = 0" using assms unfolding slotted_def by presburger
  then show "8 dvd unat (ps + 49)" unfolding 1 by (simp add: dvd_eq_mod_eq_0)
  show "unat (ps + 49) \<le> INT_MAX" unfolding 1 using assms by (simp add: slotted_def)
  show "unat ((ps + 49) div 8) = bitmap_bytes ps"
    unfolding unat_div_8 1 bitmap_bytes_def by (rule refl)
qed

lemma slotted_room: "slotted ps pg \<Longrightarrow> bitmap_bytes ps \<le> length (drop 8 (bp_bytes pg))"
  unfolding slotted_def length_drop by linarith

lemma wf_page_bitmap:
  assumes "slotted ps pg"
  shows "wf_bitmap (page_bitmap ps pg)"
proof -
  have "length (take (bitmap_bytes ps) (drop 8 (bp_bytes pg))) = bitmap_bytes ps"
    using slotted_room [OF assms] by (simp only: length_take min_absorb2)
  then show ?thesis using slotted_sizes [OF assms] unfolding wf_bitmap_def page_bitmap_def bitmap.select_convs
    by (simp only: bitmap_bytes_def)
qed

lemma length_slots: "slotted ps pg \<Longrightarrow> length (slots ps pg) = unat ps + 49"
  by (simp add: slots_def slotted_sizes page_bitmap_def)

definition set_slots :: "bitmap \<Rightarrow> buffer_page \<Rightarrow> buffer_page" where
  "set_slots bm pg = pg\<lparr>bp_bytes := overwrite 8 (bitmap_mem bm) (bp_bytes pg)\<rparr>"

lemma slots_set_slots:
  assumes "slotted ps pg" and "wf_bitmap bm" and "num_bits bm = ps + 49"
  shows "slots ps (set_slots bm pg) = bits bm" and "slotted ps (set_slots bm pg)"
proof -
  have len: "length (bitmap_mem bm) = bitmap_bytes ps"
    using assms(2,3) slotted_sizes(1) [OF assms(1)] by (simp add: wf_bitmap_def bitmap_bytes_def)
  have fit: "8 + length (bitmap_mem bm) \<le> length (bp_bytes pg)" using assms(1) len by (simp add: slotted_def)
  then have "take (bitmap_bytes ps) (drop 8 (bp_bytes (set_slots bm pg))) = bitmap_mem bm"
    using take_drop_overwrite [OF fit] by (simp add: set_slots_def len)
  then show "slots ps (set_slots bm pg) = bits bm"
    using assms(3) by (simp add: slots_def page_bitmap_def bits_def)
  show "slotted ps (set_slots bm pg)" using assms(1) fit by (simp add: slotted_def set_slots_def)
qed

text \<open>Claiming a slot: the first free one, marked in the page.\<close>

lemma claim_slot_run:
  assumes s: "slotted ps (e r)" and k: "first_False (slots ps (e r)) = Some k"
  obtains bm where "claim_slot (resident_env d n) r (heap_bitmap_size ps) e =
      (Ret (bm, of_nat k), e(r := set_slots bm (e r)))"
    and "wf_bitmap bm" and "num_bits bm = ps + 49" and "num_bytes bm = (ps + 49) div 8"
    and "bits bm = (slots ps (e r))[k := True]"
proof -
  let ?pg = "e r" and ?nb = "bitmap_bytes ps"
  let ?b = "page_bitmap ps ?pg"
  note S = slotted_sizes [OF s]
  have wf: "wf_bitmap ?b" using s by (rule wf_page_bitmap)
  have room: "?nb \<le> length (drop 8 (bp_bytes ?pg))" using s by (rule slotted_room)
  let ?clean = "\<lparr>num_bits = ps + 49, num_bytes = (ps + 49) div 8,
    bitmap_mem = replicate (unat (ps + 49) div 8) 0\<rparr> :: bitmap"
  have new: "bitmap_new (ps + 49) = Ret ?clean" using S(2) by (intro bitmap_new_even) (auto elim: dvd_trans [rotated])
  have wf0: "wf_bitmap ?clean" using S by (simp add: wf_bitmap_def bitmap_bytes_def)
  have de: "deserialize ?clean (drop 8 (bp_bytes ?pg)) = Ret ?b"
    using deserialize_eq [OF wf0, of "drop 8 (bp_bytes ?pg)"] room S(4) by (simp add: page_bitmap_def)
  note D = first_False_SomeD [OF k]
  have kn: "k < unat (num_bits ?b)" using D(1) by (simp add: slots_def)
  then have uk: "unat (of_nat k :: uint) = k"
    using unat_uint_less [of "num_bits ?b"] by (intro unat_of_nat_uint) linarith
  have "False \<in> set (bits ?b)" using D(1,2) unfolding slots_def by (metis nth_mem)
  then have "0 < count_list (bits ?b) False" by (meson count_list_0_iff gr0I)
  moreover have "count_list (bits ?b) False \<le> unat (num_bits ?b)" using count_le_length [of "bits ?b" False] by simp
  ultimately have "0 < unat (of_nat (count_list (bits ?b) False) :: uint)"
    using unat_uint_less [of "num_bits ?b"] by (subst unat_of_nat_uint) linarith+
  then have free: "get_num_free_bits ?b = Ret (of_nat (count_list (bits ?b) False))"
    "(0 :: uint) < of_nat (count_list (bits ?b) False)"
    using get_num_free_bits_eq [OF wf] by (simp_all add: word_less_nat_alt)
  have first: "get_first_free_bit ?b = Ret (Some (of_nat k))"
    using get_first_free_bit_eq [OF wf] k by (simp add: slots_def)
  obtain bm where bm: "set_bit_val ?b (of_nat k) True = Ret bm" "wf_bitmap bm" "num_bits bm = num_bits ?b"
    "bits bm = (bits ?b)[k := True]"
    using set_bit_val_eq [OF wf, of "of_nat k" True] uk kn by auto
  have nb: "num_bits bm = ps + 49" "num_bytes bm = (ps + 49) div 8" "length (bitmap_mem bm) = ?nb"
  proof -
    show 1: "num_bits bm = ps + 49" using bm(3) by (simp add: page_bitmap_def)
    then show "length (bitmap_mem bm) = ?nb" using bm(2) S(1) by (simp add: wf_bitmap_def bitmap_bytes_def)
    show "num_bytes bm = (ps + 49) div 8"
      using bm(2) 1 S by (simp add: wf_bitmap_def word_unat_eq_iff bitmap_bytes_def)
  qed
  have ser: "serialize bm (drop 8 (bp_bytes ?pg)) = Ret (overwrite 0 (bitmap_mem bm) (drop 8 (bp_bytes ?pg)))"
    using bm(2) room nb S(4) by (intro serialize_eq) simp_all
  have join: "take 8 (bp_bytes ?pg) @ overwrite 0 (bitmap_mem bm) (drop 8 (bp_bytes ?pg)) =
      overwrite 8 (bitmap_mem bm) (bp_bytes ?pg)"
    by (simp add: overwrite_def add.commute)
  have "claim_slot (resident_env d n) r (heap_bitmap_size ps) e =
      (Ret (bm, of_nat k), e(r := set_slots bm ?pg))"
    using new de free first bm(1) ser
    by (simp add: claim_slot_def heap_bitmap_size_eq BITMAP_OFFSET_def join set_slots_def)
  then show thesis using bm nb by (intro that) (simp_all add: slots_def)
qed

section \<open>The tuple\<close>

definition slot_offset :: "uint \<Rightarrow> tuple \<Rightarrow> nat \<Rightarrow> nat" where
  \<comment> \<open>where slot \<open>k\<close> starts in a page of tuples like \<open>t\<close>\<close>
  "slot_offset ps t k = 8 + bitmap_bytes ps + k * length t"

definition put_tuple :: "nat \<Rightarrow> tuple \<Rightarrow> buffer_page \<Rightarrow> buffer_page" where
  "put_tuple off t pg = pg\<lparr>bp_bytes := overwrite off (map low_byte t) (bp_bytes pg)\<rparr>"

lemma slot_offset_word:
  assumes s: "slotted ps pg" and fit: "slot_offset ps t k < 4294967296"
  shows "unat (of_nat (FIRST_TUPLE_OFFSET ((ps + 49) div 8)) + of_nat k * tuple_size t :: uint) = slot_offset ps t k"
proof -
  have "(of_nat (FIRST_TUPLE_OFFSET ((ps + 49) div 8)) + of_nat k * tuple_size t :: uint) =
      of_nat (slot_offset ps t k)"
    using slotted_sizes(4) [OF s] by (simp add: FIRST_TUPLE_OFFSET_def tuple_size_eq slot_offset_def)
  then show ?thesis using fit by (simp add: unat_of_nat_uint)
qed

lemma write_tuple_run:
  assumes t: "narrow t" and off: "unat off + length t \<le> length (bp_bytes (e r))"
  shows "write_tuple (resident_env d n) r off t e = (Ret (), e(r := put_tuple (unat off) t (e r)))"
proof -
  let ?bs = "bp_bytes (e r)"
  have "tuple_serialize t (drop (unat off) ?bs) = Ret (overwrite 0 (map low_byte t) (drop (unat off) ?bs))"
    using serialize_narrow [OF t, of 0 "drop (unat off) ?bs"] off by (simp add: tuple_serialize_def)
  moreover have "take (unat off) ?bs @ overwrite 0 (map low_byte t) (drop (unat off) ?bs) =
      overwrite (unat off) (map low_byte t) ?bs"
    by (simp add: overwrite_def add.commute)
  ultimately show ?thesis using off by (simp add: write_tuple_def put_tuple_def)
qed

lemma slots_put_tuple:
  assumes "slotted ps pg" and "8 + bitmap_bytes ps \<le> off" and "off + length t \<le> length (bp_bytes pg)"
  shows "slots ps (put_tuple off t pg) = slots ps pg" and "slotted ps (put_tuple off t pg)"
proof -
  have "take (bitmap_bytes ps) (drop 8 (overwrite off (map low_byte t) (bp_bytes pg))) =
      take (bitmap_bytes ps) (drop 8 (bp_bytes pg))"
    using assms by (intro take_drop_overwrite_other) simp_all
  then show "slots ps (put_tuple off t pg) = slots ps pg" by (simp add: slots_def page_bitmap_def put_tuple_def)
  show "slotted ps (put_tuple off t pg)" using assms by (simp add: slotted_def put_tuple_def)
qed

lemma serialize_narrow_overrun:
  assumes "narrow cells" and "length mem < cursor + length cells" and "cells \<noteq> []"
  shows "serialize_from cells mem cursor = Fault (Undefined Out_Of_Bounds)"
  using assms
proof (induction cells arbitrary: mem cursor)
  case (Cons c cells)
  have c: "cell_bytes c = [low_byte c]" using Cons.prems by (simp add: narrow_def cell_bytes_narrow)
  show ?case
  proof (cases "Suc cursor \<le> length mem")
    case True
    then have "cells \<noteq> []" using Cons.prems by auto
    then have "serialize_from cells (overwrite cursor [low_byte c] mem) (Suc cursor) = Fault (Undefined Out_Of_Bounds)"
      using Cons True by (intro Cons.IH) (simp_all add: narrow_def)
    then show ?thesis using True c by (simp add: cell_serialize_bytes mem_write_def)
  next
    case False
    then show ?thesis using c by (simp add: cell_serialize_bytes mem_write_def)
  qed
qed simp

lemma write_tuple_overrun:
  assumes "narrow t" and "t \<noteq> []" and "length (bp_bytes (e r)) < unat off + length t"
  shows "write_tuple (resident_env d n) r off t e = (Fault (Undefined Out_Of_Bounds), e)"
proof (cases "unat off \<le> length (bp_bytes (e r))")
  case True
  then have "length (drop (unat off) (bp_bytes (e r))) < 0 + length t" using assms(3) by simp
  with assms(1) have "tuple_serialize t (drop (unat off) (bp_bytes (e r))) = Fault (Undefined Out_Of_Bounds)"
    unfolding tuple_serialize_def using assms(2) by (rule serialize_narrow_overrun)
  then show ?thesis using True by (simp add: write_tuple_def bindc_def)
qed (simp add: write_tuple_def bindc_def)

section \<open>An insertion\<close>

text \<open>What an insertion leaves of its page: the bitmap, and the tuple in slot \<open>k\<close>.\<close>

definition inserted :: "uint \<Rightarrow> nat \<Rightarrow> tuple \<Rightarrow> bitmap \<Rightarrow> buffer_page \<Rightarrow> buffer_page" where
  "inserted ps k t bm pg = put_tuple (slot_offset ps t k) t (set_slots bm pg)"

lemma count_list_two_free:
  "first_False xs = Some k \<Longrightarrow> count_list (xs[k := True]) False = count_list xs False - 1"
  using count_list_update_True [of k xs] first_False_SomeD [of xs k] by simp

lemma length_set_slots:
  assumes "slotted ps pg" and "wf_bitmap bm" and "num_bits bm = ps + 49"
  shows "length (bp_bytes (set_slots bm pg)) = length (bp_bytes pg)"
    and "bp_page_size (set_slots bm pg) = bp_page_size pg" and "initialized (set_slots bm pg) = initialized pg"
  using slotted_sizes(1) [OF assms(1)] assms
  by (simp_all add: set_slots_def slotted_def wf_bitmap_def bitmap_bytes_def)

text \<open>
  The page \<open>q\<close> that is chosen has at least two free slots, so that it is not full after the
  insertion.
\<close>

lemma insert_at_run:
  assumes choose: "choose_page (resident_env d n) h e = (Ret q, e1)" and root: "q \<noteq> 0"
    and s: "slotted (heap_page_size h) (e1 (unat q))" and t: "narrow t"
    and k: "first_False (slots (heap_page_size h) (e1 (unat q))) = Some k"
    and two: "2 \<le> count_list (slots (heap_page_size h) (e1 (unat q))) False"
    and fit: "slot_offset (heap_page_size h) t k < 4294967296"
  obtains bm where "wf_bitmap bm" and "num_bits bm = heap_page_size h + 49"
    and "bits bm = (slots (heap_page_size h) (e1 (unat q)))[k := True]"
    and "slot_offset (heap_page_size h) t k + length t \<le> length (bp_bytes (e1 (unat q))) \<longrightarrow>
      insert_tuple (resident_env d n) fuel h t e =
        (Ret (Some ()), e1(unat q := inserted (heap_page_size h) k t bm (e1 (unat q))))"
    and "length (bp_bytes (e1 (unat q))) < slot_offset (heap_page_size h) t k + length t \<and> t \<noteq> [] \<longrightarrow>
      insert_tuple (resident_env d n) fuel h t e =
        (Fault (Undefined Out_Of_Bounds), e1(unat q := set_slots bm (e1 (unat q))))"
proof -
  let ?ps = "heap_page_size h" and ?r = "unat q"
  from s k obtain bm where claim: "claim_slot (resident_env d n) ?r (heap_bitmap_size ?ps) e1 =
      (Ret (bm, of_nat k), e1(?r := set_slots bm (e1 ?r)))"
    and bm: "wf_bitmap bm" "num_bits bm = ?ps + 49" "num_bytes bm = (?ps + 49) div 8"
      "bits bm = (slots ?ps (e1 ?r))[k := True]"
    by (rule claim_slot_run)
  let ?e2 = "e1(?r := set_slots bm (e1 ?r))"
  let ?off = "of_nat (FIRST_TUPLE_OFFSET (num_bytes bm)) + of_nat k * tuple_size t :: uint"
  have off: "unat ?off = slot_offset ?ps t k" unfolding bm(3)
    by (rule slot_offset_word [OF s fit])
  have len: "length (bp_bytes (?e2 ?r)) = length (bp_bytes (e1 ?r))"
    using length_set_slots(1) [OF s bm(1,2)] by simp
  have cnt: "count_list (bits bm) False = count_list (slots ?ps (e1 ?r)) False - 1"
    using bm(4) k count_list_two_free by simp
  have "count_list (bits bm) False \<le> unat (num_bits bm)" using count_le_length [of "bits bm" False] by simp
  then have "unat (of_nat (count_list (bits bm) False) :: uint) = count_list (bits bm) False"
    using unat_uint_less [of "num_bits bm"] by (intro unat_of_nat_uint) linarith
  then have some: "of_nat (count_list (bits bm) False) \<noteq> (0 :: uint)"
    using cnt two by (metis diff_is_0_eq not_less_eq_eq numeral_2_eq_2 One_nat_def unat_0)
  have "insert_tuple (resident_env d n) fuel h t e =
      (Ret (Some ()), e1(?r := inserted ?ps k t bm (e1 ?r)))"
    if fits: "slot_offset ?ps t k + length t \<le> length (bp_bytes (e1 ?r))"
  proof -
    have "unat ?off + length t \<le> length (bp_bytes (?e2 ?r))" using fits off len by simp
    with t have "write_tuple (resident_env d n) ?r ?off t ?e2 = (Ret (), ?e2(?r := put_tuple (unat ?off) t (?e2 ?r)))"
      by (rule write_tuple_run)
    then show ?thesis using choose root claim some off get_num_free_bits_eq [OF bm(1)]
      by (simp add: insert_tuple_def Let_def bindc_def ROOT_PAGE_def inserted_def)
  qed
  moreover have "insert_tuple (resident_env d n) fuel h t e =
      (Fault (Undefined Out_Of_Bounds), e1(?r := set_slots bm (e1 ?r)))"
    if out: "length (bp_bytes (e1 ?r)) < slot_offset ?ps t k + length t" and "t \<noteq> []"
  proof -
    have "length (bp_bytes (?e2 ?r)) < unat ?off + length t" using out off len by simp
    with t \<open>t \<noteq> []\<close> have "write_tuple (resident_env d n) ?r ?off t ?e2 = (Fault (Undefined Out_Of_Bounds), ?e2)"
      by (rule write_tuple_overrun)
    then show ?thesis using choose root claim
      by (simp add: insert_tuple_def Let_def bindc_def ROOT_PAGE_def)
  qed
  ultimately show thesis using bm by (intro that impI) simp_all
qed

text \<open>When no page is free, the page is the one that \<open>extend\<close> names.\<close>

lemma insert_tuple_run:
  assumes pages: "\<And>r. roomy (e r)" and empty: "word_at (e 0) 4 = - 1" and root: "n \<noteq> 0"
    and s: "slotted (heap_page_size h) (e (unat n))" and t: "narrow t"
    and k: "first_False (slots (heap_page_size h) (e (unat n))) = Some k"
    and two: "2 \<le> count_list (slots (heap_page_size h) (e (unat n))) False"
    and fit: "slot_offset (heap_page_size h) t k + length t \<le> length (bp_bytes (e (unat n)))"
      "length (bp_bytes (e (unat n))) < 4294967296"
  obtains bm where "insert_tuple (resident_env d n) fuel h t e =
      (Ret (Some ()), e(0 := set_word (e 0) 4 (m_disk_id h),
         unat n := inserted (heap_page_size h) k t bm (e (unat n))))"
    and "wf_bitmap bm" and "num_bits bm = heap_page_size h + 49"
    and "bits bm = (slots (heap_page_size h) (e (unat n)))[k := True]"
proof -
  let ?ps = "heap_page_size h" and ?r = "unat n"
  define e1 where "e1 = e(0 := set_word (e 0) 4 (m_disk_id h))"
  have choose: "choose_page (resident_env d n) h e = (Ret n, e1)"
    unfolding e1_def using pages empty by (rule choose_page_resident)
  have same: "e1 ?r = e ?r" using root by (simp add: e1_def unat_eq_zero)
  have page: "slotted ?ps (e1 ?r)" "first_False (slots ?ps (e1 ?r)) = Some k"
    "2 \<le> count_list (slots ?ps (e1 ?r)) False" "slot_offset ?ps t k < 4294967296"
    using s k two fit unfolding same by simp_all
  from choose root page(1) t page(2-4) obtain bm where bm: "wf_bitmap bm" "num_bits bm = ?ps + 49"
    "bits bm = (slots ?ps (e1 ?r))[k := True]"
    and run: "slot_offset ?ps t k + length t \<le> length (bp_bytes (e1 ?r)) \<longrightarrow>
      insert_tuple (resident_env d n) fuel h t e = (Ret (Some ()), e1(?r := inserted ?ps k t bm (e1 ?r)))"
    "length (bp_bytes (e1 ?r)) < slot_offset ?ps t k + length t \<and> t \<noteq> [] \<longrightarrow>
      insert_tuple (resident_env d n) fuel h t e =
        (Fault (Undefined Out_Of_Bounds), e1(?r := set_slots bm (e1 ?r)))"
    by (rule insert_at_run [where fuel = fuel])
  show thesis using bm run(1) fit(1) unfolding same by (intro that) (simp_all add: e1_def)
qed

lemma choose_page_head:
  "(\<And>r. roomy (e r)) \<Longrightarrow> word_at (e 0) 4 = p \<Longrightarrow> p \<noteq> - 1 \<Longrightarrow> choose_page (resident_env d n) h e = (Ret p, e)"
  by (simp add: choose_page_def Let_def bindc_def find_free_page_resident)

section \<open>Slots filled from the first on\<close>

definition filled :: "uint \<Rightarrow> nat \<Rightarrow> buffer_page \<Rightarrow> bool" where
  \<comment> \<open>the first \<open>k\<close> slots are taken, the others free\<close>
  "filled ps k pg \<longleftrightarrow> k \<le> unat ps + 49 \<and> slots ps pg = replicate k True @ replicate (unat ps + 49 - k) False"

definition stored :: "uint \<Rightarrow> tuple \<Rightarrow> nat \<Rightarrow> buffer_page \<Rightarrow> bool" where
  \<comment> \<open>slot \<open>j\<close> holds the bytes of the tuple\<close>
  "stored ps t j pg \<longleftrightarrow> take (length t) (drop (slot_offset ps t j) (bp_bytes pg)) = map low_byte t"

lemma stored_read:
  assumes "stored ps t j pg" and "narrow t"
  shows "read_cells (map get_type t) (drop (slot_offset ps t j) (bp_bytes pg)) = Ret t"
proof -
  have "drop (slot_offset ps t j) (bp_bytes pg) = map low_byte t
      @ drop (length t) (drop (slot_offset ps t j) (bp_bytes pg))"
    using assms(1) unfolding stored_def by (metis append_take_drop_id)
  then show ?thesis using read_cells_narrow [OF assms(2)] by metis
qed

lemma count_replicate: "count_list (replicate k x) y = (if x = y then k else 0)"
  by (induction k) auto

lemma takeWhile_taken: "takeWhile (\<lambda>x. x) (replicate k True @ False # ys) = replicate k True"
  by (induction k) simp_all

lemma take_slot:
  "(replicate k True @ replicate (Suc m) False)[k := True] = replicate (Suc k) True @ replicate m False"
  by (induction k) simp_all

lemma filled_first:
  assumes "filled ps k pg" and "k < unat ps + 49"
  shows "first_False (slots ps pg) = Some k" and "count_list (slots ps pg) False = unat ps + 49 - k"
proof -
  have s: "slots ps pg = replicate k True @ replicate (unat ps + 49 - k) False" using assms(1) by (simp add: filled_def)
  have "unat ps + 49 - k = Suc (unat ps + 48 - k)" using assms(2) by simp
  then have "takeWhile (\<lambda>x. x) (slots ps pg) = replicate k True"
    unfolding s by (simp only: replicate_Suc takeWhile_taken)
  moreover have "False \<in> set (slots ps pg)" unfolding s using assms(2) by simp
  ultimately show "first_False (slots ps pg) = Some k" by (simp add: first_False_def)
  show "count_list (slots ps pg) False = unat ps + 49 - k" unfolding s by (simp add: count_list_append count_replicate)
qed

lemma filled_next:
  assumes "slotted ps pg" and "filled ps k pg" and "k < unat ps + 49" and "wf_bitmap bm"
    and "num_bits bm = ps + 49" and "bits bm = (slots ps pg)[k := True]"
    and fit: "slot_offset ps t k + length t \<le> length (bp_bytes pg)"
  shows "slotted ps (inserted ps k t bm pg)" and "filled ps (Suc k) (inserted ps k t bm pg)"
    and "stored ps t k (inserted ps k t bm pg)"
    and "length (bp_bytes (inserted ps k t bm pg)) = length (bp_bytes pg)"
    and "roomy pg \<Longrightarrow> roomy (inserted ps k t bm pg)"
    and "j < k \<Longrightarrow> length u = length t \<Longrightarrow> stored ps u j (inserted ps k t bm pg) = stored ps u j pg"
proof -
  note S = slots_set_slots [OF assms(1,4,5)] and L = length_set_slots [OF assms(1,4,5)]
  have after: "8 + bitmap_bytes ps \<le> slot_offset ps t k" by (simp add: slot_offset_def)
  have fit': "slot_offset ps t k + length t \<le> length (bp_bytes (set_slots bm pg))" using fit L(1) by simp
  note T = slots_put_tuple [OF S(2) after fit']
  show "slotted ps (inserted ps k t bm pg)" unfolding inserted_def by (rule T(2))
  have "unat ps + 49 - k = Suc (unat ps + 49 - Suc k)" using assms(3) by simp
  then have "(slots ps pg)[k := True] = replicate (Suc k) True @ replicate (unat ps + 49 - Suc k) False"
    using assms(2) take_slot [of k "unat ps + 49 - Suc k"] unfolding filled_def by metis
  then show "filled ps (Suc k) (inserted ps k t bm pg)"
    using T(1) S(1) assms(3,6) by (simp add: filled_def inserted_def)
  show "stored ps t k (inserted ps k t bm pg)"
    using take_drop_overwrite [of "slot_offset ps t k" "map low_byte t" "bp_bytes (set_slots bm pg)"] fit'
    by (simp add: stored_def inserted_def put_tuple_def)
  show len: "length (bp_bytes (inserted ps k t bm pg)) = length (bp_bytes pg)"
    using fit' L(1) by (simp add: inserted_def put_tuple_def)
  show "roomy pg \<Longrightarrow> roomy (inserted ps k t bm pg)"
    using len L(2,3) by (simp add: roomy_def page_ok_def inserted_def put_tuple_def)
  show "stored ps u j (inserted ps k t bm pg) = stored ps u j pg" if "j < k" "length u = length t"
  proof -
    have "Suc j * length t \<le> k * length t" using that(1) by (intro mult_le_mono1) simp
    then have before: "slot_offset ps u j + length u \<le> slot_offset ps t k" using that(2) by (simp add: slot_offset_def)
    have "take (length u) (drop (slot_offset ps u j) (overwrite (slot_offset ps t k) (map low_byte t) (bp_bytes (set_slots bm pg))))
        = take (length u) (drop (slot_offset ps u j) (bp_bytes (set_slots bm pg)))"
      using fit' before by (intro take_drop_overwrite_other) simp_all
    moreover have "length (bitmap_mem bm) = bitmap_bytes ps"
      using assms(4,5) slotted_sizes(1) [OF assms(1)] by (simp add: wf_bitmap_def bitmap_bytes_def)
    then have "take (length u) (drop (slot_offset ps u j) (overwrite 8 (bitmap_mem bm) (bp_bytes pg)))
        = take (length u) (drop (slot_offset ps u j) (bp_bytes pg))"
      using assms(1) by (intro take_drop_overwrite_other) (simp_all add: slotted_def slot_offset_def)
    ultimately show ?thesis by (simp add: stored_def inserted_def put_tuple_def set_slots_def)
  qed
qed

section \<open>Many insertions\<close>

fun insert_all :: "'e heap_env \<Rightarrow> nat \<Rightarrow> heap \<Rightarrow> tuple list \<Rightarrow> ('e, unit option) cpp" where
  "insert_all E fuel h [] = retc (Some ())"
| "insert_all E fuel h (t # ts) =
     bindc (insert_tuple E fuel h t) (\<lambda>walked.
       case walked of None \<Rightarrow> retc None | Some _ \<Rightarrow> insert_all E fuel h ts)"

lemma insert_all_run:
  assumes "\<And>r. roomy (e r)" and "word_at (e 0) 4 = p" and "p \<noteq> - 1" "p \<noteq> 0"
    and "slotted (heap_page_size h) (e (unat p))" and "filled (heap_page_size h) k (e (unat p))"
    and "\<forall>t \<in> set ts. narrow t \<and> length t = sz" and "k + length ts < unat (heap_page_size h) + 49"
    and "8 + bitmap_bytes (heap_page_size h) + (k + length ts) * sz \<le> length (bp_bytes (e (unat p)))"
    and "length (bp_bytes (e (unat p))) < 4294967296"
  shows "\<exists>e'. insert_all (resident_env d n) fuel h ts e = (Ret (Some ()), e')
    \<and> filled (heap_page_size h) (k + length ts) (e' (unat p))
    \<and> (\<forall>j < length ts. stored (heap_page_size h) (ts ! j) (k + j) (e' (unat p)))
    \<and> (\<forall>j u. j < k \<longrightarrow> length u = sz \<longrightarrow>
        stored (heap_page_size h) u j (e' (unat p)) = stored (heap_page_size h) u j (e (unat p)))
    \<and> (\<forall>r. r \<noteq> unat p \<longrightarrow> e' r = e r)
    \<and> slotted (heap_page_size h) (e' (unat p)) \<and> (\<forall>r. roomy (e' r))
    \<and> length (bp_bytes (e' (unat p))) = length (bp_bytes (e (unat p)))"
  using assms
proof (induction ts arbitrary: e k)
  case Nil
  then show ?case by auto
next
  case (Cons t ts)
  let ?ps = "heap_page_size h" and ?r = "unat p"
  note pre = Cons.prems
  have r0: "?r \<noteq> 0" using pre(4) by (simp add: unat_eq_zero)
  have t: "narrow t" "length t = sz" using pre(7) by simp_all
  have k: "k < unat ?ps + 49" using pre(8) by simp
  note F = filled_first [OF pre(6) k]
  have "Suc k * sz \<le> (k + length (t # ts)) * sz" by (intro mult_le_mono1) simp
  then have "8 + bitmap_bytes ?ps + Suc k * sz \<le> length (bp_bytes (e ?r))" using pre(9) by linarith
  then have fit: "slot_offset ?ps t k + length t \<le> length (bp_bytes (e ?r))"
    using t(2) by (simp add: slot_offset_def)
  have two: "2 \<le> count_list (slots ?ps (e ?r)) False" using F(2) pre(8) by simp
  have lt: "slot_offset ?ps t k < 4294967296" using fit pre(10) by simp
  have choose: "choose_page (resident_env d n) h e = (Ret p, e)"
    using pre(1-3) by (rule choose_page_head)
  from choose pre(4,5) t(1) F(1) two lt obtain bm where bm: "wf_bitmap bm" "num_bits bm = ?ps + 49"
    "bits bm = (slots ?ps (e ?r))[k := True]"
    and run: "slot_offset ?ps t k + length t \<le> length (bp_bytes (e ?r)) \<longrightarrow>
      insert_tuple (resident_env d n) fuel h t e = (Ret (Some ()), e(?r := inserted ?ps k t bm (e ?r)))"
    "length (bp_bytes (e ?r)) < slot_offset ?ps t k + length t \<and> t \<noteq> [] \<longrightarrow>
      insert_tuple (resident_env d n) fuel h t e =
        (Fault (Undefined Out_Of_Bounds), e(?r := set_slots bm (e ?r)))"
    by (rule insert_at_run [where fuel = fuel])
  let ?pg = "inserted ?ps k t bm (e ?r)"
  let ?e = "e(?r := ?pg)"
  note N = filled_next [OF pre(5,6) k bm fit]
  have "\<exists>e'. insert_all (resident_env d n) fuel h ts ?e = (Ret (Some ()), e')
    \<and> filled ?ps (Suc k + length ts) (e' ?r)
    \<and> (\<forall>j < length ts. stored ?ps (ts ! j) (Suc k + j) (e' ?r))
    \<and> (\<forall>j u. j < Suc k \<longrightarrow> length u = sz \<longrightarrow> stored ?ps u j (e' ?r) = stored ?ps u j (?e ?r))
    \<and> (\<forall>r. r \<noteq> ?r \<longrightarrow> e' r = ?e r) \<and> slotted ?ps (e' ?r) \<and> (\<forall>r. roomy (e' r))
    \<and> length (bp_bytes (e' ?r)) = length (bp_bytes (?e ?r))"
  proof (rule Cons.IH)
    show "roomy (?e q)" for q using pre(1) N(5) by simp
    show "word_at (?e 0) 4 = p" using pre(2) r0 by simp
    show "\<forall>t \<in> set ts. narrow t \<and> length t = sz" using pre(7) by simp
    show "8 + bitmap_bytes ?ps + (Suc k + length ts) * sz \<le> length (bp_bytes (?e ?r))" using pre(9) N(4) by simp
  qed (use pre N in simp_all)
  then obtain e' where e': "insert_all (resident_env d n) fuel h ts ?e = (Ret (Some ()), e')"
    "filled ?ps (Suc k + length ts) (e' ?r)"
    "\<forall>j < length ts. stored ?ps (ts ! j) (Suc k + j) (e' ?r)"
    "\<forall>j u. j < Suc k \<longrightarrow> length u = sz \<longrightarrow> stored ?ps u j (e' ?r) = stored ?ps u j ?pg"
    "\<forall>r. r \<noteq> ?r \<longrightarrow> e' r = ?e r" "slotted ?ps (e' ?r)" "\<forall>r. roomy (e' r)"
    "length (bp_bytes (e' ?r)) = length (bp_bytes ?pg)" by auto
  have "stored ?ps ((t # ts) ! j) (k + j) (e' ?r)" if "j < length (t # ts)" for j
    using that e'(3,4) N(3) t(2) by (cases j) auto
  moreover have "stored ?ps u j (e' ?r) = stored ?ps u j (e ?r)" if "j < k" "length u = sz" for j u
    using that e'(4) N(6) t(2) by simp
  ultimately show ?case using run(1) fit e' N(4) by (intro exI [of _ e']) (simp add: bindc_def)
qed

lemma insert_all_append:
  assumes "insert_all E fuel h xs s = (Ret (Some ()), s')"
  shows "insert_all E fuel h (xs @ ys) s = insert_all E fuel h ys s'"
  using assms
proof (induction xs arbitrary: s)
  case (Cons x xs)
  then show ?case
    by (auto simp: bindc_def split: prod.splits outcome.splits option.splits)
qed simp

text \<open>
  The bitmap has more bits than the page has bytes, and every tuple takes at least one byte after
  it: the memory of the page ends before its slots do.
\<close>

lemma capacity_below_slots:
  assumes "8 + bitmap_bytes ps \<le> unat ps" and "0 < sz"
  shows "(unat ps - 8 - bitmap_bytes ps) div sz + 2 \<le> unat ps + 49"
  using div_le_dividend [of "unat ps - 8 - bitmap_bytes ps" sz] by linarith

lemma capacity_fits:
  assumes "8 + bitmap_bytes ps \<le> L" and "0 < sz" and "m = (L - 8 - bitmap_bytes ps) div sz"
  shows "8 + bitmap_bytes ps + m * sz \<le> L" and "L < 8 + bitmap_bytes ps + m * sz + sz"
proof -
  have "m * sz \<le> L - 8 - bitmap_bytes ps" unfolding assms(3) by simp
  then show "8 + bitmap_bytes ps + m * sz \<le> L" using assms(1) by linarith
  have "L - 8 - bitmap_bytes ps < Suc m * sz"
    unfolding assms(3) using assms(2) by (metis dividend_less_div_times mult_Suc add.commute)
  then show "L < 8 + bitmap_bytes ps + m * sz + sz" by simp
qed

lemma insert_all_fills:
  assumes "\<And>r. roomy (e r)" and "word_at (e 0) 4 = p" and "p \<noteq> - 1" "p \<noteq> 0"
    and "slotted (heap_page_size h) (e (unat p))" and "filled (heap_page_size h) 0 (e (unat p))"
    and "\<forall>t \<in> set ts. narrow t \<and> length t = sz" and "m + 2 \<le> unat (heap_page_size h) + 49"
    and "8 + bitmap_bytes (heap_page_size h) + m * sz \<le> unat (heap_page_size h)" and "length ts = m"
    and "length (bp_bytes (e (unat p))) = unat (heap_page_size h)"
  obtains e1 where "insert_all (resident_env d n) fuel h ts e = (Ret (Some ()), e1)"
    and "filled (heap_page_size h) m (e1 (unat p))" and "slotted (heap_page_size h) (e1 (unat p))"
    and "\<forall>r. roomy (e1 r)" and "word_at (e1 0) 4 = p"
    and "length (bp_bytes (e1 (unat p))) = unat (heap_page_size h)"
proof -
  have "\<exists>e'. insert_all (resident_env d n) fuel h ts e = (Ret (Some ()), e')
    \<and> filled (heap_page_size h) (0 + length ts) (e' (unat p))
    \<and> (\<forall>j < length ts. stored (heap_page_size h) (ts ! j) (0 + j) (e' (unat p)))
    \<and> (\<forall>j u. j < 0 \<longrightarrow> length u = sz \<longrightarrow>
        stored (heap_page_size h) u j (e' (unat p)) = stored (heap_page_size h) u j (e (unat p)))
    \<and> (\<forall>r. r \<noteq> unat p \<longrightarrow> e' r = e r)
    \<and> slotted (heap_page_size h) (e' (unat p)) \<and> (\<forall>r. roomy (e' r))
    \<and> length (bp_bytes (e' (unat p))) = length (bp_bytes (e (unat p)))"
    using assms(1-6) by (rule insert_all_run) (use assms in auto)
  then obtain e1 where e1: "insert_all (resident_env d n) fuel h ts e = (Ret (Some ()), e1)"
    "filled (heap_page_size h) m (e1 (unat p))" "\<forall>r. r \<noteq> unat p \<longrightarrow> e1 r = e r"
    "slotted (heap_page_size h) (e1 (unat p))" "\<forall>r. roomy (e1 r)"
    "length (bp_bytes (e1 (unat p))) = unat (heap_page_size h)" using assms(10,11) by auto
  moreover have "word_at (e1 0) 4 = p" using e1(3) assms(2,4) by (simp add: unat_eq_zero)
  ultimately show thesis by (intro that) auto
qed

lemma insert_tuple_overruns:
  assumes pages: "\<And>r. roomy (e r)" and head: "word_at (e 0) 4 = p" and p: "p \<noteq> - 1" "p \<noteq> 0"
    and s: "slotted (heap_page_size h) (e (unat p))" and filled: "filled (heap_page_size h) m (e (unat p))"
    and few: "m + 2 \<le> unat (heap_page_size h) + 49" and t: "narrow t"
    and out: "length (bp_bytes (e (unat p))) < slot_offset (heap_page_size h) t m + length t"
    and lt: "slot_offset (heap_page_size h) t m \<le> unat (heap_page_size h)" and ne: "t \<noteq> []"
  obtains e' where "insert_tuple (resident_env d n) fuel h t e = (Fault (Undefined Out_Of_Bounds), e')"
    and "False \<in> set (slots (heap_page_size h) (e' (unat p)))"
proof -
  let ?ps = "heap_page_size h" and ?r = "unat p"
  have k: "m < unat ?ps + 49" and two: "2 \<le> unat ?ps + 49 - m" using few by simp_all
  note F = filled_first [OF filled k]
  have choose: "choose_page (resident_env d n) h e = (Ret p, e)" using pages head p(1) by (rule choose_page_head)
  have lt': "slot_offset ?ps t m < 4294967296" using lt unat_uint_less [of ?ps] by linarith
  from choose p(2) s t F(1) two [folded F(2)] lt' obtain bm where
    bm: "wf_bitmap bm" "num_bits bm = ?ps + 49" "bits bm = (slots ?ps (e ?r))[m := True]"
    and "slot_offset ?ps t m + length t \<le> length (bp_bytes (e ?r)) \<longrightarrow>
      insert_tuple (resident_env d n) fuel h t e = (Ret (Some ()), e(?r := inserted ?ps m t bm (e ?r)))"
    and run: "length (bp_bytes (e ?r)) < slot_offset ?ps t m + length t \<and> t \<noteq> [] \<longrightarrow>
      insert_tuple (resident_env d n) fuel h t e =
        (Fault (Undefined Out_Of_Bounds), e(?r := set_slots bm (e ?r)))"
    by (rule insert_at_run [where fuel = fuel])
  have "count_list (bits bm) False \<noteq> 0"
    using count_list_two_free [OF F(1)] F(2) two bm(3) by simp
  then have "False \<in> set (slots ?ps (set_slots bm (e ?r)))"
    using slots_set_slots(1) [OF s bm(1,2)] by (simp add: count_list_0_iff)
  then show thesis using run out ne by (intro that [of "e(?r := set_slots bm (e ?r))"]) simp_all
qed

end
