(* ===== verification/Heap_Life.thy ===== *)
theory Heap_Life
  imports Heap_Insert
begin

text \<open>
  The heap on top of the program's disk manager.  The locale \<open>page_pool\<close> is what the heap asks of its
  managers when the pages of its disk are in memory; inside it, every operation of the heap does what
  it does on \<open>resident_env\<close> (\<open>as_resident\<close>).  \<open>pooled_env\<close> is \<open>PosixDiskManager\<close> with such a pool, in the
  place of \<open>BufferManager\<close>, whose \<open>pin\<close> has no body; it satisfies the locale on a reliable system.
\<close>

section \<open>What the heap asks of its managers\<close>

text \<open>
  \<open>E\<close> keeps the pages of disk \<open>d\<close> in memory (\<open>pages\<close>), and \<open>extend\<close> answers \<open>n\<close> as long as the rest of
  the state is as in \<open>I\<close>.
\<close>

locale page_pool =
  fixes E :: "'e heap_env" and pages :: "'e \<Rightarrow> frames" and I :: "'e \<Rightarrow> bool" and d n :: int32
  assumes pin: "bm_pin E i cur s = (Ret (unat cur), s)"
    and unpin: "bm_unpin E i cur s = (Ret (), s)"
    and set_dirty: "bm_set_dirty E i cur s = (Ret (), s)"
    and frame_get: "frame_get E r s = pages s r"
    and frame_set: "pages (frame_set E r pg s) = (pages s)(r := pg)"
    and frame_set_inv: "I s \<Longrightarrow> I (frame_set E r pg s)"
    and extend_answers: "I s \<Longrightarrow> \<exists>s'. dm_extend E d s = (Ret (Inr n), s') \<and> pages s' = pages s \<and> I s'"

definition follows :: "('e \<Rightarrow> frames) \<Rightarrow> ('e \<Rightarrow> bool) \<Rightarrow> ('e, 'a) cpp \<Rightarrow> (frames, 'a) cpp \<Rightarrow> bool" where
  \<comment> \<open>the first does on the pages what the second does, and keeps the rest of the state\<close>
  "follows pages I m m0 \<longleftrightarrow> (\<forall>s. I s \<longrightarrow> (\<exists>s'. m s = (fst (m0 (pages s)), s') \<and> pages s' = snd (m0 (pages s)) \<and> I s'))"

lemma follows_run:
  assumes "follows pages I m m0" and "I s" and "m0 (pages s) = (out, e')"
  obtains s' where "m s = (out, s')" and "pages s' = e'" and "I s'"
  using assms unfolding follows_def by fastforce

lemma follows_liftc: "follows pages I (liftc out) (liftc out)"
  by (simp add: follows_def)

lemma follows_retc: "follows pages I (retc a) (retc a)"
  by (simp add: follows_def)

lemma follows_bind:
  assumes "follows pages I m m0" and "\<And>a. follows pages I (k a) (k0 a)"
  shows "follows pages I (bindc m k) (bindc m0 k0)"
  unfolding follows_def
proof (intro allI impI)
  fix s
  assume s: "I s"
  obtain out e1 where 0: "m0 (pages s) = (out, e1)" by (metis surj_pair)
  with assms(1) s obtain s1 where 1: "m s = (out, s1)" "pages s1 = e1" "I s1" by (rule follows_run)
  show "\<exists>s'. bindc m k s = (fst (bindc m0 k0 (pages s)), s') \<and> pages s' = snd (bindc m0 k0 (pages s)) \<and> I s'"
  proof (cases out)
    case (Ret a)
    then show ?thesis using assms(2) [of a] 0 1 by (auto simp: follows_def bindc_eqs)
  qed (use 0 1 in \<open>auto simp: bindc_eqs\<close>)
qed

lemma follows_if:
  "follows pages I m m0 \<Longrightarrow> follows pages I k k0 \<Longrightarrow> follows pages I (if b then m else k) (if b then m0 else k0)"
  by simp

lemma follows_option:
  "follows pages I m m0 \<Longrightarrow> (\<And>a. follows pages I (k a) (k0 a)) \<Longrightarrow>
    follows pages I (case x of None \<Rightarrow> m | Some a \<Rightarrow> k a) (case x of None \<Rightarrow> m0 | Some a \<Rightarrow> k0 a)"
  by (cases x) simp_all

lemma follows_prod:
  "(\<And>a b. follows pages I (k a b) (k0 a b)) \<Longrightarrow>
    follows pages I (case x of (a, b) \<Rightarrow> k a b) (case x of (a, b) \<Rightarrow> k0 a b)"
  by (cases x) simp

lemmas follows_rules = follows_bind follows_retc follows_liftc follows_if follows_option follows_prod

text \<open>The constructor, from the page of the root on.\<close>

definition format_root :: "'e heap_env \<Rightarrow> int32 \<Rightarrow> string \<Rightarrow> TypeList list \<Rightarrow> uint \<Rightarrow> ('e, heap) cpp" where
  "format_root E d nm cols ps =
     bindc (bm_pin E d ROOT_PAGE) (\<lambda>root.
     bindc (put_word E root FIRST_PAGE_HEAP_PAGE_STAMP_OFFSET HEAP_PAGE_START_STAMP) (\<lambda>_.
     bindc (put_word E root FIRST_PAGE_FREE_LIST_OFFSET (- 1)) (\<lambda>_.
     bindc (put_word E root FIRST_PAGE_FULL_LIST_OFFSET (- 1)) (\<lambda>_.
     bindc (bm_set_dirty E d ROOT_PAGE) (\<lambda>_.
     bindc (bm_unpin E d ROOT_PAGE) (\<lambda>_.
       retc \<lparr>m_table_name = nm, m_disk_id = d, heap_cols = cols, heap_page_size = ps\<rparr>))))))"

lemma heap_new_format:
  assumes "dm_create E (nm @ HEAP_DISK_SUFFIX) s = (Ret (Inr d), s1)
    \<or> (\<exists>e s0. dm_create E (nm @ HEAP_DISK_SUFFIX) s = (Ret (Inl e), s0)
        \<and> dm_load E (nm @ HEAP_DISK_SUFFIX) s0 = (Ret (Inr d), s1))"
  shows "heap_new E nm cols ps s = format_root E d (nm @ HEAP_DISK_SUFFIX) cols ps s1"
  using assms by (auto simp: heap_new_def Let_def format_root_def bindc_eqs get_value_def)

context page_pool begin

abbreviation as_resident :: "('e, 'a) cpp \<Rightarrow> (frames, 'a) cpp \<Rightarrow> bool" where
  "as_resident \<equiv> follows pages I"

lemma resident_pin: "as_resident (bm_pin E i cur) (bm_pin (resident_env d n) i cur)"
  by (simp add: follows_def pin)

lemma resident_unpin: "as_resident (bm_unpin E i cur) (bm_unpin (resident_env d n) i cur)"
  by (simp add: follows_def unpin)

lemma resident_set_dirty: "as_resident (bm_set_dirty E i cur) (bm_set_dirty (resident_env d n) i cur)"
  by (simp add: follows_def set_dirty)

lemma resident_frame: "as_resident (getc (frame_get E r)) (getc (frame_get (resident_env d n) r))"
  by (simp add: follows_def frame_get)

lemma resident_frame_set: "as_resident (modc (frame_set E r pg)) (modc (frame_set (resident_env d n) r pg))"
  by (simp add: follows_def frame_set frame_set_inv)

lemma resident_extend: "as_resident (dm_extend E d) (dm_extend (resident_env d n) d)"
  using extend_answers by (simp add: follows_def)

lemmas resident_rules = follows_rules resident_pin resident_unpin resident_set_dirty resident_frame
  resident_frame_set resident_extend

lemma resident_get_word: "as_resident (get_word E r off) (get_word (resident_env d n) r off)"
  unfolding get_word_def by (intro resident_rules)

lemma resident_put_word: "as_resident (put_word E r off v) (put_word (resident_env d n) r off v)"
  unfolding put_word_def by (intro resident_rules)

lemmas resident_words = resident_rules resident_get_word resident_put_word

lemma resident_find_free_page: "as_resident (find_free_page E h) (find_free_page (resident_env d n) h)"
  unfolding find_free_page_def by (intro resident_words)

lemma resident_full_list_end: "as_resident (full_list_end E i fuel cur) (full_list_end (resident_env d n) i fuel cur)"
proof (induction fuel arbitrary: cur)
  case (Suc fuel)
  show ?case unfolding full_list_end.simps by (intro resident_words Suc.IH)
qed (unfold full_list_end.simps, rule follows_retc)

lemma resident_append_at:
  "as_resident (append_at E i r cur off p) (append_at (resident_env d n) i r cur off p)"
  unfolding append_at_def by (intro resident_words)

lemma resident_append:
  "as_resident (append_to_full_pages E fuel h p) (append_to_full_pages (resident_env d n) fuel h p)"
  unfolding append_to_full_pages_def Let_def by (intro resident_words resident_append_at resident_full_list_end)

lemma resident_choose_page:
  assumes "m_disk_id h = d"
  shows "as_resident (choose_page E h) (choose_page (resident_env d n) h)"
  unfolding choose_page_def Let_def assms by (intro resident_words resident_find_free_page)

lemma resident_claim_slot: "as_resident (claim_slot E r sz) (claim_slot (resident_env d n) r sz)"
  unfolding claim_slot_def by (intro resident_words)

lemma resident_write_tuple: "as_resident (write_tuple E r off t) (write_tuple (resident_env d n) r off t)"
  unfolding write_tuple_def by (intro resident_words)

lemma resident_insert_tuple:
  "m_disk_id h = d \<Longrightarrow> as_resident (insert_tuple E fuel h t) (insert_tuple (resident_env d n) fuel h t)"
  unfolding insert_tuple_def Let_def
  by (intro resident_words resident_choose_page resident_claim_slot resident_write_tuple resident_append)

lemma resident_insert_all:
  assumes "m_disk_id h = d"
  shows "as_resident (insert_all E fuel h ts) (insert_all (resident_env d n) fuel h ts)"
proof (induction ts)
  case (Cons t ts)
  show ?case unfolding insert_all.simps by (intro resident_words resident_insert_tuple assms Cons.IH)
qed (unfold insert_all.simps, rule follows_retc)

lemma resident_format_root:
  "as_resident (format_root E d nm cols ps) (format_root (resident_env d n) d nm cols ps)"
  unfolding format_root_def by (intro resident_words)

end

interpretation resident: page_pool "resident_env d n" "\<lambda>e. e" "\<lambda>e. True" d n for d n
  by unfold_locales simp_all

section \<open>The program's disk manager under the heap\<close>

definition pooled_env :: "'w posix \<Rightarrow> ((pdm \<times> 'w) \<times> frames) heap_env" where
  \<comment> \<open>the program's disk manager, and a stand-in for its pool: every page of the table's disk is in
    memory, and pinning it does not read the disk\<close>
  "pooled_env P =
     \<lparr>dm_create = (\<lambda>nm. on_dm (create P nm)), dm_load = (\<lambda>nm. on_dm (load P nm)),
      dm_extend = (\<lambda>i. on_dm (Posix_Disk_Manager.extend P i)), dm_unload = (\<lambda>i. on_dm (unload i)),
      bm_pin = (\<lambda>i cur. retc (unat cur)), bm_unpin = (\<lambda>i cur. retc ()), bm_set_dirty = (\<lambda>i cur. retc ()),
      frame_get = (\<lambda>r s. snd s r), frame_set = (\<lambda>r pg s. (fst s, (snd s)(r := pg)))\<rparr>"

definition next_page :: "pdm \<Rightarrow> fs_view \<Rightarrow> nat \<Rightarrow> int32" where
  \<comment> \<open>what \<open>extend\<close> answers for the file with inode \<open>i\<close>\<close>
  "next_page m v i = of_nat (length (contents v i) div unat (dm_page_size m) + 1)"

definition disk_at :: "'w posix \<Rightarrow> ('w \<Rightarrow> fs_view) \<Rightarrow> pdm \<Rightarrow> fs_view \<Rightarrow> int32 \<Rightarrow> nat \<Rightarrow> (pdm \<times> 'w) \<times> frames \<Rightarrow> bool" where
  \<comment> \<open>a reliable system whose files are \<open>v\<close>, and the manager \<open>m\<close>, for which disk \<open>d\<close> is the file with inode \<open>i\<close>\<close>
  "disk_at P view m v d i s \<longleftrightarrow> posix_reliable P view \<and> fst (fst s) = m \<and> view (snd (fst s)) = v
     \<and> loaded_file m v d i \<and> length (contents v i) \<le> unat (max_disk_byte_size m)"

lemma pooled_sel [simp]:
  "dm_create (pooled_env P) nm = on_dm (create P nm)" "dm_load (pooled_env P) nm = on_dm (load P nm)"
  "dm_extend (pooled_env P) d = on_dm (Posix_Disk_Manager.extend P d)"
  "bm_pin (pooled_env P) d cur = retc (unat cur)" "bm_unpin (pooled_env P) d cur = retc ()"
  "bm_set_dirty (pooled_env P) d cur = retc ()" "frame_get (pooled_env P) r s = snd s r"
  "frame_set (pooled_env P) r pg s = (fst s, (snd s)(r := pg))"
  by (simp_all add: pooled_env_def)

lemma pooled_extend:
  assumes "disk_at P view m v d i s"
  shows "\<exists>s'. dm_extend (pooled_env P) d s = (Ret (Inr (next_page m v i)), s') \<and> snd s' = snd s \<and> disk_at P view m v d i s'"
proof -
  obtain w e where s: "s = ((m, w), e)" using assms by (cases s) (auto simp: disk_at_def)
  have "posix_reliable P view" and v: "view w = v" and l: "loaded_file m v d i"
    "length (contents v i) \<le> unat (max_disk_byte_size m)" using assms by (simp_all add: disk_at_def s)
  then have "\<exists>w'. Posix_Disk_Manager.extend P d (m, w) = (Ret (Inr (next_page m v i)), (m, w')) \<and> view w' = v"
    using posix_reliable.extend_run [of P view m w d i] by (metis next_page_def)
  then show ?thesis using assms by (auto simp: s on_dm_eq disk_at_def)
qed

interpretation pooled: page_pool "pooled_env P" snd "disk_at P view m v d i" d "next_page m v i" for P view m v d i
  by unfold_locales ((erule pooled_extend | simp add: disk_at_def); fail)+

lemma pooled_create:
  assumes sys: "posix_reliable P view" and new: "names (view w) p = None" and ids: "unat (cur_disk_id m) \<noteq> INT_MAX"
    and p: "p = path_of_file m (get_disk_full_name nm)" and ps: "dm_page_size m \<noteq> 0"
  obtains m' w' i where "dm_create (pooled_env P) nm ((m, w), e) = (Ret (Inr (cur_disk_id m)), ((m', w'), e))"
    and "disk_at P view m' (fs_create p i (view w)) (cur_disk_id m) i ((m', w'), e)"
    and "next_page m' (fs_create p i (view w)) i = 1"
proof -
  let ?m = "m\<lparr>disks := AList.update (cur_disk_id m) (get_disk_full_name nm) (disks m), cur_disk_id := cur_disk_id m + 1\<rparr>"
  obtain w' i where c: "create P nm (m, w) = (Ret (Inr (cur_disk_id m)), (?m, w'))" and v: "view w' = fs_create p i (view w)"
    using p new ids by (rule posix_reliable.create_run [OF sys])
  have "disk_path ?m (cur_disk_id m) = Some p" by (simp add: disk_path_def update_conv' path_of_file_def p)
  then have "disk_at P view ?m (fs_create p i (view w)) (cur_disk_id m) i ((?m, w'), e)"
    using sys v ps by (simp add: disk_at_def loaded_file_def)
  moreover have "next_page ?m (fs_create p i (view w)) i = 1" by (simp add: next_page_def)
  ultimately show thesis using c by (intro that [of ?m w' i]) (simp_all add: on_dm_eq)
qed

section \<open>The life of a heap\<close>

definition formatted :: "buffer_page \<Rightarrow> buffer_page" where
  "formatted pg = set_word (set_word (set_word pg 0 HEAP_PAGE_START_STAMP) 4 (- 1)) 8 (- 1)"

lemma formatted:
  assumes "roomy pg"
  shows "roomy (formatted pg)" and "word_at (formatted pg) 4 = - 1" and "word_at (formatted pg) 0 = HEAP_PAGE_START_STAMP"
    and "word_at (formatted pg) 8 = - 1"
  using assms by (simp_all add: formatted_def word_at_set_word word_at_set_word_other)

lemma format_root_run:
  assumes "\<And>r. roomy (e r)"
  shows "format_root (resident_env d n) d nm cols ps e =
    (Ret \<lparr>m_table_name = nm, m_disk_id = d, heap_cols = cols, heap_page_size = ps\<rparr>, e(0 := formatted (e 0)))"
  using assms by (simp add: format_root_def heap_offsets bindc_def put_word_run formatted_def)

lemma insert_tuple_root_head:
  assumes "\<And>r. roomy (e r)" and "word_at (e 0) 4 = 0"
  shows "insert_tuple (resident_env d n) fuel h t e = (Fault Assertion_Failed, e)"
  using assms by (simp add: insert_tuple_def choose_page_head [of e 0] bindc_def ROOT_PAGE_def)

definition empty_page :: "uint \<Rightarrow> nat \<Rightarrow> buffer_page \<Rightarrow> bool" where
  \<comment> \<open>a page of a fitting size without tuples and with room for \<open>k\<close> bytes of them\<close>
  "empty_page ps k pg \<longleftrightarrow> slotted ps pg \<and> filled ps 0 pg \<and> 8 + bitmap_bytes ps + k \<le> length (bp_bytes pg)
     \<and> length (bp_bytes pg) < 4294967296"

lemma first_insertion:
  assumes pages: "\<And>r. roomy (e r)" and empty: "word_at (e 0) 4 = - 1" and pg: "empty_page (heap_page_size h) k (e 1)"
    and t: "narrow t" "length t \<le> k"
  obtains pg' where "insert_tuple (resident_env d 1) fuel h t e =
      (Ret (Some ()), e(0 := set_word (e 0) 4 (m_disk_id h), 1 := pg'))"
    and "slotted (heap_page_size h) pg'" and "filled (heap_page_size h) 1 pg'" and "stored (heap_page_size h) t 0 pg'"
    and "length (bp_bytes pg') = length (bp_bytes (e 1))" and "roomy pg'"
proof -
  let ?ps = "heap_page_size h"
  have s: "slotted ?ps (e 1)" and f: "filled ?ps 0 (e 1)" and room: "8 + bitmap_bytes ?ps + k \<le> length (bp_bytes (e 1))"
    "length (bp_bytes (e 1)) < 4294967296" using pg by (simp_all add: empty_page_def)
  note F = filled_first [OF f, simplified]
  have fit: "slot_offset ?ps t 0 + length t \<le> length (bp_bytes (e 1))" using room(1) t(2) by (simp add: slot_offset_def)
  have side: "(1 :: int32) \<noteq> 0" "slotted ?ps (e (unat (1 :: int32)))"
    "first_False (slots ?ps (e (unat (1 :: int32)))) = Some 0" "2 \<le> count_list (slots ?ps (e (unat (1 :: int32)))) False"
    "slot_offset ?ps t 0 + length t \<le> length (bp_bytes (e (unat (1 :: int32))))"
    "length (bp_bytes (e (unat (1 :: int32)))) < 4294967296" using s F fit room(2) by simp_all
  obtain bm where run: "insert_tuple (resident_env d 1) fuel h t e =
      (Ret (Some ()), e(0 := set_word (e 0) 4 (m_disk_id h), 1 := inserted ?ps 0 t bm (e 1)))"
    and bm: "wf_bitmap bm" "num_bits bm = ?ps + 49" "bits bm = (slots ?ps (e 1))[0 := True]"
    using insert_tuple_run [OF pages empty side(1,2) t(1) side(3-6), of d fuel] by auto
  have "0 < unat ?ps + 49" by simp
  note N = filled_next [OF s f this bm fit]
  show thesis using run N pages [of 1] by (intro that) simp_all
qed

definition heap_life :: "'e heap_env \<Rightarrow> nat \<Rightarrow> string \<Rightarrow> TypeList list \<Rightarrow> uint \<Rightarrow> tuple list \<Rightarrow> ('e, unit option) cpp" where
  \<comment> \<open>a heap is made and given the tuples\<close>
  "heap_life E fuel nm cols ps ts = bindc (heap_new E nm cols ps) (\<lambda>h. insert_all E fuel h ts)"

lemma later_insertions:
  assumes pages: "\<And>r. roomy (e r)" and empty: "word_at (e 0) 4 = - 1" and d: "m_disk_id h = d" "d \<noteq> 0" "d \<noteq> - 1"
    and first: "empty_page (heap_page_size h) (length (t # ts) * sz) (e 1)"
    and later: "empty_page (heap_page_size h) (length (t # ts) * sz) (e (unat d))"
    and ts: "\<forall>u \<in> set (t # ts). narrow u \<and> length u = sz" and slots: "length (t # ts) < unat (heap_page_size h) + 49"
  shows "\<exists>e'. insert_all (resident_env d 1) fuel h (t # ts) e = (Ret (Some ()), e')
    \<and> stored (heap_page_size h) t 0 (e' 1)
    \<and> (\<forall>j < length ts. stored (heap_page_size h) (ts ! j) ((if d = 1 then 1 else 0) + j) (e' (unat d)))"
proof -
  let ?ps = "heap_page_size h"
  have t: "narrow t" "length t = sz" using ts by simp_all
  then have "length t \<le> length (t # ts) * sz" by simp
  from pages empty first t(1) this obtain pg' where
    1: "insert_tuple (resident_env d 1) fuel h t e = (Ret (Some ()), e(0 := set_word (e 0) 4 (m_disk_id h), 1 := pg'))"
    and pg': "slotted ?ps pg'" "filled ?ps 1 pg'" "stored ?ps t 0 pg'" "length (bp_bytes pg') = length (bp_bytes (e 1))"
      "roomy pg'" by (rule first_insertion)
  define e1 where "e1 = e(0 := set_word (e 0) 4 d, 1 := pg')"
  define k :: nat where "k = (if d = 1 then 1 else 0)"
  have pd: "unat d \<noteq> 0" "d \<noteq> 1 \<Longrightarrow> unat d \<noteq> 1"
    using d(2) word_unat_eq_iff [of d 1] by (simp_all add: unat_eq_zero)
  have at: "e1 (unat d) = (if d = 1 then pg' else e (unat d))" "e1 1 = pg'" "e1 0 = set_word (e 0) 4 d"
    using pd by (simp_all add: e1_def)
  have at_d: "slotted ?ps (e1 (unat d))" "filled ?ps k (e1 (unat d))"
    "8 + bitmap_bytes ?ps + length (t # ts) * sz \<le> length (bp_bytes (e1 (unat d)))"
    "length (bp_bytes (e1 (unat d))) < 4294967296"
    unfolding at(1) k_def using pg' first later by (simp_all add: empty_page_def)
  have "(k + length ts) * sz \<le> length (t # ts) * sz" by (intro mult_le_mono1) (simp add: k_def)
  then have room: "8 + bitmap_bytes ?ps + (k + length ts) * sz \<le> length (bp_bytes (e1 (unat d)))" using at_d(3) by linarith
  have roomy: "roomy (e1 r)" for r using pages pg'(5) by (simp add: e1_def)
  have head: "word_at (e1 0) 4 = d" using pages by (simp add: at word_at_set_word)
  have tss: "\<forall>u \<in> set ts. narrow u \<and> length u = sz" "k + length ts < unat ?ps + 49" using ts slots by (simp_all add: k_def)
  from insert_all_run [OF roomy head d(3,2) at_d(1,2) tss room at_d(4), of d 1 fuel]
  obtain e' where 2: "insert_all (resident_env d 1) fuel h ts e1 = (Ret (Some ()), e')"
    and e': "\<forall>j < length ts. stored ?ps (ts ! j) (k + j) (e' (unat d))"
      "\<forall>j u. j < k \<longrightarrow> length u = sz \<longrightarrow> stored ?ps u j (e' (unat d)) = stored ?ps u j (e1 (unat d))"
      "\<forall>r. r \<noteq> unat d \<longrightarrow> e' r = e1 r" by auto
  have "stored ?ps t 0 (e' 1)"
  proof (cases "d = 1")
    case True
    then show ?thesis using e'(2) pg'(3) t(2) at by (simp add: k_def)
  next
    case False
    then show ?thesis using e'(3) pd(2) pg'(3) at(2) by simp
  qed
  then show ?thesis using 1 2 e'(1) d(1) by (intro exI [of _ e']) (simp add: bindc_def k_def e1_def)
qed

text \<open>What a heap does on resident pages it does with the program's disk manager.\<close>

lemma pooled_life:
  assumes sys: "posix_reliable P view" and new: "names (view w) p = None" and ids: "unat (cur_disk_id m) \<noteq> INT_MAX"
    and p: "p = path_of_file m (get_disk_full_name (nm @ HEAP_DISK_SUFFIX))" and mps: "dm_page_size m \<noteq> 0"
    and pages: "\<And>r. roomy (e r)"
    and run: "insert_all (resident_env (cur_disk_id m) 1) fuel
      \<lparr>m_table_name = nm @ HEAP_DISK_SUFFIX, m_disk_id = cur_disk_id m, heap_cols = cols, heap_page_size = ps\<rparr> ts
      (e(0 := formatted (e 0))) = (out, e')"
  obtains m' w' where "heap_life (pooled_env P) fuel nm cols ps ts ((m, w), e) = (out, ((m', w'), e'))"
    and "file_at (view w') p = Some []"
proof -
  let ?d = "cur_disk_id m" and ?nm = "nm @ HEAP_DISK_SUFFIX"
  let ?h = "\<lparr>m_table_name = ?nm, m_disk_id = ?d, heap_cols = cols, heap_page_size = ps\<rparr>"
  from sys new ids p mps obtain m1 w1 i where
    c: "dm_create (pooled_env P) ?nm ((m, w), e) = (Ret (Inr ?d), ((m1, w1), e))"
    and at: "disk_at P view m1 (fs_create p i (view w)) ?d i ((m1, w1), e)"
    and n: "next_page m1 (fs_create p i (view w)) i = 1" by (rule pooled_create)
  let ?I = "disk_at P view m1 (fs_create p i (view w)) ?d i"
  have "heap_new (pooled_env P) nm cols ps ((m, w), e) = format_root (pooled_env P) ?d ?nm cols ps ((m1, w1), e)"
    using c by (intro heap_new_format) simp
  moreover obtain s2 where 2: "format_root (pooled_env P) ?d ?nm cols ps ((m1, w1), e) = (Ret ?h, s2)"
    "snd s2 = e(0 := formatted (e 0))" "?I s2"
  proof (rule follows_run)
    show "follows snd ?I (format_root (pooled_env P) ?d ?nm cols ps)
        (format_root (resident_env ?d (next_page m1 (fs_create p i (view w)) i)) ?d ?nm cols ps)"
      by (rule pooled.resident_format_root)
    show "format_root (resident_env ?d (next_page m1 (fs_create p i (view w)) i)) ?d ?nm cols ps (snd ((m1, w1), e)) =
        (Ret ?h, e(0 := formatted (e 0)))" using pages by (simp add: format_root_run)
  qed (use at in simp)
  moreover obtain s3 where 3: "insert_all (pooled_env P) fuel ?h ts s2 = (out, s3)" "snd s3 = e'" "?I s3"
  proof (rule follows_run)
    show "follows snd ?I (insert_all (pooled_env P) fuel ?h ts) (insert_all (resident_env ?d (next_page m1 (fs_create p i (view w)) i)) fuel ?h ts)"
      by (rule pooled.resident_insert_all) simp
    show "insert_all (resident_env ?d (next_page m1 (fs_create p i (view w)) i)) fuel ?h ts (snd s2) = (out, e')"
      using run 2(2) n by simp
  qed (use 2 in simp)
  ultimately have "heap_life (pooled_env P) fuel nm cols ps ts ((m, w), e) = (out, s3)"
    by (simp add: heap_life_def bindc_eqs)
  moreover have "file_at (view (snd (fst s3))) p = Some []" using 3(3) by (simp add: disk_at_def file_at_def)
  ultimately show thesis using 3(2) by (intro that [of "fst (fst s3)" "snd (fst s3)"]) (simp_all add: prod_eq_iff)
qed

lemma pooled_reopen:
  assumes sys: "posix_reliable P view" and old: "names (view w) p = Some i" and ids: "unat (cur_disk_id m) \<noteq> INT_MAX"
    and p: "p = path_of_file m (get_disk_full_name nm)"
    and whole: "dm_page_size m \<noteq> 0" "unat (dm_page_size m) dvd length (contents (view w) i)"
      "length (contents (view w) i) \<le> unat (max_disk_byte_size m)"
  obtains m' w' err s0 where "dm_create (pooled_env P) nm ((m, w), e) = (Ret (Inl err), s0)"
    and "dm_load (pooled_env P) nm s0 = (Ret (Inr (cur_disk_id m)), ((m', w'), e))"
    and "disk_at P view m' (view w) (cur_disk_id m) i ((m', w'), e)"
proof -
  let ?m = "m\<lparr>disks := AList.update (cur_disk_id m) (get_disk_full_name nm) (disks m), cur_disk_id := cur_disk_id m + 1\<rparr>"
  obtain w0 where c: "create P nm (m, w) = (Ret (Inl DISK_ALREADY_EXISTS), (m, w0))" and v0: "view w0 = view w"
    using posix_reliable.create_existing [OF sys, of w m nm i] old p by blast
  have "names (view w0) p = Some i" using old v0 by simp
  with p obtain w' where l: "load P nm (m, w0) = (Ret (Inr (cur_disk_id m)), (?m, w'))" and v: "view w' = view w0"
    using ids by (rule posix_reliable.load_run [OF sys])
  have "disk_path ?m (cur_disk_id m) = Some p" by (simp add: disk_path_def update_conv' path_of_file_def p)
  then have "disk_at P view ?m (view w) (cur_disk_id m) i ((?m, w'), e)"
    using sys v v0 old whole le_less_trans [OF whole(3) unat_uint_less] by (simp add: disk_at_def loaded_file_def)
  then show thesis using c l by (intro that [of DISK_ALREADY_EXISTS "((m, w0), e)" ?m w']) (simp_all add: on_dm_def zoom_def)
qed

lemma format_root_empties:
  assumes "\<And>r. roomy (e r)"
  shows "full_list (e(0 := formatted (e 0))) []"
    and "fst (find_free_page (resident_env d n) h (e(0 := formatted (e 0)))) = Ret None"
  using assms by (simp_all add: full_list_def formatted find_free_page_resident)

lemma pooled_reopened:
  assumes sys: "posix_reliable P view" and old: "names (view w) p = Some i" and ids: "unat (cur_disk_id m) \<noteq> INT_MAX"
    and p: "p = path_of_file m (get_disk_full_name (nm @ HEAP_DISK_SUFFIX))"
    and whole: "dm_page_size m \<noteq> 0" "unat (dm_page_size m) dvd length (contents (view w) i)"
      "length (contents (view w) i) \<le> unat (max_disk_byte_size m)"
    and pages: "\<And>r. roomy (e r)"
  obtains h s' where "heap_new (pooled_env P) nm cols ps ((m, w), e) = (Ret h, s')" and "m_disk_id h = cur_disk_id m"
    and "snd s' = e(0 := formatted (e 0))" and "view (snd (fst s')) = view w"
    and "fst (find_free_page (pooled_env P) h s') = Ret None"
proof -
  let ?d = "cur_disk_id m" and ?nm = "nm @ HEAP_DISK_SUFFIX"
  let ?h = "\<lparr>m_table_name = ?nm, m_disk_id = ?d, heap_cols = cols, heap_page_size = ps\<rparr>"
  from sys old ids p whole obtain m1 w1 err s0 where
    c: "dm_create (pooled_env P) ?nm ((m, w), e) = (Ret (Inl err), s0)"
      "dm_load (pooled_env P) ?nm s0 = (Ret (Inr ?d), ((m1, w1), e))"
    and at: "disk_at P view m1 (view w) ?d i ((m1, w1), e)" by (rule pooled_reopen)
  let ?I = "disk_at P view m1 (view w) ?d i" and ?n = "next_page m1 (view w) i"
  have new: "heap_new (pooled_env P) nm cols ps ((m, w), e) = format_root (pooled_env P) ?d ?nm cols ps ((m1, w1), e)"
    using c by (intro heap_new_format) blast
  obtain s2 where 2: "format_root (pooled_env P) ?d ?nm cols ps ((m1, w1), e) = (Ret ?h, s2)"
    "snd s2 = e(0 := formatted (e 0))" "?I s2"
  proof (rule follows_run)
    show "follows snd ?I (format_root (pooled_env P) ?d ?nm cols ps) (format_root (resident_env ?d ?n) ?d ?nm cols ps)"
      by (rule pooled.resident_format_root)
    show "format_root (resident_env ?d ?n) ?d ?nm cols ps (snd ((m1, w1), e)) = (Ret ?h, e(0 := formatted (e 0)))"
      using pages by (simp add: format_root_run)
  qed (use at in simp)
  have "follows snd ?I (find_free_page (pooled_env P) ?h) (find_free_page (resident_env ?d ?n) ?h)"
    by (rule pooled.resident_find_free_page)
  then have "fst (find_free_page (pooled_env P) ?h s2) = fst (find_free_page (resident_env ?d ?n) ?h (snd s2))"
    using 2(3) unfolding follows_def by fastforce
  then have "fst (find_free_page (pooled_env P) ?h s2) = Ret None"
    using format_root_empties(2) [where e = e, OF pages] by (simp add: 2(2))
  then show thesis using new 2 by (intro that) (simp_all add: disk_at_def)
qed

end
