(* ===== verification/Heap_Properties.thy ===== *)
theory Heap_Properties
  imports Heap_Life
begin

text \<open>
  The properties of the column types, the tuples and the heap organizer.
\<close>

section \<open>Cells and tuples\<close>

text \<open>
  Cells round trip: a cell written to memory is read back, from the same place, by the
  instance of its type, and by a virtual \<open>deserialize\<close> on any cell of its class; the memory
  around it is as before.
\<close>

theorem cell_memory_round_trip:
  assumes "cell_serialize c mem off = Ret mem'" and "get_type d = get_type c"
  shows "get_instance (get_type c) (drop off mem') = Ret c \<and> cell_deserialize d (drop off mem') = Ret c
    \<and> take off mem' = take off mem
    \<and> drop (off + length (cell_bytes c)) mem' = drop (off + length (cell_bytes c)) mem"
proof -
  have fit: "off + length (cell_bytes c) \<le> length mem" and mem': "mem' = overwrite off (cell_bytes c) mem"
    using assms(1) by (auto simp: cell_serialize_bytes mem_write_def split: if_splits)
  have "drop off mem' = cell_bytes c @ drop (off + length (cell_bytes c)) mem"
    using fit by (simp add: mem' overwrite_def)
  then have "get_instance (get_type c) (drop off mem') = Ret c" by (simp add: cell_round_trip)
  then show ?thesis using fit assms(2) by (simp add: mem' overwrite_def cell_deserialize_get_instance)
qed

theorem cell_memory_round_trip_witness:
  "\<exists>mem. cell_serialize (Uint16TType 515) [9, 9, 9, 9] 1 = Ret mem
    \<and> get_instance UINT16_T (drop 1 mem) = Ret (Uint16TType 515)"
proof -
  obtain mem where "cell_serialize (Uint16TType 515) [9, 9, 9, 9] 1 = Ret mem"
    by (simp add: cell_serialize_bytes mem_write_def)
  then show ?thesis using cell_memory_round_trip [of "Uint16TType 515" _ 1 mem "Uint16TType 0"] by auto
qed

text \<open>
  C33. Tuples of single-byte columns round trip: serialised into room of their size they are read
  back column by column.
\<close>

theorem narrow_tuple_round_trip:
  assumes "narrow cells" and "length cells \<le> length dest"
  shows "\<exists>mem. tuple_serialize cells dest = Ret mem \<and> length mem = length dest
    \<and> read_cells (map get_type cells) mem = Ret cells"
  using serialize_narrow [OF assms(1), of 0 dest] assms read_cells_narrow [OF assms(1)]
  by (simp add: tuple_serialize_def overwrite_def)

theorem narrow_tuple_round_trip_witness:
  "\<exists>mem. tuple_serialize [Uint8TType 1, Uint8TType 2] [0, 0, 0] = Ret mem
    \<and> read_cells [UINT8_T, UINT8_T] mem = Ret [Uint8TType 1, Uint8TType 2]"
  using narrow_tuple_round_trip [of "[Uint8TType 1, Uint8TType 2]" "[0, 0, 0]"] by (auto simp: narrow_def)

text \<open>
  C34. Wider columns are lost: a cell followed by three more is written as its low byte only, so
  tuples that differ in the other bytes of a cell give the same memory.
\<close>

theorem serialize_lossy:
  assumes "low_byte c = low_byte c'" and "3 \<le> length ys"
    and "length xs + 1 + length ys + 3 \<le> length dest"
  shows "tuple_serialize (xs @ c # ys) dest = tuple_serialize (xs @ c' # ys) dest"
proof -
  obtain mem where mem: "serialize_from xs dest 0 = Ret mem" "length mem = length dest"
    using serialize_from_eq [of 0 xs dest] assms(3) by auto
  let ?k = "length xs"
  have w: "1 \<le> length (cell_bytes d)" "?k + length (cell_bytes d) \<le> length mem"
    "length (cell_bytes d) \<le> 4" for d
    using length_cell_bytes [of d] assms(2,3) mem(2) by linarith+
  have first: "cell_bytes d ! 0 = low_byte d" for d
    using w(1) [of d] by (cases "cell_bytes d") (simp_all add: low_byte_def)
  have "serialize_from ys (overwrite ?k (cell_bytes c) mem) (Suc ?k) =
      serialize_from ys (overwrite ?k (cell_bytes c') mem) (Suc ?k)"
  proof (rule serialize_from_covers)
    show "\<forall>i < length (overwrite ?k (cell_bytes c) mem). i < Suc ?k \<or> Suc ?k + length ys \<le> i \<longrightarrow>
        overwrite ?k (cell_bytes c) mem ! i = overwrite ?k (cell_bytes c') mem ! i"
      using w [of c] w [of c'] first assms(1,2) by (auto simp: nth_overwrite less_Suc_eq)
  qed (use w in simp)
  then show ?thesis
    using mem w by (simp add: tuple_serialize_def serialize_from_append cell_serialize_bytes mem_write_def)
qed

theorem serialize_lossy_witness:
  "tuple_serialize ([] @ Uint32TType 1 # [Uint8TType 5, Uint8TType 6, Uint8TType 7]) (replicate 7 0) =
    tuple_serialize ([] @ Uint32TType 257 # [Uint8TType 5, Uint8TType 6, Uint8TType 7]) (replicate 7 0)"
  by (rule serialize_lossy) (simp_all add: low_byte_def le_bytes_def upt_rec)

section \<open>The heap with the program's managers\<close>

text \<open>
  C28. With the program's own managers a heap cannot be made: on a reliable system the constructor
  creates and loads its disk, and then \<open>BufferManager::pin\<close>, whose body is commented out, runs
  off its end; the empty disk file stays behind.
\<close>

theorem heap_constructor_undefined:
  assumes sys: "posix_reliable P view" and new: "names (view w) p = None"
    and p: "p = path_of_file m (get_disk_full_name (table_name @ HEAP_DISK_SUFFIX))"
    and ids: "unat (cur_disk_id m) \<noteq> INT_MAX"
  shows "\<exists>m' w'. heap_new (lewsql_env P) table_name cols ps ((m, w), b) =
      (Fault (Undefined Missing_Return), ((m', w'), b))
    \<and> file_at (view w') p = Some [] \<and> disk_path m' (cur_disk_id m) = Some p"
proof -
  let ?nm = "table_name @ HEAP_DISK_SUFFIX"
  let ?m = "m\<lparr>disks := AList.update (cur_disk_id m) (get_disk_full_name ?nm) (disks m),
    cur_disk_id := cur_disk_id m + 1\<rparr>"
  obtain w' i where c: "create P ?nm (m, w) = (Ret (Inr (cur_disk_id m)), (?m, w'))"
    and v: "view w' = fs_create p i (view w)"
    using p new ids by (rule posix_reliable.create_run [OF sys])
  have "dm_create (lewsql_env P) ?nm ((m, w), b) = (Ret (Inr (cur_disk_id m)), ((?m, w'), b))"
    using c by (simp add: lewsql_env_def on_dm_eq)
  then have "heap_new (lewsql_env P) table_name cols ps ((m, w), b) =
      (Fault (Undefined Missing_Return), ((?m, w'), b))"
    by (simp add: heap_new_def Let_def bindc_eqs pin_lewsql)
  moreover have "file_at (view w') p = Some []" using v by (simp add: file_at_def)
  moreover have "disk_path ?m (cur_disk_id m) = Some p"
    by (simp add: disk_path_def update_conv' path_of_file_def p)
  ultimately show ?thesis by blast
qed

theorem heap_constructor_undefined_witness:
  "\<exists>s. heap_new (lewsql_env calm_posix) ''t'' [UINT8_T] 512
     ((pdm_new ''d'' 2 16, \<lparr>sim_names = [], sim_data = [], sim_fds = [], sim_faults = []\<rparr>), buffer_manager_new ()) =
    (Fault (Undefined Missing_Return), s)"
  using heap_constructor_undefined [OF calm.posix_reliable_axioms,
      of "\<lparr>sim_names = [], sim_data = [], sim_fds = [], sim_faults = []\<rparr>" _ "pdm_new ''d'' 2 16" "''t''"
        "[UINT8_T]" 512 "buffer_manager_new ()"]
  by (auto simp: pdm_new_eq)

section \<open>The heap on resident pages\<close>

text \<open>
  The constructor formats the root page: with every page in memory it stamps it, makes the
  free list and the list of full pages empty, and leaves the other pages alone.
\<close>

theorem heap_constructor_formats_root:
  assumes "\<And>r. roomy (e r)"
  shows "\<exists>h e'. heap_new (resident_env d n) nm cols ps e = (Ret h, e') \<and> m_disk_id h = d
    \<and> word_at (e' 0) 0 = HEAP_PAGE_START_STAMP \<and> find_free_page (resident_env d n) h e' = (Ret None, e')
    \<and> full_list e' [] \<and> (\<forall>r. roomy (e' r)) \<and> (\<forall>r. r \<noteq> 0 \<longrightarrow> e' r = e r)"
proof -
  let ?p1 = "set_word (e 0) 0 HEAP_PAGE_START_STAMP"
  let ?p2 = "set_word ?p1 4 (- 1)"
  let ?p3 = "set_word ?p2 8 (- 1)"
  have r: "roomy ?p1" "roomy ?p2" "roomy ?p3" using assms by simp_all
  let ?h = "\<lparr>m_table_name = nm @ HEAP_DISK_SUFFIX, m_disk_id = d, heap_cols = cols, heap_page_size = ps\<rparr>"
  have "heap_new (resident_env d n) nm cols ps e = (Ret ?h, e(0 := ?p3))"
    using assms r by (simp add: heap_new_def Let_def heap_offsets bindc_def put_word_run)
  moreover have "word_at ?p3 0 = HEAP_PAGE_START_STAMP" "word_at ?p3 4 = - 1" "word_at ?p3 8 = - 1"
    using assms r by (simp_all add: word_at_set_word word_at_set_word_other)
  moreover have "roomy ((e(0 := ?p3)) q)" for q using assms r by simp
  ultimately show ?thesis
    by (intro exI [of _ ?h] exI [of _ "e(0 := ?p3)"]) (simp add: find_free_page_resident full_list_def)
qed

text \<open>Pages of 200 bytes, all zero; \<open>root\<close> is the root page.\<close>

definition blank_page :: buffer_page where
  "blank_page = buffer_page_new (replicate 200 0) 71 0 0 0 0 False"

definition blank_frames :: "buffer_page \<Rightarrow> frames" where
  "blank_frames root = (\<lambda>r. if r = 0 then root else blank_page)"

lemma length_blank [simp]: "length (bp_bytes blank_page) = 200"
  by (simp add: blank_page_def buffer_page_new_def)

lemma roomy_blank: "roomy blank_page"
  by (simp add: roomy_def blank_page_def page_ok_new) (simp add: buffer_page_new_def)

lemma le_word_zeros: "le_word (replicate k 0) = 0"
  by (induction k) simp_all

lemma word_at_blank: "off \<le> 196 \<Longrightarrow> word_at blank_page off = 0"
  by (simp add: word_at_def blank_page_def buffer_page_new_def le_word_zeros)

theorem heap_constructor_formats_root_witness:
  "\<exists>h e. heap_new (resident_env 3 1) ''t'' [] 71 (blank_frames blank_page) = (Ret h, e)
    \<and> find_free_page (resident_env 3 1) h e = (Ret None, e)"
  using heap_constructor_formats_root [of "blank_frames blank_page" 3 1 "''t''" "[]" 71]
  by (auto simp: blank_frames_def roomy_blank)

text \<open>
  C8. An insertion of a tuple of single-byte columns into a heap whose page size is 7 modulo 8, with
  every page in memory (\<open>resident_env\<close>, in the place of the managers): when the free list is empty and
  the page that \<open>extend\<close> names has room and at least two free slots, the insertion returns, the first
  free slot is marked, the cells of the tuple are read back from that slot, and no other byte of the
  page's slots and no other page but the root changes.
\<close>

theorem insert_stores_tuple:
  assumes pages: "\<And>r. roomy (e r)" and empty: "word_at (e 0) 4 = - 1" and root: "n \<noteq> 0"
    and s: "slotted (heap_page_size h) (e (unat n))" and t: "narrow t"
    and k: "first_False (slots (heap_page_size h) (e (unat n))) = Some k"
    and two: "2 \<le> count_list (slots (heap_page_size h) (e (unat n))) False"
    and off: "off = slot_offset (heap_page_size h) t k"
    and fit: "off + length t \<le> length (bp_bytes (e (unat n)))" "length (bp_bytes (e (unat n))) < 4294967296"
  shows "\<exists>e'. insert_tuple (resident_env d n) fuel h t e = (Ret (Some ()), e')
    \<and> slots (heap_page_size h) (e' (unat n)) = (slots (heap_page_size h) (e (unat n)))[k := True]
    \<and> read_cells (map get_type t) (drop off (bp_bytes (e' (unat n)))) = Ret t
    \<and> (\<forall>i. 8 + bitmap_bytes (heap_page_size h) \<le> i \<and> i < length (bp_bytes (e (unat n)))
        \<and> \<not> (off \<le> i \<and> i < off + length t) \<longrightarrow> bp_bytes (e' (unat n)) ! i = bp_bytes (e (unat n)) ! i)
    \<and> (\<forall>r. r \<noteq> 0 \<and> r \<noteq> unat n \<longrightarrow> e' r = e r)"
proof -
  let ?ps = "heap_page_size h" and ?pg = "e (unat n)"
  have "slot_offset ?ps t k + length t \<le> length (bp_bytes ?pg)" using fit(1) off by simp
  with pages empty root s t k two obtain bm where
    run: "insert_tuple (resident_env d n) fuel h t e =
      (Ret (Some ()), e(0 := set_word (e 0) 4 (m_disk_id h), unat n := inserted ?ps k t bm ?pg))"
    and bm: "wf_bitmap bm" "num_bits bm = ?ps + 49" "bits bm = (slots ?ps ?pg)[k := True]"
    using fit(2) by (rule insert_tuple_run)
  let ?m = "set_slots bm ?pg"
  have mem: "length (bitmap_mem bm) = bitmap_bytes ?ps"
    using bm slotted_sizes(1) [OF s] by (simp add: wf_bitmap_def bitmap_bytes_def)
  then have len: "length (bp_bytes ?m) = length (bp_bytes ?pg)" using s by (simp add: set_slots_def slotted_def)
  have fit': "off + length t \<le> length (bp_bytes ?m)" using fit(1) len by simp
  have after: "8 + bitmap_bytes ?ps \<le> off" by (simp add: off slot_offset_def)
  note sm = slots_set_slots [OF s bm(1,2)]
  have ins: "inserted ?ps k t bm ?pg = put_tuple off t ?m" by (simp add: inserted_def off)
  have "slots ?ps (put_tuple off t ?m) = (slots ?ps ?pg)[k := True]"
    using slots_put_tuple(1) [OF sm(2) after fit'] sm(1) bm(3) by simp
  moreover have "drop off (bp_bytes (put_tuple off t ?m)) = map low_byte t @ drop (off + length t) (bp_bytes ?m)"
    using fit' by (simp add: put_tuple_def overwrite_def)
  then have "read_cells (map get_type t) (drop off (bp_bytes (put_tuple off t ?m))) = Ret t"
    using read_cells_narrow [OF t] by simp
  moreover have "bp_bytes (put_tuple off t ?m) ! i = bp_bytes ?pg ! i"
    if "8 + bitmap_bytes ?ps \<le> i" "i < length (bp_bytes ?pg)" "\<not> (off \<le> i \<and> i < off + length t)" for i
  proof -
    have "bp_bytes (put_tuple off t ?m) ! i = bp_bytes ?m ! i"
      using that fit' len by (auto simp: put_tuple_def nth_overwrite)
    also have "\<dots> = bp_bytes ?pg ! i"
      using that mem s by (simp add: set_slots_def nth_overwrite slotted_def)
    finally show ?thesis .
  qed
  ultimately show ?thesis
    using run by (intro exI [of _ "e(0 := set_word (e 0) 4 (m_disk_id h), unat n := put_tuple off t ?m)"])
      (simp add: ins)
qed

definition empty_root :: buffer_page where
  "empty_root = set_word blank_page 4 (- 1)"

definition small_heap :: "int32 \<Rightarrow> heap" where
  "small_heap d = \<lparr>m_table_name = ''t.heap'', m_disk_id = d, heap_cols = [UINT8_T], heap_page_size = 71\<rparr>"

lemma blank_roots: "roomy (blank_frames blank_page r)" "roomy (blank_frames empty_root r)"
  by (simp_all add: blank_frames_def empty_root_def roomy_blank)

lemma empty_root_free: "word_at (blank_frames empty_root 0) 4 = - 1"
  by (simp add: blank_frames_def empty_root_def word_at_set_word roomy_blank)

lemma slots_blank: "slots 71 blank_page = replicate 120 False"
proof (rule nth_equalityI)
  fix i
  assume "i < length (slots 71 blank_page)"
  then have i: "i < 120" by (simp add: slots_def page_bitmap_def)
  then have "i div 8 < 15" by (simp add: div_less_mono)
  then show "slots 71 blank_page ! i = replicate 120 False ! i"
    using i by (simp add: slots_def nth_bits page_bitmap_def mem_bit_def bitmap_bytes_def blank_page_def
        buffer_page_new_def)
qed (simp add: slots_def page_bitmap_def)

lemma blank_slotted: "slotted 71 blank_page"
  by (simp add: slotted_def bitmap_bytes_def blank_page_def buffer_page_new_def)

lemma blank_free: "first_False (slots 71 blank_page) = Some 0" "2 \<le> count_list (slots 71 blank_page) False"
proof -
  have "count_list (replicate k False) False = k" for k by (induction k) simp_all
  then show "2 \<le> count_list (slots 71 blank_page) False" by (simp add: slots_blank)
  show "first_False (slots 71 blank_page) = Some 0" by (simp add: slots_blank first_False_def numeral_eq_Suc)
qed

theorem insert_stores_tuple_witness:
  "\<exists>e'. insert_tuple (resident_env 3 1) 0 (small_heap 3) [Uint8TType 9] (blank_frames empty_root) = (Ret (Some ()), e')
    \<and> read_cells [UINT8_T] (drop 23 (bp_bytes (e' 1))) = Ret [Uint8TType 9]"
proof -
  have "\<exists>e'. insert_tuple (resident_env 3 1) 0 (small_heap 3) [Uint8TType 9] (blank_frames empty_root) = (Ret (Some ()), e')
    \<and> slots (heap_page_size (small_heap 3)) (e' (unat (1 :: int32))) =
        (slots (heap_page_size (small_heap 3)) (blank_frames empty_root (unat (1 :: int32))))[0 := True]
    \<and> read_cells (map get_type [Uint8TType 9]) (drop 23 (bp_bytes (e' (unat (1 :: int32))))) = Ret [Uint8TType 9]
    \<and> (\<forall>i. 8 + bitmap_bytes (heap_page_size (small_heap 3)) \<le> i
        \<and> i < length (bp_bytes (blank_frames empty_root (unat (1 :: int32))))
        \<and> \<not> (23 \<le> i \<and> i < 23 + length [Uint8TType 9]) \<longrightarrow>
          bp_bytes (e' (unat (1 :: int32))) ! i = bp_bytes (blank_frames empty_root (unat (1 :: int32))) ! i)
    \<and> (\<forall>r. r \<noteq> 0 \<and> r \<noteq> unat (1 :: int32) \<longrightarrow> e' r = blank_frames empty_root r)"
    using blank_roots(2) empty_root_free
    by (rule insert_stores_tuple)
      (simp_all add: small_heap_def blank_frames_def blank_slotted blank_free narrow_def slot_offset_def
        bitmap_bytes_def)
  then show ?thesis by auto
qed

text \<open>
  C24. An insertion that returns, with whatever managers, is one into a heap whose page size is 7
  modulo 8: the bitmap is given the page size plus 49 bits, and a bitmap of another size faults
  when its bits are counted.
\<close>

theorem insert_needs_page_size:
  assumes "insert_tuple E fuel h t s = (Ret x, s')"
  shows "unat (heap_page_size h) mod 8 = 7"
proof -
  obtain r s1 y s2 where "claim_slot E r (heap_bitmap_size (heap_page_size h)) s1 = (Ret y, s2)"
    using assms unfolding insert_tuple_def Let_def by (elim bindc_RetE, intro that)
  then have "8 dvd unat (heap_page_size h + 49)"
    using claim_slot_Ret by (metis heap_bitmap_size_eq)
  then have "unat (heap_page_size h + 49) mod 8 = 0" by (simp add: dvd_eq_mod_eq_0)
  moreover have "unat (heap_page_size h + 49) = (unat (heap_page_size h) + 49) mod 4294967296"
    by (simp add: unat_word_ariths)
  moreover have "(unat (heap_page_size h) + 49) mod 4294967296 mod 8 = (unat (heap_page_size h) + 49) mod 8"
    by (rule mod_mod_cancel) simp
  ultimately have "(unat (heap_page_size h) + 49) mod 8 = 0" by simp
  then show ?thesis by presburger
qed

theorem insert_needs_page_size_witness: "unat (heap_page_size (small_heap 3)) mod 8 = 7"
proof -
  let ?h = "small_heap 3" and ?e = "blank_frames empty_root" and ?t = "[Uint8TType 9]"
  have side: "(1 :: int32) \<noteq> 0" "slotted (heap_page_size ?h) (?e (unat (1 :: int32)))" "narrow ?t"
    "first_False (slots (heap_page_size ?h) (?e (unat (1 :: int32)))) = Some 0"
    "2 \<le> count_list (slots (heap_page_size ?h) (?e (unat (1 :: int32)))) False"
    "slot_offset (heap_page_size ?h) ?t 0 + length ?t \<le> length (bp_bytes (?e (unat (1 :: int32))))"
    "length (bp_bytes (?e (unat (1 :: int32)))) < 4294967296"
    by (simp_all add: small_heap_def blank_frames_def blank_slotted blank_free narrow_def slot_offset_def
        bitmap_bytes_def)
  obtain bm where "insert_tuple (resident_env 3 1) 0 ?h ?t ?e =
      (Ret (Some ()), ?e(0 := set_word (?e 0) 4 (m_disk_id ?h),
         unat (1 :: int32) := inserted (heap_page_size ?h) 0 ?t bm (?e (unat (1 :: int32)))))"
    using blank_roots(2) empty_root_free side by (rule insert_tuple_run [where d = 3 and fuel = 0])
  then show ?thesis by (rule insert_needs_page_size)
qed

text \<open>
  The free list is given the id of the disk, not the page: on the first disk, whose id is 0,
  the root then names itself as the free page, and every later insertion into the heap, on
  whatever pages and tuple, fails its assertion.
\<close>

theorem second_insert_aborts:
  assumes "\<And>r. roomy (e r)" and "word_at (e 0) 4 = - 1" and "m_disk_id h = 0"
    and "choose_page (resident_env d n) h e = (out, e1)"
    and "\<And>r. roomy (e2 r)" and "e2 0 = e1 0"
  shows "out = Ret n \<and> insert_tuple (resident_env d n') fuel h t e2 = (Fault Assertion_Failed, e2)"
proof -
  have "choose_page (resident_env d n) h e = (Ret n, e(0 := set_word (e 0) 4 (m_disk_id h)))"
    using assms(1,2) by (rule choose_page_resident)
  then have "out = Ret n" "e1 = e(0 := set_word (e 0) 4 0)" using assms(3,4) by simp_all
  moreover from this(2) have "word_at (e2 0) 4 = 0" using assms(1,6) by (simp add: word_at_set_word)
  ultimately show ?thesis
    by (simp add: insert_tuple_def choose_page_def Let_def find_free_page_resident [OF assms(5)] bindc_def ROOT_PAGE_def)
qed

theorem second_insert_aborts_witness:
  "insert_tuple (resident_env 0 2) 5 (small_heap 0) [Uint8TType 9]
     (snd (choose_page (resident_env 0 1) (small_heap 0) (blank_frames empty_root))) =
   (Fault Assertion_Failed, snd (choose_page (resident_env 0 1) (small_heap 0) (blank_frames empty_root)))"
proof -
  obtain out e1 where 1: "choose_page (resident_env 0 1) (small_heap 0) (blank_frames empty_root) = (out, e1)"
    by (metis surj_pair)
  moreover have "choose_page (resident_env 0 1) (small_heap 0) (blank_frames empty_root) =
      (Ret 1, (blank_frames empty_root)(0 := set_word (blank_frames empty_root 0) 4 (m_disk_id (small_heap 0))))"
    using blank_roots(2) empty_root_free by (rule choose_page_resident)
  ultimately have r: "roomy (e1 r)" for r using blank_roots(2) by auto
  have "m_disk_id (small_heap 0) = 0" by (simp add: small_heap_def)
  with blank_roots(2) empty_root_free have "out = Ret 1
      \<and> insert_tuple (resident_env 0 2) 5 (small_heap 0) [Uint8TType 9] e1 = (Fault Assertion_Failed, e1)"
    using 1 r refl by (rule second_insert_aborts)
  then show ?thesis using 1 by simp
qed

text \<open>
  C9. A sequence of insertions into the page at the head of the free list, with every page in memory
  (\<open>resident_env\<close>), of tuples of single-byte columns and of one size, into a heap whose page size is 7
  modulo 8: as long as the tuples fit the page and a slot stays free, every insertion returns, the
  slots are taken from the first on, every tuple is read back from its slot after the last insertion,
  the bytes of the tuples of that size that were in the page are still there, and no other page
  changes.
\<close>

theorem insertions_all_stored:
  assumes "\<And>r. roomy (e r)" and "word_at (e 0) 4 = p" and "p \<noteq> - 1" "p \<noteq> 0"
    and "slotted (heap_page_size h) (e (unat p))" and "filled (heap_page_size h) k (e (unat p))"
    and ts: "\<forall>t \<in> set ts. narrow t \<and> length t = sz" and "k + length ts < unat (heap_page_size h) + 49"
    and "8 + bitmap_bytes (heap_page_size h) + (k + length ts) * sz \<le> length (bp_bytes (e (unat p)))"
    and "length (bp_bytes (e (unat p))) < 4294967296"
  shows "\<exists>e'. insert_all (resident_env d n) fuel h ts e = (Ret (Some ()), e')
    \<and> filled (heap_page_size h) (k + length ts) (e' (unat p))
    \<and> (\<forall>j < length ts. read_cells (map get_type (ts ! j))
        (drop (slot_offset (heap_page_size h) (ts ! j) (k + j)) (bp_bytes (e' (unat p)))) = Ret (ts ! j))
    \<and> (\<forall>j u. j < k \<longrightarrow> length u = sz \<longrightarrow>
        stored (heap_page_size h) u j (e' (unat p)) = stored (heap_page_size h) u j (e (unat p)))
    \<and> (\<forall>r. r \<noteq> unat p \<longrightarrow> e' r = e r)"
proof -
  from insert_all_run [where d = d and n = n and fuel = fuel, OF assms] obtain e' where
    e': "insert_all (resident_env d n) fuel h ts e = (Ret (Some ()), e')"
    "filled (heap_page_size h) (k + length ts) (e' (unat p))"
    "\<forall>j < length ts. stored (heap_page_size h) (ts ! j) (k + j) (e' (unat p))"
    "\<forall>j u. j < k \<longrightarrow> length u = sz \<longrightarrow>
      stored (heap_page_size h) u j (e' (unat p)) = stored (heap_page_size h) u j (e (unat p))"
    "\<forall>r. r \<noteq> unat p \<longrightarrow> e' r = e r" by auto
  have "read_cells (map get_type (ts ! j))
      (drop (slot_offset (heap_page_size h) (ts ! j) (k + j)) (bp_bytes (e' (unat p)))) = Ret (ts ! j)"
    if "j < length ts" for j
    using stored_read e'(3) ts that by (metis nth_mem)
  then show ?thesis using e' by auto
qed

text \<open>A heap with a blank page at the head of its free list.\<close>

definition one_free :: "buffer_page \<Rightarrow> frames" where
  "one_free pg = (\<lambda>r. if r = 0 then set_word blank_page 4 2 else pg)"

lemma one_free_roomy: "roomy pg \<Longrightarrow> roomy (one_free pg r)"
  by (simp add: one_free_def roomy_blank)

lemma one_free_pages: "word_at (one_free pg 0) 4 = 2" "one_free pg (unat (2 :: int32)) = pg"
  by (simp_all add: one_free_def word_at_set_word roomy_blank)

lemma filled_blank: "filled 71 0 blank_page"
  by (simp add: filled_def slots_blank)

theorem insertions_all_stored_witness:
  "\<exists>e'. insert_all (resident_env 3 1) 0 (small_heap 3) [[Uint8TType 9], [Uint8TType 7]] (one_free blank_page) =
      (Ret (Some ()), e')
    \<and> read_cells [UINT8_T] (drop 23 (bp_bytes (e' 2))) = Ret [Uint8TType 9]
    \<and> read_cells [UINT8_T] (drop 24 (bp_bytes (e' 2))) = Ret [Uint8TType 7]"
proof -
  let ?h = "small_heap 3" and ?e = "one_free blank_page" and ?ts = "[[Uint8TType 9], [Uint8TType 7]]"
  have side: "(2 :: int32) \<noteq> - 1" "(2 :: int32) \<noteq> 0"
    "slotted (heap_page_size ?h) (?e (unat (2 :: int32)))" "filled (heap_page_size ?h) 0 (?e (unat (2 :: int32)))"
    "\<forall>t \<in> set ?ts. narrow t \<and> length t = 1" "0 + length ?ts < unat (heap_page_size ?h) + 49"
    "8 + bitmap_bytes (heap_page_size ?h) + (0 + length ?ts) * 1 \<le> length (bp_bytes (?e (unat (2 :: int32))))"
    "length (bp_bytes (?e (unat (2 :: int32)))) < 4294967296"
    by (simp_all only: one_free_pages small_heap_def heap.select_convs blank_slotted filled_blank)
      (simp_all add: narrow_def bitmap_bytes_def)
  from insertions_all_stored [OF one_free_roomy [OF roomy_blank] one_free_pages(1) side, of 3 1 0]
  obtain e' where e': "insert_all (resident_env 3 1) 0 ?h ?ts ?e = (Ret (Some ()), e')"
    "\<forall>j < length ?ts. read_cells (map get_type (?ts ! j))
      (drop (slot_offset (heap_page_size ?h) (?ts ! j) (0 + j)) (bp_bytes (e' (unat (2 :: int32))))) = Ret (?ts ! j)"
    by auto
  show ?thesis using e'(1) e'(2) [rule_format, of 0] e'(2) [rule_format, of 1]
    by (simp add: slot_offset_def small_heap_def bitmap_bytes_def)
qed

text \<open>
  C22. A page is never filled: its bitmap has 49 slots more than the page has bytes.  With every page in
  memory (\<open>resident_env\<close>), a page at the head of the free list whose memory is one page of a size
  that is 7 modulo 8, empty at first and given tuples of single-byte columns, all of the same size and
  not empty, takes as many of them as fit behind the bitmap; the next insertion marks a further slot,
  writes behind the page, and slots are still free.
\<close>

theorem page_overrun_before_full:
  assumes pages: "\<And>r. roomy (e r)" and head: "word_at (e 0) 4 = p" and p: "p \<noteq> - 1" "p \<noteq> 0"
    and s: "slotted (heap_page_size h) (e (unat p))" and none: "filled (heap_page_size h) 0 (e (unat p))"
    and tight: "length (bp_bytes (e (unat p))) = unat (heap_page_size h)"
    and ts: "\<forall>t \<in> set ts. narrow t \<and> length t = sz" and sz: "0 < sz"
    and many: "(unat (heap_page_size h) - 8 - bitmap_bytes (heap_page_size h)) div sz < length ts"
  shows "\<exists>e'. insert_all (resident_env d n) fuel h ts e = (Fault (Undefined Out_Of_Bounds), e')
    \<and> False \<in> set (slots (heap_page_size h) (e' (unat p)))"
proof -
  let ?ps = "heap_page_size h" and ?r = "unat p"
  define m where "m = (unat ?ps - 8 - bitmap_bytes ?ps) div sz"
  have room: "8 + bitmap_bytes ?ps \<le> unat ?ps" using s tight by (simp add: slotted_def)
  note cap = capacity_fits [OF room sz m_def]
  have few: "m + 2 \<le> unat ?ps + 49" unfolding m_def using room sz by (rule capacity_below_slots)
  obtain us t vs where split: "ts = us @ t # vs" "length us = m"
    using many unfolding m_def [symmetric] by (metis id_take_nth_drop length_take less_imp_le_nat min.absorb2)
  have us: "\<forall>t \<in> set us. narrow t \<and> length t = sz" and t: "narrow t" "length t = sz"
    using ts split(1) by auto
  obtain e1 where run: "insert_all (resident_env d n) fuel h us e = (Ret (Some ()), e1)"
    and e1: "filled ?ps m (e1 ?r)" "slotted ?ps (e1 ?r)" "\<forall>r. roomy (e1 r)" "word_at (e1 0) 4 = p"
      "length (bp_bytes (e1 ?r)) = unat ?ps"
    using pages head p s none us few cap(1) split(2) tight by (rule insert_all_fills [where d = d and n = n and fuel = fuel])
  have out: "length (bp_bytes (e1 ?r)) < slot_offset ?ps t m + length t" "slot_offset ?ps t m \<le> unat ?ps"
    using cap e1(5) t(2) by (simp_all add: slot_offset_def)
  have ne: "t \<noteq> []" using t(2) sz by auto
  from e1(3) [rule_format] e1(4) p e1(2,1) few t(1) out obtain e2 where
    "insert_tuple (resident_env d n) fuel h t e1 = (Fault (Undefined Out_Of_Bounds), e2)"
    and free: "False \<in> set (slots ?ps (e2 ?r))"
    using ne by (rule insert_tuple_overruns [where d = d and n = n and fuel = fuel])
  then have "insert_all (resident_env d n) fuel h ts e = (Fault (Undefined Out_Of_Bounds), e2)"
    using insert_all_append [OF run, of "t # vs"] split(1) by (simp add: bindc_def)
  then show ?thesis using free by blast
qed

definition tight_page :: buffer_page where
  "tight_page = buffer_page_new (replicate 71 0) 71 0 0 0 0 False"

lemma tight_same_slots: "slots 71 tight_page = slots 71 blank_page"
  by (simp add: slots_def page_bitmap_def tight_page_def blank_page_def buffer_page_new_def bitmap_bytes_def)

lemma tight: "slotted 71 tight_page" "filled 71 0 tight_page" "length (bp_bytes tight_page) = 71" "roomy tight_page"
proof -
  show "slotted 71 tight_page" by (simp add: slotted_def bitmap_bytes_def tight_page_def buffer_page_new_def)
  show "filled 71 0 tight_page" using filled_blank by (simp add: filled_def tight_same_slots)
  show "length (bp_bytes tight_page) = 71" by (simp add: tight_page_def buffer_page_new_def)
  show "roomy tight_page" by (simp add: roomy_def tight_page_def page_ok_new) (simp add: buffer_page_new_def)
qed

text \<open>A page of 71 bytes holds 48 tuples of one byte; its bitmap has 120 slots.\<close>

theorem page_overrun_before_full_witness:
  "\<exists>e'. insert_all (resident_env 3 1) 0 (small_heap 3) (replicate 49 [Uint8TType 9]) (one_free tight_page) =
      (Fault (Undefined Out_Of_Bounds), e')
    \<and> False \<in> set (slots 71 (e' 2))"
proof -
  let ?h = "small_heap 3" and ?e = "one_free tight_page" and ?ts = "replicate 49 [Uint8TType 9]"
  have side: "(2 :: int32) \<noteq> - 1" "(2 :: int32) \<noteq> 0"
    "slotted (heap_page_size ?h) (?e (unat (2 :: int32)))" "filled (heap_page_size ?h) 0 (?e (unat (2 :: int32)))"
    "length (bp_bytes (?e (unat (2 :: int32)))) = unat (heap_page_size ?h)"
    "\<forall>t \<in> set ?ts. narrow t \<and> length t = 1" "0 < (1 :: nat)"
    "(unat (heap_page_size ?h) - 8 - bitmap_bytes (heap_page_size ?h)) div 1 < length ?ts"
    by (simp_all only: one_free_pages small_heap_def heap.select_convs tight(1,2,3))
      (simp_all add: narrow_def bitmap_bytes_def)
  from page_overrun_before_full [OF one_free_roomy [OF tight(4)] one_free_pages(1) side, of 3 1 0]
  show ?thesis by (simp add: small_heap_def)
qed

section \<open>The list of full pages\<close>

text \<open>
  C17. Appending to the list of full pages, with every page in memory (\<open>resident_env\<close>): when the list is
  well formed and the new page is not in it and its own link is -1 (which no code sets), the walk
  ends, within as many steps as the list is long, and the list is the old one with the page at its
  end.
\<close>

theorem append_full_list:
  assumes pages: "\<And>r. roomy (e r)" and fl: "full_list e ps" and fuel: "length ps \<le> fuel"
    and new: "p \<notin> set ps" "p \<noteq> 0" "p \<noteq> - 1" "full_link e p = - 1"
  shows "\<exists>e'. append_to_full_pages (resident_env d n) fuel h p e = (Ret (Some ()), e')
    \<and> full_list e' (ps @ [p])"
proof (cases ps)
  case Nil
  let ?e = "e(0 := set_word (e 0) 8 p)"
  have "append_to_full_pages (resident_env d n) fuel h p e = (Ret (Some ()), ?e)"
    using append_run [OF pages fl fuel] Nil by simp
  moreover have "unat p \<noteq> 0" using new(2) by (simp add: unat_eq_zero)
  then have "full_list ?e (ps @ [p])"
    using Nil new pages by (auto simp: full_list_def word_at_set_word)
  ultimately show ?thesis by blast
next
  case (Cons q qs)
  let ?l = "unat (last ps)"
  let ?e = "e(?l := set_word (e ?l) 4 p)"
  have "append_to_full_pages (resident_env d n) fuel h p e = (Ret (Some ()), ?e)"
    using append_run [OF pages fl fuel] Cons by simp
  moreover have "linked ?e (ps @ [p])"
    using fl new Cons pages by (intro linked_append) (auto simp: full_list_def)
  moreover have "?l \<noteq> 0"
    using fl Cons last_in_set [of ps] by (auto simp: full_list_def unat_eq_zero)
  ultimately show ?thesis using fl new Cons by (intro exI [of _ ?e]) (auto simp: full_list_def)
qed


theorem append_full_list_witness:
  "\<exists>e'. append_to_full_pages (resident_env 3 1) 1 (small_heap 3) 5
      ((blank_frames (set_word empty_root 8 2))(2 := empty_root, 5 := empty_root)) = (Ret (Some ()), e')
    \<and> full_list e' ([2] @ [5])"
proof -
  let ?e = "(blank_frames (set_word empty_root 8 2))(2 := empty_root, 5 := empty_root)"
  have r: "roomy (?e r)" for r by (simp add: blank_frames_def empty_root_def roomy_blank)
  have w: "word_at empty_root 4 = - 1" "word_at (set_word empty_root 8 2) 8 = 2"
    by (simp_all add: empty_root_def word_at_set_word roomy_blank)
  have "full_list ?e [2]" using w by (simp add: full_list_def blank_frames_def)
  then show ?thesis using w by (intro append_full_list r) simp_all
qed

text \<open>
  A page that was never linked holds zeros, not -1, in its link, so the walk takes the root
  page for the next full page: when the free list is empty, the append overwrites the head of
  the free list with the full page.
\<close>

theorem append_after_zeroed:
  assumes pages: "\<And>r. roomy (e r)" and "word_at (e 0) 8 = p" and "p \<noteq> - 1"
    and zero: "full_link e p = 0" and empty: "word_at (e 0) 4 = - 1" and "2 \<le> fuel"
  shows "append_to_full_pages (resident_env d n) fuel h q e = (Ret (Some ()), e(0 := set_word (e 0) 4 q))"
proof -
  obtain f where f: "fuel = Suc (Suc f)" using assms(6) by (metis Suc_le_D numeral_2_eq_2 Suc_le_mono)
  have "full_list_end (resident_env d n) i fuel p e = (Ret (Some (0, 0)), e)" for i
    using assms f by (simp add: bindc_def get_word_run FULL_LIST_OFFSET_def)
  then show ?thesis using assms
    by (simp add: append_to_full_pages_def Let_def bindc_def get_word_run heap_offsets append_at_resident)
qed

theorem append_after_zeroed_witness:
  "append_to_full_pages (resident_env 3 1) 2 (small_heap 3) 5 (blank_frames (set_word empty_root 8 2)) =
    (Ret (Some ()), (blank_frames (set_word empty_root 8 2))
       (0 := set_word (blank_frames (set_word empty_root 8 2) 0) 4 5))"
proof -
  have r: "roomy (blank_frames (set_word empty_root 8 2) r)" for r
    by (simp add: blank_frames_def empty_root_def roomy_blank)
  have "word_at empty_root 4 = - 1" "roomy empty_root"
    by (simp_all add: empty_root_def word_at_set_word roomy_blank)
  then show ?thesis
    by (intro append_after_zeroed [where p = 2] r)
      (simp_all add: blank_frames_def word_at_set_word word_at_set_word_other word_at_blank)
qed

text \<open>
  C36. With every page in memory (\<open>resident_env\<close>), links that stay within a set of pages without the end
  mark never end the walk: for any bound on the number of steps it is still under way, and has
  changed nothing.
\<close>

theorem append_never_ends:
  assumes pages: "\<And>r. roomy (e r)" and first: "word_at (e 0) 8 \<in> S"
    and closed: "\<And>c. c \<in> S \<Longrightarrow> full_link e c \<in> S" and end': "- 1 \<notin> S"
  shows "append_to_full_pages (resident_env d n) fuel h p e = (Ret None, e)"
proof -
  have "full_list_end (resident_env d n) i fuel c e = (Ret None, e)" if "c \<in> S" for c i
    using that
  proof (induction fuel arbitrary: c)
    case (Suc fuel)
    have "full_link e c \<noteq> - 1" using closed [OF Suc.prems] end' by metis
    then show ?case using Suc closed [OF Suc.prems] pages
      by (simp add: bindc_def get_word_run FULL_LIST_OFFSET_def)
  qed simp
  moreover have "word_at (e 0) 8 \<noteq> - 1" using first end' by metis
  ultimately show ?thesis using first pages
    by (simp add: append_to_full_pages_def Let_def bindc_def get_word_run heap_offsets)
qed

text \<open>The root names itself as free page 0, and the full page 2 was never linked.\<close>

theorem append_never_ends_witness:
  "append_to_full_pages (resident_env 0 1) 1000 (small_heap 0) 5 (blank_frames (set_word blank_page 8 2)) =
    (Ret None, blank_frames (set_word blank_page 8 2))"
proof -
  have r: "roomy (blank_frames (set_word blank_page 8 2) r)" for r
    by (simp add: blank_frames_def roomy_blank)
  show ?thesis
    by (rule append_never_ends [where S = "{0, 2}", OF r])
      (auto simp: blank_frames_def word_at_set_word word_at_set_word_other word_at_blank roomy_blank)
qed

section \<open>The heap on the program's disk manager\<close>

text \<open>
  C7. The life of a heap whose columns are of a single byte, whose page size is 7 modulo 8 and whose
  pages are empty.  It runs on the program's disk manager, on a reliable system, and on a pool that
  stands in for the \<open>BufferManager\<close>, whose \<open>pin\<close> has no body: the pool keeps the pages in memory and
  never calls the disk manager.  A new table whose disk gets the id \<open>d\<close>, neither 0 nor -1, takes tuples
  of one size as long as they fit a page and a slot stays free.  The first goes to the page that
  \<open>extend\<close> answers, which is 1 for a file that the pool leaves empty, and every later one to page \<open>d\<close>,
  the id that was put in the place of the page; each is read back from its slot.  The heap itself
  writes nothing to its file.
\<close>

theorem heap_life_stores:
  assumes sys: "posix_reliable P view" and new: "names (view w) p = None" and ids: "unat (cur_disk_id m) \<noteq> INT_MAX"
    and p: "p = path_of_file m (get_disk_full_name (nm @ HEAP_DISK_SUFFIX))" and mps: "dm_page_size m \<noteq> 0"
    and d: "d = cur_disk_id m" "d \<noteq> 0" "d \<noteq> - 1" and pages: "\<And>r. roomy (e r)"
    and first: "empty_page ps (length (t # ts) * sz) (e 1)" and later: "empty_page ps (length (t # ts) * sz) (e (unat d))"
    and ts: "\<forall>u \<in> set (t # ts). narrow u \<and> length u = sz" and slots: "length (t # ts) < unat ps + 49"
  shows "\<exists>m' w' e'. heap_life (pooled_env P) fuel nm cols ps (t # ts) ((m, w), e) = (Ret (Some ()), ((m', w'), e'))
    \<and> read_cells (map get_type t) (drop (slot_offset ps t 0) (bp_bytes (e' 1))) = Ret t
    \<and> (\<forall>j < length ts. read_cells (map get_type (ts ! j))
        (drop (slot_offset ps (ts ! j) ((if d = 1 then 1 else 0) + j)) (bp_bytes (e' (unat d)))) = Ret (ts ! j))
    \<and> file_at (view w') p = Some []"
proof -
  let ?h = "\<lparr>m_table_name = nm @ HEAP_DISK_SUFFIX, m_disk_id = cur_disk_id m, heap_cols = cols, heap_page_size = ps\<rparr>"
  define e0 where "e0 = e(0 := formatted (e 0))"
  have e0: "roomy (e0 r)" "word_at (e0 0) 4 = - 1" "e0 1 = e 1" "e0 (unat d) = e (unat d)" for r
    using pages d(2) by (simp_all add: e0_def formatted unat_eq_zero)
  have "\<exists>e'. insert_all (resident_env d 1) fuel ?h (t # ts) e0 = (Ret (Some ()), e')
    \<and> stored (heap_page_size ?h) t 0 (e' 1)
    \<and> (\<forall>j < length ts. stored (heap_page_size ?h) (ts ! j) ((if d = 1 then 1 else 0) + j) (e' (unat d)))"
    using e0(1,2) _ d(2,3) by (rule later_insertions [where sz = sz]) (use e0(3,4) d(1) first later ts slots in simp_all)
  then obtain e' where run: "insert_all (resident_env d 1) fuel ?h (t # ts) e0 = (Ret (Some ()), e')"
    and st: "stored ps t 0 (e' 1)" "\<forall>j < length ts. stored ps (ts ! j) ((if d = 1 then 1 else 0) + j) (e' (unat d))"
    by auto
  from sys new ids p mps pages run [unfolded d(1) e0_def] obtain m' w' where
    "heap_life (pooled_env P) fuel nm cols ps (t # ts) ((m, w), e) = (Ret (Some ()), ((m', w'), e'))"
    "file_at (view w') p = Some []" by (rule pooled_life)
  moreover have "read_cells (map get_type t) (drop (slot_offset ps t 0) (bp_bytes (e' 1))) = Ret t"
    using stored_read [OF st(1)] ts by simp
  moreover have "read_cells (map get_type (ts ! j))
      (drop (slot_offset ps (ts ! j) ((if d = 1 then 1 else 0) + j)) (bp_bytes (e' (unat d)))) = Ret (ts ! j)"
    if "j < length ts" for j
    using stored_read st(2) ts that by (metis nth_mem list.set_intros(2))
  ultimately show ?thesis by blast
qed

lemma blank_empty: "k \<le> 177 \<Longrightarrow> empty_page 71 k blank_page"
  by (simp add: empty_page_def blank_slotted filled_blank bitmap_bytes_def)

text \<open>Disk 2: the second and the third tuple are in page 2.\<close>

theorem heap_life_stores_witness:
  "\<exists>m' w' e'. heap_life (pooled_env calm_posix) 0 ''t'' [UINT8_T] 71 [[Uint8TType 9], [Uint8TType 8], [Uint8TType 7]]
      (((pdm_new ''d'' 2 16)\<lparr>cur_disk_id := 2\<rparr>,
        \<lparr>sim_names = [], sim_data = [], sim_fds = [], sim_faults = []\<rparr>), blank_frames blank_page) = (Ret (Some ()), ((m', w'), e'))
    \<and> read_cells [UINT8_T] (drop 23 (bp_bytes (e' 1))) = Ret [Uint8TType 9]
    \<and> read_cells [UINT8_T] (drop 24 (bp_bytes (e' 2))) = Ret [Uint8TType 7]"
proof -
  let ?m = "(pdm_new ''d'' 2 16)\<lparr>cur_disk_id := 2\<rparr>" and ?e = "blank_frames blank_page"
  let ?w = "\<lparr>sim_names = [], sim_data = [], sim_fds = [], sim_faults = []\<rparr> :: sim_world"
  let ?ts = "[[Uint8TType 8], [Uint8TType 7]]"
  have "\<exists>m' w' e'. heap_life (pooled_env calm_posix) 0 ''t'' [UINT8_T] 71 ([Uint8TType 9] # ?ts) ((?m, ?w), ?e) = (Ret (Some ()), ((m', w'), e'))
    \<and> read_cells (map get_type [Uint8TType 9]) (drop (slot_offset 71 [Uint8TType 9] 0) (bp_bytes (e' 1))) = Ret [Uint8TType 9]
    \<and> (\<forall>j < length ?ts. read_cells (map get_type (?ts ! j))
        (drop (slot_offset 71 (?ts ! j) ((if (2 :: int32) = 1 then 1 else 0) + j)) (bp_bytes (e' (unat (2 :: int32))))) = Ret (?ts ! j))
    \<and> file_at (sim_view w') (path_of_file ?m (get_disk_full_name (''t'' @ HEAP_DISK_SUFFIX))) = Some []"
    by (rule heap_life_stores [OF calm.posix_reliable_axioms _ _ refl, where sz = 1])
      (simp_all add: pdm_new_eq blank_roots, simp_all add: blank_frames_def blank_empty narrow_def)
  then obtain m' w' e' where r: "heap_life (pooled_env calm_posix) 0 ''t'' [UINT8_T] 71 ([Uint8TType 9] # ?ts) ((?m, ?w), ?e) = (Ret (Some ()), ((m', w'), e'))"
    "read_cells (map get_type [Uint8TType 9]) (drop (slot_offset 71 [Uint8TType 9] 0) (bp_bytes (e' 1))) = Ret [Uint8TType 9]"
    "\<forall>j < length ?ts. read_cells (map get_type (?ts ! j))
        (drop (slot_offset 71 (?ts ! j) ((if (2 :: int32) = 1 then 1 else 0) + j)) (bp_bytes (e' (unat (2 :: int32))))) = Ret (?ts ! j)"
    by blast
  show ?thesis using r(1,2) r(3) [rule_format, of 1]
    by (intro exI [of _ m'] exI [of _ w'] exI [of _ e']) (simp add: slot_offset_def bitmap_bytes_def)
qed

text \<open>
  C23. The first heap of a program aborts on its second tuple, with the program's disk manager on a
  reliable system and the pool of \<open>pooled_env\<close> in the place of the \<open>BufferManager\<close>: its disk has the
  id 0, which the first insertion puts in the free list, so the second takes the root page for a free
  one and fails the assertion, whatever the second tuple is.  The first insertion returns, as the page size is 7
  modulo 8, page 1 is empty with room for the tuple, and its columns are of a single byte.
\<close>

theorem first_heap_aborts:
  assumes sys: "posix_reliable P view" and new: "names (view w) p = None" and first: "cur_disk_id m = 0"
    and p: "p = path_of_file m (get_disk_full_name (nm @ HEAP_DISK_SUFFIX))" and mps: "dm_page_size m \<noteq> 0"
    and pages: "\<And>r. roomy (e r)" and pg: "empty_page ps (length t) (e 1)" and t: "narrow t"
  shows "\<exists>m' w' e'. heap_life (pooled_env P) fuel nm cols ps (t # u # us) ((m, w), e) =
      (Fault Assertion_Failed, ((m', w'), e'))
    \<and> read_cells (map get_type t) (drop (slot_offset ps t 0) (bp_bytes (e' 1))) = Ret t
    \<and> file_at (view w') p = Some []"
proof -
  let ?h = "\<lparr>m_table_name = nm @ HEAP_DISK_SUFFIX, m_disk_id = cur_disk_id m, heap_cols = cols, heap_page_size = ps\<rparr>"
  let ?e0 = "e(0 := formatted (e 0))"
  have e0: "roomy (?e0 r)" "word_at (?e0 0) 4 = - 1" for r using pages by (simp_all add: formatted)
  have pg0: "empty_page (heap_page_size ?h) (length t) (?e0 1)" using pg by simp
  from e0 pg0 t order_refl obtain pg' where
    1: "insert_tuple (resident_env 0 1) fuel ?h t ?e0 = (Ret (Some ()), ?e0(0 := set_word (?e0 0) 4 (m_disk_id ?h), 1 := pg'))"
    and st: "stored (heap_page_size ?h) t 0 pg'" and pg': "roomy pg'"
    by (rule first_insertion)
  let ?e1 = "?e0(0 := set_word (?e0 0) 4 (m_disk_id ?h), 1 := pg')"
  have "roomy (?e1 r)" "word_at (?e1 0) 4 = 0" for r using e0 pg' first pages by (simp_all add: word_at_set_word formatted)
  then have "insert_tuple (resident_env 0 1) fuel ?h u ?e1 = (Fault Assertion_Failed, ?e1)"
    by (rule insert_tuple_root_head)
  with 1 have run: "insert_all (resident_env (cur_disk_id m) 1) fuel ?h (t # u # us) ?e0 = (Fault Assertion_Failed, ?e1)"
    unfolding first by (simp add: bindc_eqs)
  have ids: "unat (cur_disk_id m) \<noteq> INT_MAX" by (simp add: first)
  from sys new ids p mps pages run obtain m' w' where
    "heap_life (pooled_env P) fuel nm cols ps (t # u # us) ((m, w), e) = (Fault Assertion_Failed, ((m', w'), ?e1))"
    "file_at (view w') p = Some []" by (rule pooled_life)
  moreover have "read_cells (map get_type t) (drop (slot_offset ps t 0) (bp_bytes (?e1 1))) = Ret t"
    using stored_read [OF st t] by simp
  ultimately show ?thesis by blast
qed

theorem first_heap_aborts_witness:
  "\<exists>s. heap_life (pooled_env calm_posix) 0 ''t'' [UINT8_T] 71 [[Uint8TType 9], [Uint8TType 8]]
      ((pdm_new ''d'' 2 16, \<lparr>sim_names = [], sim_data = [], sim_fds = [], sim_faults = []\<rparr>), blank_frames blank_page) =
    (Fault Assertion_Failed, s)"
proof -
  let ?m = "pdm_new ''d'' 2 16" and ?w = "\<lparr>sim_names = [], sim_data = [], sim_fds = [], sim_faults = []\<rparr> :: sim_world"
  have "\<exists>m' w' e'. heap_life (pooled_env calm_posix) 0 ''t'' [UINT8_T] 71 ([Uint8TType 9] # [Uint8TType 8] # [])
      ((?m, ?w), blank_frames blank_page) = (Fault Assertion_Failed, ((m', w'), e'))
    \<and> read_cells (map get_type [Uint8TType 9]) (drop (slot_offset 71 [Uint8TType 9] 0) (bp_bytes (e' 1))) = Ret [Uint8TType 9]
    \<and> file_at (sim_view w') (path_of_file ?m (get_disk_full_name (''t'' @ HEAP_DISK_SUFFIX))) = Some []"
    by (rule first_heap_aborts [OF calm.posix_reliable_axioms _ _ refl])
      (simp_all add: pdm_new_eq blank_roots, simp_all add: blank_frames_def blank_empty narrow_def)
  then show ?thesis by blast
qed

text \<open>
  C31. Opening a table again loses its tuples.  With the program's disk manager on a reliable system, the
  pool of \<open>pooled_env\<close> in the place of the \<open>BufferManager\<close> and a file of whole pages within the limit,
  the constructor loads the disk of an existing table under a new id and formats its root page, so
  that no page is free and the list of full pages is empty; the other pages and the file are as they
  were.
\<close>

theorem reopened_heap_empty:
  assumes "posix_reliable P view" and "names (view w) p = Some i" and "unat (cur_disk_id m) \<noteq> INT_MAX"
    and "p = path_of_file m (get_disk_full_name (nm @ HEAP_DISK_SUFFIX))"
    and "dm_page_size m \<noteq> 0" "unat (dm_page_size m) dvd length (contents (view w) i)"
      "length (contents (view w) i) \<le> unat (max_disk_byte_size m)"
    and pages: "\<And>r. roomy (e r)"
  shows "\<exists>h s'. heap_new (pooled_env P) nm cols ps ((m, w), e) = (Ret h, s') \<and> m_disk_id h = cur_disk_id m
    \<and> fst (find_free_page (pooled_env P) h s') = Ret None \<and> full_list (snd s') []
    \<and> (\<forall>r. r \<noteq> 0 \<longrightarrow> snd s' r = e r) \<and> view (snd (fst s')) = view w"
proof -
  from assms obtain h s' where "heap_new (pooled_env P) nm cols ps ((m, w), e) = (Ret h, s')" "m_disk_id h = cur_disk_id m"
    "snd s' = e(0 := formatted (e 0))" "view (snd (fst s')) = view w" "fst (find_free_page (pooled_env P) h s') = Ret None"
    by (rule pooled_reopened)
  then show ?thesis using format_root_empties(1) [where e = e, OF pages] by (intro exI [of _ h] exI [of _ s']) simp
qed

theorem reopened_heap_empty_witness:
  "\<exists>h s'. heap_new (pooled_env calm_posix) ''t'' [UINT8_T] 71
      ((pdm_new ''d'' 2 16, \<lparr>sim_names = [(''d/t.heap.disk'', 1)], sim_data = [(1, [1, 2])], sim_fds = [], sim_faults = []\<rparr>),
       blank_frames (set_word blank_page 4 2)) = (Ret h, s') \<and> fst (find_free_page (pooled_env calm_posix) h s') = Ret None"
proof -
  let ?m = "pdm_new ''d'' 2 16" and ?e = "blank_frames (set_word blank_page 4 2)"
  let ?w = "\<lparr>sim_names = [(''d/t.heap.disk'', 1)], sim_data = [(1, [1, 2])], sim_fds = [], sim_faults = []\<rparr> :: sim_world"
  have "\<exists>h s'. heap_new (pooled_env calm_posix) ''t'' [UINT8_T] 71 ((?m, ?w), ?e) = (Ret h, s') \<and> m_disk_id h = cur_disk_id ?m
    \<and> fst (find_free_page (pooled_env calm_posix) h s') = Ret None \<and> full_list (snd s') []
    \<and> (\<forall>r. r \<noteq> 0 \<longrightarrow> snd s' r = ?e r) \<and> sim_view (snd (fst s')) = sim_view ?w"
    by (rule reopened_heap_empty [OF calm.posix_reliable_axioms, where i = 1 and p = "''d/t.heap.disk''"])
      (simp_all add: pdm_new_eq path_of_file_def get_disk_full_name_def disk_suffix_def HEAP_DISK_SUFFIX_def sim_contents_def,
       simp_all add: blank_frames_def roomy_blank)
  then show ?thesis by blast
qed

end
