(* ===== verification/Char_Stream.thy ===== *)
theory Char_Stream
  imports Errors
begin

text \<open>
  \<open>compiler/src/char_stream/char_stream.{h,cpp}\<close>, on the \<open>std::istringstream\<close> the driver
  uses: the characters, the read position and the state flags, with the effect of \<open>get\<close>,
  \<open>peek\<close> and \<open>putback\<close> on them.  The exception mask is empty, as it is by default, so the
  stream does not throw and the handlers of the code are not entered.
\<close>

section \<open>The input stream\<close>

record istream =
  in_chars :: string
  in_pos :: nat
  eofbit :: bool
  failbit :: bool
  badbit :: bool

definition istringstream :: "string \<Rightarrow> istream" where
  "istringstream s = \<lparr>in_chars = s, in_pos = 0, eofbit = False, failbit = False, badbit = False\<rparr>"

definition good :: "istream \<Rightarrow> bool" where
  "good is \<longleftrightarrow> \<not> eofbit is \<and> \<not> failbit is \<and> \<not> badbit is"

definition eof_int :: int where
  \<comment> \<open>\<open>traits_type::eof()\<close>\<close>
  "eof_int = - 1"

definition to_int_type :: "char \<Rightarrow> int" where
  \<comment> \<open>the character as an \<open>unsigned char\<close>\<close>
  "to_int_type c = of_char c"

definition int_to_char :: "int \<Rightarrow> char" where
  \<comment> \<open>the conversion of an \<open>int\<close> to a \<open>char\<close>\<close>
  "int_to_char i = char_of i"

definition char_to_int :: "char \<Rightarrow> int" where
  \<comment> \<open>the promotion of a \<open>char\<close>, which is signed\<close>
  "char_to_int c = (if (of_char c :: int) < 128 then of_char c else of_char c - 256)"

definition is_get :: "istream \<Rightarrow> int \<times> istream" where
  "is_get is =
     (if \<not> good is then (eof_int, is\<lparr>failbit := True\<rparr>)
      else if in_pos is < length (in_chars is)
        then (to_int_type (in_chars is ! in_pos is), is\<lparr>in_pos := Suc (in_pos is)\<rparr>)
      else (eof_int, is\<lparr>eofbit := True, failbit := True\<rparr>))"

definition is_peek :: "istream \<Rightarrow> int \<times> istream" where
  "is_peek is =
     (if \<not> good is then (eof_int, is\<lparr>failbit := True\<rparr>)
      else if in_pos is < length (in_chars is) then (to_int_type (in_chars is ! in_pos is), is)
      else (eof_int, is\<lparr>eofbit := True\<rparr>))"

definition is_putback :: "char \<Rightarrow> istream \<Rightarrow> istream" where
  \<comment> \<open>the buffer of an input stream is not written: only the character just read goes back\<close>
  "is_putback c is =
     (let is1 = is\<lparr>eofbit := False\<rparr> in
      if \<not> good is1 then is1\<lparr>failbit := True\<rparr>
      else if 0 < in_pos is1 \<and> in_chars is1 ! (in_pos is1 - 1) = c
        then is1\<lparr>in_pos := in_pos is1 - 1\<rparr>
      else is1\<lparr>badbit := True\<rparr>)"

section \<open>The class\<close>

record char_stream_position =
  m_cur_line :: uint
  m_cur_col :: uint
  m_cur_pos :: uint

record char_stream =
  m_char_stream_position :: char_stream_position
  m_stream :: istream

definition char_stream_new :: "istream \<Rightarrow> char_stream" where
  "char_stream_new is =
     \<lparr>m_char_stream_position = \<lparr>m_cur_line = 0, m_cur_col = 0, m_cur_pos = 0\<rparr>, m_stream = is\<rparr>"

definition newline_char :: char where
  "newline_char = CHR 0x0A"

definition advance :: "char \<Rightarrow> char_stream_position \<Rightarrow> char_stream_position" where
  \<comment> \<open>the updates of the position in \<open>get_next_char\<close>\<close>
  "advance c p =
     (let p' = (if c = newline_char then p\<lparr>m_cur_line := m_cur_line p + 1, m_cur_col := 0\<rparr> else p)
      in p'\<lparr>m_cur_pos := m_cur_pos p' + 1\<rparr>)"

definition get_next_char :: "char_stream \<Rightarrow> char option \<times> char_stream" where
  "get_next_char cs =
     (case is_get (m_stream cs) of (i, is) \<Rightarrow>
        let c = int_to_char i; cs' = cs\<lparr>m_stream := is\<rparr> in
        if char_to_int c = eof_int then (None, cs')
        else (Some c, cs'\<lparr>m_char_stream_position := advance c (m_char_stream_position cs')\<rparr>))"

definition peek_next_char :: "char_stream \<Rightarrow> char option \<times> char_stream" where
  "peek_next_char cs =
     (case is_peek (m_stream cs) of (i, is) \<Rightarrow>
        let c = int_to_char i; cs' = cs\<lparr>m_stream := is\<rparr> in
        if char_to_int c = eof_int then (None, cs') else (Some c, cs'))"

definition put_back_char :: "char \<Rightarrow> char_stream \<Rightarrow> char_stream" where
  "put_back_char c cs = cs\<lparr>m_stream := is_putback c (m_stream cs)\<rparr>"

definition is_end_of_stream :: "char_stream \<Rightarrow> bool \<times> char_stream" where
  "is_end_of_stream cs =
     (case is_peek (m_stream cs) of (i, is) \<Rightarrow> (i \<noteq> 0 \<and> eofbit is, cs\<lparr>m_stream := is\<rparr>))"

definition get_position :: "char_stream \<Rightarrow> char_stream_position" where
  "get_position cs = m_char_stream_position cs"

definition print_position :: "char_stream_position \<Rightarrow> string" where
  \<comment> \<open>\<open>operator<<\<close>\<close>
  "print_position p =
     ''{'' @ [newline_char]
       @ ''cur_line: '' @ show_nat (unat (m_cur_line p)) @ [newline_char]
       @ ''cur_col: '' @ show_nat (unat (m_cur_col p)) @ [newline_char]
       @ ''m_cur_pos: '' @ show_nat (unat (m_cur_pos p)) @ [newline_char] @ ''}''"

section \<open>The characters of a stream\<close>

definition eof_char :: char where
  \<comment> \<open>the character that converts to the same \<open>char\<close> as the end-of-file value\<close>
  "eof_char = CHR 0xFF"

lemma of_char_bounds: "0 \<le> (of_char c :: int)" "(of_char c :: int) < 256"
  using pos_mod_bound [of 256 "of_char c :: int"] pos_mod_sign [of 256 "of_char c :: int"] by simp_all

lemma int_to_char_to_int [simp]: "int_to_char (to_int_type c) = c"
  by (simp add: int_to_char_def to_int_type_def)

lemma char_is_eof: "char_to_int c = eof_int \<longleftrightarrow> c = eof_char"
proof -
  have "char_to_int c = - 1 \<longleftrightarrow> (of_char c :: int) = 255"
    using of_char_bounds [of c] by (auto simp: char_to_int_def)
  also have "\<dots> \<longleftrightarrow> (of_char c :: int) = of_char eof_char" by (simp add: eof_char_def)
  finally show ?thesis by (simp add: eof_int_def)
qed

lemma int_to_char_eof [simp]: "int_to_char eof_int = eof_char"
proof -
  have "(of_char (char_of (- 1 :: int)) :: int) = of_char eof_char" by (simp add: eof_char_def)
  then have "char_of (- 1 :: int) = eof_char" by (simp only: of_char_eq_iff)
  then show ?thesis by (simp add: int_to_char_def eof_int_def)
qed

lemma to_int_type_not_eof [simp]: "to_int_type c \<noteq> eof_int"
  using of_char_bounds [of c] by (simp add: to_int_type_def eof_int_def)

definition rest :: "char_stream \<Rightarrow> string" where
  "rest cs = drop (in_pos (m_stream cs)) (in_chars (m_stream cs))"

definition taken :: "char_stream \<Rightarrow> string" where
  "taken cs = take (in_pos (m_stream cs)) (in_chars (m_stream cs))"

definition stream_ok :: "char_stream \<Rightarrow> bool" where
  \<comment> \<open>nothing went wrong: the end may have been seen, and then nothing is left\<close>
  "stream_ok cs \<longleftrightarrow> \<not> badbit (m_stream cs) \<and> in_pos (m_stream cs) \<le> length (in_chars (m_stream cs))
     \<and> (failbit (m_stream cs) \<longrightarrow> eofbit (m_stream cs)) \<and> (eofbit (m_stream cs) \<longrightarrow> rest cs = [])"

lemma stream_ok_new: "stream_ok (char_stream_new (istringstream s))"
  and rest_new: "rest (char_stream_new (istringstream s)) = s"
  and taken_new: "taken (char_stream_new (istringstream s)) = []"
  by (simp_all add: stream_ok_def rest_def taken_def char_stream_new_def istringstream_def)

section \<open>The operations on the characters left\<close>

definition same_place :: "char_stream \<Rightarrow> char_stream \<Rightarrow> bool" where
  "same_place cs cs' \<longleftrightarrow> rest cs' = rest cs \<and> taken cs' = taken cs
     \<and> m_char_stream_position cs' = m_char_stream_position cs"

lemma rest_Cons:
  assumes "rest cs = c # r"
  shows "in_pos (m_stream cs) < length (in_chars (m_stream cs))"
    and "in_chars (m_stream cs) ! in_pos (m_stream cs) = c"
    and "drop (Suc (in_pos (m_stream cs))) (in_chars (m_stream cs)) = r"
proof -
  show less: "in_pos (m_stream cs) < length (in_chars (m_stream cs))"
    using assms by (metis drop_all list.distinct(1) not_less rest_def)
  then have "c # r = in_chars (m_stream cs) ! in_pos (m_stream cs)
      # drop (Suc (in_pos (m_stream cs))) (in_chars (m_stream cs))"
    using assms by (simp add: rest_def Cons_nth_drop_Suc)
  then show "in_chars (m_stream cs) ! in_pos (m_stream cs) = c"
    "drop (Suc (in_pos (m_stream cs))) (in_chars (m_stream cs)) = r" by simp_all
qed

lemma stream_ok_good: "stream_ok cs \<Longrightarrow> rest cs \<noteq> [] \<Longrightarrow> good (m_stream cs)"
  by (auto simp: stream_ok_def good_def)

lemma is_end_of_stream_eq:
  assumes "stream_ok cs"
  obtains cs' where "is_end_of_stream cs = (rest cs = [], cs')" and "stream_ok cs'" and "same_place cs cs'"
proof (cases "rest cs")
  case Nil
  let ?is = "if good (m_stream cs) then (m_stream cs)\<lparr>eofbit := True\<rparr> else (m_stream cs)\<lparr>failbit := True\<rparr>"
  have "\<not> in_pos (m_stream cs) < length (in_chars (m_stream cs))" using Nil by (simp add: rest_def)
  then have peek: "is_peek (m_stream cs) = (eof_int, ?is)" by (simp add: is_peek_def)
  have "eofbit ?is" using assms by (auto simp: stream_ok_def good_def)
  then have "is_end_of_stream cs = (rest cs = [], cs\<lparr>m_stream := ?is\<rparr>)"
    using Nil peek by (simp add: is_end_of_stream_def eof_int_def)
  moreover have "stream_ok (cs\<lparr>m_stream := ?is\<rparr>)" "same_place cs (cs\<lparr>m_stream := ?is\<rparr>)"
    using assms Nil \<open>eofbit ?is\<close> by (auto simp: stream_ok_def rest_def taken_def same_place_def)
  ultimately show thesis by (rule that)
next
  case (Cons c r)
  have "is_end_of_stream cs = (False, cs)"
    using stream_ok_good [OF assms] Cons rest_Cons [OF Cons] assms
    by (auto simp: is_end_of_stream_def is_peek_def stream_ok_def)
  then show thesis using Cons assms by (intro that [of cs]) (simp_all add: same_place_def)
qed

lemma peek_next_char_eq:
  "stream_ok cs \<Longrightarrow> rest cs = c # r \<Longrightarrow> peek_next_char cs = (if c = eof_char then None else Some c, cs)"
  using stream_ok_good [of cs] rest_Cons [of cs c r]
  by (simp add: peek_next_char_def is_peek_def Let_def char_is_eof)

lemma get_next_char_eq:
  assumes "stream_ok cs" and "rest cs = c # r" and "c \<noteq> eof_char"
  obtains cs' where "get_next_char cs = (Some c, cs')" and "stream_ok cs'" and "rest cs' = r"
    and "taken cs' = taken cs @ [c]"
    and "m_char_stream_position cs' = advance c (m_char_stream_position cs)"
proof -
  note R = rest_Cons [OF assms(2)]
  let ?is = "(m_stream cs)\<lparr>in_pos := Suc (in_pos (m_stream cs))\<rparr>"
  let ?cs = "cs\<lparr>m_stream := ?is, m_char_stream_position := advance c (m_char_stream_position cs)\<rparr>"
  have g: "good (m_stream cs)" using assms by (intro stream_ok_good) simp_all
  have "get_next_char cs = (Some c, ?cs)"
    using g R assms(3) by (simp add: get_next_char_def is_get_def Let_def char_is_eof)
  moreover have "stream_ok ?cs" using assms(1) R g by (auto simp: stream_ok_def good_def)
  moreover have "rest ?cs = r" "taken ?cs = taken cs @ [c]"
    using R by (simp_all add: rest_def taken_def take_Suc_conv_app_nth)
  moreover have "m_char_stream_position ?cs = advance c (m_char_stream_position cs)" by simp
  ultimately show thesis by (rule that)
qed

lemma get_at_end:
  assumes "stream_ok cs" and "rest cs = []"
  obtains cs' where "get_next_char cs = (None, cs')" and "stream_ok cs'" and "same_place cs cs'"
proof -
  have "\<not> in_pos (m_stream cs) < length (in_chars (m_stream cs))" using assms by (simp add: rest_def)
  then obtain st where st: "is_get (m_stream cs) = (eof_int, st)" "in_chars st = in_chars (m_stream cs)"
    "in_pos st = in_pos (m_stream cs)" "eofbit st" "badbit st = badbit (m_stream cs)"
    using assms by (cases "good (m_stream cs)") (auto simp: is_get_def stream_ok_def good_def)
  then have "get_next_char cs = (None, cs\<lparr>m_stream := st\<rparr>)"
    by (simp add: get_next_char_def Let_def char_is_eof)
  moreover have "stream_ok (cs\<lparr>m_stream := st\<rparr>)" "same_place cs (cs\<lparr>m_stream := st\<rparr>)"
    using assms st by (auto simp: stream_ok_def rest_def taken_def same_place_def)
  ultimately show thesis by (rule that)
qed

section \<open>The position\<close>

definition start_position :: char_stream_position where
  "start_position = \<lparr>m_cur_line = 0, m_cur_col = 0, m_cur_pos = 0\<rparr>"

lemma advance_all:
  "fold advance s p =
    \<lparr>m_cur_line = m_cur_line p + of_nat (count_list s newline_char),
     m_cur_col = (if newline_char \<in> set s then 0 else m_cur_col p),
     m_cur_pos = m_cur_pos p + of_nat (length s)\<rparr>"
  by (induction s arbitrary: p) (auto simp: advance_def Let_def)

end
