(* ===== verification/Lexer.thy ===== *)
theory Lexer
  imports Char_Stream
begin

text \<open>
  \<open>compiler/src/lexer/lexer.{h,cpp}\<close>: the splitting of a character stream into tokens.
  The two loops run while the stream has characters; \<open>words\<close> is what they compute.
\<close>

section \<open>The class\<close>

type_synonym token = string
type_synonym lexer = char_stream   \<comment> \<open>its one member, \<open>m_char_stream\<close>\<close>

definition char_is_whitespace :: "char \<Rightarrow> bool" where
  "char_is_whitespace c \<longleftrightarrow> c = CHR '' '' \<or> c = CHR 0x09 \<or> c = CHR 0x0A \<or> c = CHR 0x0D"

definition chars_left :: "char_stream \<Rightarrow> nat" where
  "chars_left cs = length (in_chars (m_stream cs)) - in_pos (m_stream cs)"

lemma loop_progress:
  assumes "is_end_of_stream cs = (False, cs1)" and "peek_next_char cs1 = (Some c, cs2)"
    and "get_next_char cs2 = (r, cs3)"
  shows "chars_left cs3 < chars_left cs"
proof -
  have 2: "good (m_stream cs1)" "in_pos (m_stream cs1) < length (in_chars (m_stream cs1))" "cs2 = cs1"
    using assms(2) by (auto simp: peek_next_char_def is_peek_def Let_def char_is_eof split: if_splits)
  have "in_chars (m_stream cs1) = in_chars (m_stream cs)" "in_pos (m_stream cs1) = in_pos (m_stream cs)"
    using assms(1) by (auto simp: is_end_of_stream_def is_peek_def split: if_splits)
  moreover have "in_chars (m_stream cs3) = in_chars (m_stream cs1)"
    "in_pos (m_stream cs3) = Suc (in_pos (m_stream cs1))"
    using assms(3) 2 by (auto simp: get_next_char_def is_get_def Let_def split: if_splits)
  ultimately show ?thesis using 2 by (simp add: chars_left_def)
qed

function skip_whitespace :: "(lexer, unit) cpp" where
  "skip_whitespace cs =
     (case is_end_of_stream cs of (at_end, cs1) \<Rightarrow>
        if at_end then (Ret (), cs1)
        else
          (case peek_next_char cs1 of
             (None, cs2) \<Rightarrow> (Throw Bad_Optional_Access, cs2)
           | (Some c, cs2) \<Rightarrow>
               if char_is_whitespace c
               then (case get_next_char cs2 of (_, cs3) \<Rightarrow> skip_whitespace cs3)
               else (Ret (), cs2)))"
  by pat_completeness auto
termination
  by (relation "measure chars_left") (auto intro!: loop_progress [OF sym sym sym])

function collect_token :: "token \<Rightarrow> (lexer, token) cpp" where
  \<comment> \<open>the loop of \<open>get_next_token\<close>\<close>
  "collect_token token cs =
     (case is_end_of_stream cs of (at_end, cs1) \<Rightarrow>
        if at_end then (Ret token, cs1)
        else
          (case peek_next_char cs1 of
             (None, cs2) \<Rightarrow> (Throw Bad_Optional_Access, cs2)
           | (Some c, cs2) \<Rightarrow>
               if char_is_whitespace c then (Ret token, cs2)
               else
                 (case get_next_char cs2 of
                    (None, cs3) \<Rightarrow> (Throw Bad_Optional_Access, cs3)
                  | (Some c', cs3) \<Rightarrow> collect_token (token @ [c']) cs3)))"
  by pat_completeness auto
termination
  by (relation "measure (\<lambda>(token, cs). chars_left cs)") (auto intro!: loop_progress [OF sym sym sym])

declare skip_whitespace.simps [simp del] collect_token.simps [simp del]

definition has_next_token :: "(lexer, bool) cpp" where
  "has_next_token =
     bindc skip_whitespace (\<lambda>_ cs. case is_end_of_stream cs of (at_end, cs') \<Rightarrow> (Ret (\<not> at_end), cs'))"

definition get_next_token :: "(lexer, token option) cpp" where
  "get_next_token =
     bindc skip_whitespace (\<lambda>_. bindc (collect_token []) (\<lambda>token. retc (Some token)))"

definition lexer_new :: "istream \<Rightarrow> lexer" where
  "lexer_new is = char_stream_new is"

definition lexer_position :: "lexer \<Rightarrow> char_stream_position" where
  "lexer_position cs = get_position cs"

section \<open>The loops\<close>

definition plain :: "char_stream \<Rightarrow> bool" where
  \<comment> \<open>a stream in order, without the character that reads as the end of file\<close>
  "plain cs \<longleftrightarrow> stream_ok cs \<and> eof_char \<notin> set (rest cs)"

definition moved :: "string \<Rightarrow> char_stream \<Rightarrow> char_stream \<Rightarrow> bool" where
  \<comment> \<open>the characters \<open>s\<close> have been read\<close>
  "moved s cs cs' \<longleftrightarrow> plain cs' \<and> rest cs = s @ rest cs' \<and> taken cs' = taken cs @ s
     \<and> m_char_stream_position cs' = fold advance s (m_char_stream_position cs)"

lemma moved_Nil: "plain cs' \<Longrightarrow> same_place cs cs' \<Longrightarrow> moved [] cs cs'"
  by (simp add: moved_def same_place_def)

lemma moved_trans: "moved s cs cs' \<Longrightarrow> moved t cs' cs'' \<Longrightarrow> moved (s @ t) cs cs''"
  by (simp add: moved_def)

lemma plain_end:
  assumes "plain cs"
  obtains cs' where "is_end_of_stream cs = (rest cs = [], cs')" and "moved [] cs cs'"
proof -
  from assms obtain cs' where 1: "is_end_of_stream cs = (rest cs = [], cs')" "stream_ok cs'" "same_place cs cs'"
    by (auto simp: plain_def elim: is_end_of_stream_eq)
  then have "plain cs'" using assms by (simp add: plain_def same_place_def)
  then show thesis using 1 moved_Nil that by blast
qed

lemma plain_get:
  assumes "plain cs" and "rest cs = c # r"
  obtains cs' where "get_next_char cs = (Some c, cs')" and "moved [c] cs cs'"
proof -
  have "stream_ok cs" "c \<noteq> eof_char" using assms by (auto simp: plain_def)
  then obtain cs' where 1: "get_next_char cs = (Some c, cs')" "stream_ok cs'" "rest cs' = r"
    "taken cs' = taken cs @ [c]" "m_char_stream_position cs' = advance c (m_char_stream_position cs)"
    using assms(2) by (auto elim: get_next_char_eq)
  then have "moved [c] cs cs'" using assms by (simp add: moved_def plain_def)
  with 1(1) show thesis by (rule that)
qed

lemma plain_peek: "plain cs \<Longrightarrow> rest cs = c # r \<Longrightarrow> peek_next_char cs = (Some c, cs)"
  by (auto simp: plain_def peek_next_char_eq)

lemma skip_whitespace_eq:
  assumes "plain cs"
  shows "\<exists>cs'. skip_whitespace cs = (Ret (), cs') \<and> moved (takeWhile char_is_whitespace (rest cs)) cs cs'"
  using assms
proof (induction "rest cs" arbitrary: cs)
  case Nil
  then obtain cs' where "is_end_of_stream cs = (True, cs')" "moved [] cs cs'" by (auto elim: plain_end)
  then show ?case using Nil.hyps by (simp add: skip_whitespace.simps [of cs])
next
  case (Cons c r)
  obtain cs1 where 1: "is_end_of_stream cs = (False, cs1)" "moved [] cs cs1"
    using plain_end [OF Cons.prems] Cons.hyps(2) by (metis list.distinct(1))
  have r1: "rest cs1 = c # r" "plain cs1" using 1(2) Cons.hyps(2) by (simp_all add: moved_def)
  show ?case
  proof (cases "char_is_whitespace c")
    case True
    obtain cs2 where 2: "get_next_char cs1 = (Some c, cs2)" "moved [c] cs1 cs2"
      using r1 by (auto elim: plain_get)
    have "r = rest cs2" "plain cs2" using 2(2) r1(1) by (simp_all add: moved_def)
    from Cons.hyps(1) [OF this] obtain cs3 where 3: "skip_whitespace cs2 = (Ret (), cs3)"
      "moved (takeWhile char_is_whitespace r) cs2 cs3" using \<open>r = rest cs2\<close> by auto
    have "skip_whitespace cs = (Ret (), cs3)"
      using 1(1) 2(1) 3(1) plain_peek [OF r1(2,1)] True by (simp add: skip_whitespace.simps [of cs])
    moreover have "moved ([] @ [c] @ takeWhile char_is_whitespace r) cs cs3"
      using 1(2) 2(2) 3(2) by (intro moved_trans)
    moreover have "takeWhile char_is_whitespace (rest cs) = [] @ [c] @ takeWhile char_is_whitespace r"
      using Cons.hyps(2) [symmetric] True by simp
    ultimately show ?thesis by metis
  next
    case False
    then show ?thesis using 1 plain_peek [OF r1(2,1)] Cons.hyps(2) [symmetric]
      by (simp add: skip_whitespace.simps [of cs])
  qed
qed

abbreviation black :: "char \<Rightarrow> bool" where
  "black c \<equiv> \<not> char_is_whitespace c"

lemma collect_token_eq:
  assumes "plain cs"
  shows "\<exists>cs'. collect_token t cs = (Ret (t @ takeWhile black (rest cs)), cs')
    \<and> moved (takeWhile black (rest cs)) cs cs'"
  using assms
proof (induction "rest cs" arbitrary: cs t)
  case Nil
  then obtain cs' where "is_end_of_stream cs = (True, cs')" "moved [] cs cs'" by (auto elim: plain_end)
  then show ?case using Nil.hyps by (simp add: collect_token.simps [of t cs])
next
  case (Cons c r)
  obtain cs1 where 1: "is_end_of_stream cs = (False, cs1)" "moved [] cs cs1"
    using plain_end [OF Cons.prems] Cons.hyps(2) by (metis list.distinct(1))
  have r1: "rest cs1 = c # r" "plain cs1" using 1(2) Cons.hyps(2) by (simp_all add: moved_def)
  show ?case
  proof (cases "black c")
    case True
    obtain cs2 where 2: "get_next_char cs1 = (Some c, cs2)" "moved [c] cs1 cs2"
      using r1 by (auto elim: plain_get)
    have "r = rest cs2" "plain cs2" using 2(2) r1(1) by (simp_all add: moved_def)
    from Cons.hyps(1) [OF this, of "t @ [c]"] obtain cs3 where
      3: "collect_token (t @ [c]) cs2 = (Ret ((t @ [c]) @ takeWhile black r), cs3)"
      "moved (takeWhile black r) cs2 cs3" using \<open>r = rest cs2\<close> by auto
    have "collect_token t cs = (Ret (t @ c # takeWhile black r), cs3)"
      using 1(1) 2(1) 3(1) plain_peek [OF r1(2,1)] True by (simp add: collect_token.simps [of t cs])
    moreover have "moved ([] @ [c] @ takeWhile black r) cs cs3"
      using 1(2) 2(2) 3(2) by (intro moved_trans)
    moreover have "takeWhile black (rest cs) = c # takeWhile black r"
      using Cons.hyps(2) [symmetric] True by simp
    ultimately show ?thesis by (metis append_Cons append_Nil)
  next
    case False
    then show ?thesis using 1 plain_peek [OF r1(2,1)] Cons.hyps(2) [symmetric]
      by (simp add: collect_token.simps [of t cs])
  qed
qed

lemma rest_moved: "moved s cs cs' \<Longrightarrow> rest cs' = drop (length s) (rest cs)"
  by (simp add: moved_def)

lemma drop_takeWhile: "drop (length (takeWhile P xs)) xs = dropWhile P xs"
  by (simp add: dropWhile_eq_drop)

lemma has_next_token_eq:
  assumes "plain cs"
  obtains cs' where "has_next_token cs = (Ret (dropWhile char_is_whitespace (rest cs) \<noteq> []), cs')"
    and "moved (takeWhile char_is_whitespace (rest cs)) cs cs'"
proof -
  obtain cs1 where 1: "skip_whitespace cs = (Ret (), cs1)"
    "moved (takeWhile char_is_whitespace (rest cs)) cs cs1" using skip_whitespace_eq [OF assms] by blast
  then have "plain cs1" by (simp add: moved_def)
  then obtain cs2 where 2: "is_end_of_stream cs1 = (rest cs1 = [], cs2)" "moved [] cs1 cs2"
    by (rule plain_end)
  have "rest cs1 = dropWhile char_is_whitespace (rest cs)" using rest_moved [OF 1(2)] by (simp add: drop_takeWhile)
  then have "has_next_token cs = (Ret (dropWhile char_is_whitespace (rest cs) \<noteq> []), cs2)"
    using 1(1) 2(1) by (simp add: has_next_token_def bindc_eqs)
  moreover have "moved (takeWhile char_is_whitespace (rest cs)) cs cs2"
    using moved_trans [OF 1(2) 2(2)] by simp
  ultimately show thesis by (rule that)
qed

lemma get_next_token_eq:
  assumes "plain cs"
  obtains cs' where "get_next_token cs =
      (Ret (Some (takeWhile black (dropWhile char_is_whitespace (rest cs)))), cs')"
    and "moved (takeWhile char_is_whitespace (rest cs)
      @ takeWhile black (dropWhile char_is_whitespace (rest cs))) cs cs'"
proof -
  obtain cs1 where 1: "skip_whitespace cs = (Ret (), cs1)"
    "moved (takeWhile char_is_whitespace (rest cs)) cs cs1" using skip_whitespace_eq [OF assms] by blast
  then have p: "plain cs1" by (simp add: moved_def)
  have r: "rest cs1 = dropWhile char_is_whitespace (rest cs)" using rest_moved [OF 1(2)] by (simp add: drop_takeWhile)
  obtain cs2 where 2: "collect_token [] cs1 = (Ret (takeWhile black (rest cs1)), cs2)"
    "moved (takeWhile black (rest cs1)) cs1 cs2" using collect_token_eq [OF p, of "[]"] by auto
  have "get_next_token cs = (Ret (Some (takeWhile black (rest cs1))), cs2)"
    using 1(1) 2(1) by (simp add: get_next_token_def bindc_eqs)
  then show thesis using moved_trans [OF 1(2) 2(2)] r that by simp
qed

end
