(* ===== verification/Driver.thy ===== *)
theory Driver
  imports Lexer
begin

text \<open>
  The tokens of a text, and \<open>driver/src/run.cpp\<close>, the program that tests the lexer: its
  loops over \<open>has_next_token\<close> and \<open>get_next_token\<close>, its test cases and \<open>main\<close>.
  \<open>expected_tokens[index]\<close> is unchecked.  The messages it logs are not modelled.
\<close>

section \<open>Words\<close>

function words :: "string \<Rightarrow> string list" where
  "words s =
     (let s' = dropWhile char_is_whitespace s in
      if s' = [] then [] else takeWhile black s' # words (dropWhile black s'))"
  by pat_completeness auto
termination
proof (relation "measure length")
  fix s s'
  assume s': "s' = dropWhile char_is_whitespace s" and ne: "s' \<noteq> []"
  have "black (hd s')" using ne unfolding s' by (rule hd_dropWhile)
  then have "length (dropWhile black s') < length s'" using ne
    by (cases s') (simp_all add: le_imp_less_Suc length_dropWhile_le)
  also have "length s' \<le> length s" unfolding s' by (rule length_dropWhile_le)
  finally show "(dropWhile black s', s) \<in> measure length" by simp
qed simp

declare words.simps [simp del]

lemma words_white: "dropWhile char_is_whitespace s = [] \<Longrightarrow> words s = []"
  by (simp add: words.simps [of s])

lemma words_black:
  "dropWhile char_is_whitespace s = c # r \<Longrightarrow> words s = takeWhile black (c # r) # words (dropWhile black (c # r))"
  by (subst words.simps) (simp add: Let_def)

lemma words_skip: "words (dropWhile char_is_whitespace s) = words s"
proof -
  have "dropWhile char_is_whitespace (dropWhile char_is_whitespace s) = dropWhile char_is_whitespace s"
    by (rule dropWhile_idem)
  then show ?thesis by (simp add: words.simps [of s] words.simps [of "dropWhile char_is_whitespace s"])
qed

text \<open>No character is lost: the words are the runs of the characters that are not white.\<close>

lemma filter_black_skip: "filter black (dropWhile char_is_whitespace s) = filter black s"
  by (induction s) auto

lemma filter_takeWhile: "filter P (takeWhile P xs) = takeWhile P xs"
  by (auto simp: filter_id_conv dest: set_takeWhileD)

lemma words_concat: "concat (words s) = filter black s"
proof (induction s rule: words.induct)
  case (1 s)
  let ?s = "dropWhile char_is_whitespace s"
  show ?case
  proof (cases ?s)
    case Nil
    then have "filter black ?s = []" by (simp only: filter.simps)
    then have "filter black s = []" by (simp only: filter_black_skip)
    then show ?thesis using Nil by (simp add: words_white)
  next
    case (Cons c r)
    have "concat (words s) = takeWhile black ?s @ concat (words (dropWhile black ?s))"
      using Cons by (simp add: words_black [of s])
    also have "\<dots> = filter black (takeWhile black ?s) @ filter black (dropWhile black ?s)"
      using "1.IH" [OF refl] Cons by (simp add: filter_takeWhile)
    also have "\<dots> = filter black ?s" by (simp flip: filter_append)
    finally show ?thesis by (simp only: filter_black_skip)
  qed
qed

lemma words_are_words: "w \<in> set (words s) \<Longrightarrow> w \<noteq> [] \<and> (\<forall>c \<in> set w. black c)"
proof (induction s rule: words.induct)
  case (1 s)
  let ?s = "dropWhile char_is_whitespace s"
  have ne: "?s \<noteq> []"
  proof
    assume "?s = []"
    then have "words s = []" by (rule words_white)
    with 1(2) show False by simp
  qed
  then have "words s = takeWhile black ?s # words (dropWhile black ?s)"
    using ne by (subst words.simps) (simp only: Let_def if_False)
  with 1(2) have "w = takeWhile black ?s \<or> w \<in> set (words (dropWhile black ?s))"
    by (simp only: list.set insert_iff)
  then show ?case
  proof
    assume w: "w = takeWhile black ?s"
    have "black (hd ?s)" using ne by (rule hd_dropWhile)
    then show ?thesis using ne unfolding w by (cases ?s) (auto dest: set_takeWhileD)
  next
    assume "w \<in> set (words (dropWhile black ?s))"
    then show ?thesis by (rule "1.IH" [OF refl ne])
  qed
qed

text \<open>Words written with white space between them are read back.\<close>

fun spaced :: "(string \<times> string) list \<Rightarrow> string" where
  \<comment> \<open>each word with the white space after it\<close>
  "spaced [] = []"
| "spaced ((w, sep) # ws) = w @ sep @ spaced ws"

fun well_spaced :: "(string \<times> string) list \<Rightarrow> bool" where
  \<comment> \<open>only the last word may stand without white space after it\<close>
  "well_spaced [] = True"
| "well_spaced ((w, sep) # ws) =
     (w \<noteq> [] \<and> (\<forall>c \<in> set w. black c) \<and> (\<forall>c \<in> set sep. char_is_whitespace c)
      \<and> (ws \<noteq> [] \<longrightarrow> sep \<noteq> []) \<and> well_spaced ws)"

lemma words_lead:
  assumes "\<forall>c \<in> set lead. char_is_whitespace c"
  shows "words (lead @ s) = words s"
proof -
  have "dropWhile char_is_whitespace (lead @ s) = dropWhile char_is_whitespace s"
    using assms by (simp add: dropWhile_append2)
  then show ?thesis using words_skip by metis
qed

theorem words_spaced: "well_spaced ws \<Longrightarrow> words (spaced ws) = map fst ws"
proof (induction ws rule: well_spaced.induct)
  case 1
  then show ?case by (simp add: words_white)
next
  case (2 w sep ws)
  then have w: "w \<noteq> []" "\<forall>c \<in> set w. black c" "\<forall>c \<in> set sep. char_is_whitespace c"
    and ws: "ws \<noteq> [] \<longrightarrow> sep \<noteq> []" and IH: "words (spaced ws) = map fst ws" by simp_all
  let ?s = "w @ sep @ spaced ws"
  obtain c r where c: "w = c # r" using w(1) by (cases w) auto
  have stop: "sep @ spaced ws = [] \<or> \<not> black (hd (sep @ spaced ws))"
    using ws w(3) by (cases sep; cases ws) auto
  have t: "takeWhile black ?s = w" "dropWhile black ?s = sep @ spaced ws"
    using w(2) stop by (auto simp: takeWhile_append2 dropWhile_append2 takeWhile_eq_Nil_iff dropWhile_eq_self_iff)
  have "dropWhile char_is_whitespace ?s = c # r @ sep @ spaced ws" using c w(2) by simp
  from words_black [OF this] have "words ?s = takeWhile black ?s # words (dropWhile black ?s)" using c by simp
  then have "words ?s = w # words (sep @ spaced ws)" using t by simp
  then show ?case using IH words_lead [OF w(3), of "spaced ws"] by simp
qed

section \<open>Every token consumes characters\<close>

lemma end_stable:
  "is_end_of_stream cs = (False, cs1) \<Longrightarrow> \<exists>cs2. is_end_of_stream cs1 = (False, cs2)"
  by (auto simp: is_end_of_stream_def is_peek_def good_def split: if_splits)

lemma end_left: "is_end_of_stream cs = (b, cs1) \<Longrightarrow> chars_left cs1 = chars_left cs"
  by (auto simp: is_end_of_stream_def is_peek_def chars_left_def split: if_splits)

lemma peek_left: "peek_next_char cs = (r, cs1) \<Longrightarrow> chars_left cs1 = chars_left cs"
  by (auto simp: peek_next_char_def is_peek_def chars_left_def Let_def split: if_splits)

lemma get_left: "get_next_char cs = (r, cs1) \<Longrightarrow> chars_left cs1 \<le> chars_left cs"
  by (auto simp: get_next_char_def is_get_def chars_left_def Let_def split: if_splits)

lemma peek_Some:
  assumes "peek_next_char cs = (Some c, cs1)"
  shows "cs1 = cs" and "is_end_of_stream cs = (False, cs)" and "\<exists>cs2. get_next_char cs = (Some c, cs2)"
  using assms
  by (auto simp: peek_next_char_def is_peek_def is_end_of_stream_def get_next_char_def is_get_def good_def
      char_is_eof Let_def split: if_splits)

lemma skip_cases:
  assumes "skip_whitespace cs = (out, cs')"
  obtains (stop) "chars_left cs' = chars_left cs"
  | (step) cs3 where "skip_whitespace cs3 = (out, cs')" and "chars_left cs3 < chars_left cs"
proof -
  obtain e cs1 where e: "is_end_of_stream cs = (e, cs1)" by (metis surj_pair)
  obtain r cs2 where r: "peek_next_char cs1 = (r, cs2)" by (metis surj_pair)
  obtain g cs3 where g: "get_next_char cs2 = (g, cs3)" by (metis surj_pair)
  show thesis
  proof (cases "\<exists>c. \<not> e \<and> r = Some c \<and> char_is_whitespace c")
    case True
    then obtain c where "e = False" "r = Some c" "char_is_whitespace c" by blast
    then show thesis using step [of cs3] assms e r g loop_progress [of cs cs1 c cs2 g cs3]
      by (simp add: skip_whitespace.simps [of cs])
  next
    case False
    then have "cs' = cs1 \<or> cs' = cs2"
      using assms e r by (auto simp: skip_whitespace.simps [of cs] split: if_splits option.splits)
    then show thesis using stop end_left [OF e] peek_left [OF r] by auto
  qed
qed

lemma skip_left: "skip_whitespace cs = (out, cs') \<Longrightarrow> chars_left cs' \<le> chars_left cs"
proof (induction "chars_left cs" arbitrary: cs rule: less_induct)
  case less
  from less.prems show ?case
  proof (cases rule: skip_cases)
    case (step cs3)
    then show ?thesis using less.hyps [of cs3] by simp
  qed simp
qed

lemma collect_cases:
  assumes "collect_token t cs = (out, cs')"
  obtains (stop) "chars_left cs' = chars_left cs"
  | (step) t3 cs3 where "collect_token t3 cs3 = (out, cs')" and "chars_left cs3 < chars_left cs"
proof -
  obtain e cs1 where e: "is_end_of_stream cs = (e, cs1)" by (metis surj_pair)
  obtain r cs2 where r: "peek_next_char cs1 = (r, cs2)" by (metis surj_pair)
  show thesis
  proof (cases "\<exists>c. \<not> e \<and> r = Some c \<and> black c")
    case True
    then obtain c where c: "e = False" "r = Some c" "black c" by blast
    with r have "cs2 = cs1" using peek_Some(1) by simp
    with r c obtain cs3 where g: "get_next_char cs2 = (Some c, cs3)" using peek_Some(3) by metis
    then show thesis using step [of "t @ [c]" cs3] assms e r c loop_progress [of cs cs1 c cs2 "Some c" cs3]
      by (simp add: collect_token.simps [of t cs])
  next
    case False
    then have "cs' = cs1 \<or> cs' = cs2"
      using assms e r by (auto simp: collect_token.simps [of t cs] split: if_splits option.splits)
    then show thesis using stop end_left [OF e] peek_left [OF r] by auto
  qed
qed

lemma collect_left: "collect_token t cs = (out, cs') \<Longrightarrow> chars_left cs' \<le> chars_left cs"
proof (induction "chars_left cs" arbitrary: t cs rule: less_induct)
  case less
  from less.prems show ?case
  proof (cases rule: collect_cases)
    case (step t3 cs3)
    then show ?thesis using less.hyps [of cs3 t3] by simp
  qed simp
qed

lemma get_next_token_left:
  assumes start: "is_end_of_stream cs = (False, cs1)" and run: "get_next_token cs = (Ret t, cs')"
  shows "chars_left cs' < chars_left cs"
proof -
  obtain cs2 tok where skip: "skip_whitespace cs = (Ret (), cs2)" and tok: "collect_token [] cs2 = (Ret tok, cs')"
    using run by (auto simp: get_next_token_def elim!: bindc_RetE)
  obtain r csp where r: "peek_next_char cs1 = (r, csp)" by (metis surj_pair)
  with skip start obtain c where c: "r = Some c"
    by (cases r) (auto simp: skip_whitespace.simps [of cs])
  with r have csp: "csp = cs1" using peek_Some(1) by simp
  then have peek: "peek_next_char cs1 = (Some c, cs1)" using r c by simp
  obtain cs3 where get: "get_next_char cs1 = (Some c, cs3)" using peek_Some(3) [OF peek] by blast
  have less: "chars_left cs3 < chars_left cs" using start peek get by (rule loop_progress)
  show ?thesis
  proof (cases "char_is_whitespace c")
    case True
    then have "skip_whitespace cs3 = (Ret (), cs2)"
      using skip start peek get by (simp add: skip_whitespace.simps [of cs])
    then show ?thesis using less skip_left collect_left [OF tok] by (meson le_less_trans)
  next
    case False
    then have "cs2 = cs1" using skip start peek by (simp add: skip_whitespace.simps [of cs])
    then have "collect_token [c] cs3 = (Ret tok, cs')"
      using tok False peek get peek_Some(2) [OF peek] by (simp add: collect_token.simps [of "[]" cs1])
    then show ?thesis using less collect_left by (meson le_less_trans)
  qed
qed

lemma has_next_token_left:
  assumes "has_next_token cs = (Ret b, cs')"
  shows "chars_left cs' \<le> chars_left cs" and "b \<Longrightarrow> \<exists>cs2. is_end_of_stream cs' = (False, cs2)"
proof -
  obtain cs1 e where 1: "skip_whitespace cs = (Ret (), cs1)" and 2: "is_end_of_stream cs1 = (e, cs')"
    and b: "b = (\<not> e)"
    using assms by (auto simp: has_next_token_def split: prod.splits elim!: bindc_RetE)
  show "chars_left cs' \<le> chars_left cs" using skip_left [OF 1] end_left [OF 2] by simp
  show "b \<Longrightarrow> \<exists>cs2. is_end_of_stream cs' = (False, cs2)" using end_stable 2 b by auto
qed

lemma token_progress:
  assumes "has_next_token cs = (Ret True, cs1)" and "get_next_token cs1 = (Ret t, cs2)"
  shows "chars_left cs2 < chars_left cs"
  using has_next_token_left [OF assms(1)] get_next_token_left [OF _ assms(2)] by fastforce

section \<open>The test cases\<close>

function token_loop :: "string list \<Rightarrow> nat \<Rightarrow> (char_stream, unit) cpp" where
  \<comment> \<open>\<open>while (lexer.has_next_token()) ...\<close> and the final assertion\<close>
  "token_loop expected_tokens index cs =
     (case has_next_token cs of
        (Throw x, cs1) \<Rightarrow> (Throw x, cs1)
      | (Fault f, cs1) \<Rightarrow> (Fault f, cs1)
      | (Ret has_next, cs1) \<Rightarrow>
          if \<not> has_next then (oassert (index = length expected_tokens), cs1)
          else
            (case get_next_token cs1 of
               (Throw x, cs2) \<Rightarrow> (Throw x, cs2)
             | (Fault f, cs2) \<Rightarrow> (Fault f, cs2)
             | (Ret None, cs2) \<Rightarrow> (Throw Bad_Optional_Access, cs2)
             | (Ret (Some token), cs2) \<Rightarrow>
                 if length expected_tokens \<le> index then (Fault (Undefined Out_Of_Bounds), cs2)
                 else if token \<noteq> expected_tokens ! index then (Fault Assertion_Failed, cs2)
                 else token_loop expected_tokens (Suc index) cs2))"
  by pat_completeness auto
termination
  by (relation "measure (\<lambda>(expected_tokens, index, cs). chars_left cs)")
    (auto intro!: token_progress [OF sym sym])

declare token_loop.simps [simp del]

definition test_tokens :: "string \<Rightarrow> string list \<Rightarrow> (exn, unit) outcome" where
  "test_tokens input expected_tokens =
     fst (token_loop expected_tokens 0 (lexer_new (istringstream input)))"

definition test_no_token :: "string \<Rightarrow> (exn, unit) outcome" where
  "test_no_token input =
     obind (fst (has_next_token (lexer_new (istringstream input)))) (\<lambda>has_next. oassert (\<not> has_next))"

definition test_lexer :: "(exn, unit) outcome" where
  "test_lexer =
     obind (test_tokens ''test this message'' [''test'', ''this'', ''message'']) (\<lambda>_.
     obind (test_no_token []) (\<lambda>_.
     obind (test_no_token ''     '') (\<lambda>_.
     obind (test_tokens (''   test   this'' @ [CHR 0x09] @ ''message  '') [''test'', ''this'', ''message'']) (\<lambda>_.
     obind (test_tokens ''hello, world! test.'' [''hello,'', '','', ''world!'', ''!'', ''test.'', ''.'']) (\<lambda>_.
     obind (test_tokens ''123 456 789'' [''123'', ''456'', ''789'']) (\<lambda>_.
     obind (test_tokens ''@ # $ % ^ & * ()'' [''@'', ''#'', ''$'', ''%'', ''^'', ''&'', ''*'', ''('', '')'']) (\<lambda>_.
     test_tokens ''test123 abc456 def789'' [''test123'', ''abc456'', ''def789''])))))))"

definition driver_main :: "(exn, int32) outcome" where
  "driver_main = obind test_lexer (\<lambda>_. Ret 0)"

section \<open>What the test cases check\<close>

fun compare_tokens :: "string list \<Rightarrow> string list \<Rightarrow> (exn, unit) outcome" where
  "compare_tokens [] expected = oassert (expected = [])"
| "compare_tokens (t # ts) [] = Fault (Undefined Out_Of_Bounds)"
| "compare_tokens (t # ts) (e # es) = (if t = e then compare_tokens ts es else Fault Assertion_Failed)"

lemma compare_tokens_Ret: "compare_tokens ts es = Ret () \<longleftrightarrow> ts = es"
  by (induction ts es rule: compare_tokens.induct) (auto simp: oassert_def)

lemma token_loop_eq:
  assumes "plain cs" and "index \<le> length expected"
  shows "fst (token_loop expected index cs) = compare_tokens (words (rest cs)) (drop index expected)"
  using assms
proof (induction "chars_left cs" arbitrary: index cs rule: less_induct)
  case less
  obtain cs1 where h: "has_next_token cs = (Ret (dropWhile char_is_whitespace (rest cs) \<noteq> []), cs1)"
    and m1: "moved (takeWhile char_is_whitespace (rest cs)) cs cs1"
    using less.prems(1) by (rule has_next_token_eq)
  have p1: "plain cs1" and r1: "rest cs1 = dropWhile char_is_whitespace (rest cs)"
    using m1 rest_moved [OF m1] by (simp_all only: moved_def drop_takeWhile)
  show ?case
  proof (cases "rest cs1")
    case Nil
    then have "words (rest cs) = []" using r1 words_white by metis
    moreover have "has_next_token cs = (Ret False, cs1)" using h r1 Nil by metis
    ultimately show ?thesis using less.prems(2)
      by (simp add: token_loop.simps [of expected index cs] eq_commute [of index])
  next
    case (Cons c r)
    have more1: "has_next_token cs = (Ret True, cs1)" using h r1 Cons by (metis list.distinct(1))
    let ?t = "takeWhile black (rest cs1)"
    have idem: "dropWhile char_is_whitespace (rest cs1) = rest cs1" unfolding r1 by (rule dropWhile_idem)
    from p1 obtain cs2 where g: "get_next_token cs1 = (Ret (Some (takeWhile black
        (dropWhile char_is_whitespace (rest cs1)))), cs2)"
      and m2: "moved (takeWhile char_is_whitespace (rest cs1)
        @ takeWhile black (dropWhile char_is_whitespace (rest cs1))) cs1 cs2"
      by (rule get_next_token_eq)
    have nw: "takeWhile char_is_whitespace (rest cs1) = []"
      using idem Cons by (metis append_self_conv2 takeWhile_dropWhile_id append_same_eq)
    have g': "get_next_token cs1 = (Ret (Some ?t), cs2)" using g unfolding idem .
    have m2': "moved ?t cs1 cs2" using m2 unfolding idem nw by simp
    have p2: "plain cs2" and r2: "rest cs2 = dropWhile black (rest cs1)"
      using m2' rest_moved [OF m2'] by (simp_all only: moved_def drop_takeWhile)
    have w: "words (rest cs) = ?t # words (rest cs2)"
      using words_black [of "rest cs" c r] r1 Cons r2 by metis
    show ?thesis
    proof (cases "index < length expected")
      case False
      then show ?thesis using more1 g' w less.prems(2)
        by (simp add: token_loop.simps [of expected "length expected" cs])
    next
      case True
      then have d: "drop index expected = expected ! index # drop (Suc index) expected"
        by (simp add: Cons_nth_drop_Suc)
      have "chars_left cs2 < chars_left cs" using more1 g' by (rule token_progress)
      then have IH: "fst (token_loop expected (Suc index) cs2) =
          compare_tokens (words (rest cs2)) (drop (Suc index) expected)"
        using p2 True by (intro less.hyps) simp_all
      show ?thesis unfolding w d using more1 g' IH True
        by (simp add: token_loop.simps [of expected index cs])
    qed
  qed
qed

lemma plain_new: "eof_char \<notin> set input \<Longrightarrow> plain (lexer_new (istringstream input))"
  by (simp add: plain_def lexer_new_def stream_ok_new rest_new)

theorem test_tokens_eq:
  "eof_char \<notin> set input \<Longrightarrow> test_tokens input expected = compare_tokens (words input) expected"
  using token_loop_eq [OF plain_new, of input 0 expected]
  by (simp add: test_tokens_def lexer_new_def rest_new)

lemma test_no_token_eq:
  assumes "eof_char \<notin> set input"
  shows "test_no_token input = oassert (words input = [])"
proof -
  let ?cs = "lexer_new (istringstream input)"
  from plain_new [OF assms] obtain cs' where
    "has_next_token ?cs = (Ret (dropWhile char_is_whitespace (rest ?cs) \<noteq> []), cs')" by (rule has_next_token_eq)
  moreover have "rest ?cs = input" by (simp add: lexer_new_def rest_new)
  moreover have "words input = [] \<longleftrightarrow> dropWhile char_is_whitespace input = []"
  proof (cases "dropWhile char_is_whitespace input")
    case Nil
    then show ?thesis using words_white by metis
  next
    case (Cons c r)
    then show ?thesis using words_black [OF Cons] by simp
  qed
  ultimately show ?thesis by (simp add: test_no_token_def)
qed

end
