(* ===== verification/Lexer_Properties.thy ===== *)
theory Lexer_Properties
  imports Driver
begin

text \<open>
  The properties of the lexer, its character stream and the driver that tests them.
\<close>

section \<open>Tokens\<close>

text \<open>
  C10. Lexing is splitting at white space: a test case of the driver, its loop over
  \<open>has_next_token\<close> and \<open>get_next_token\<close>, succeeds exactly when the expected tokens are the
  words of the input (\<open>words\<close>), for inputs without the byte 0xFF.
\<close>

theorem lexer_splits_words:
  assumes "eof_char \<notin> set input"
  shows "test_tokens input expected = Ret () \<longleftrightarrow> words input = expected"
  using test_tokens_eq [OF assms] by (simp add: compare_tokens_Ret)

theorem lexer_splits_words_witness:
  "words ''a  b'' = [''a'', ''b''] \<and> test_tokens ''a  b'' [''a'', ''b''] = Ret ()"
proof -
  have w: "words ''a  b'' = [''a'', ''b'']" by code_simp
  have "eof_char \<notin> set ''a  b''" by (simp add: eof_char_def)
  then show ?thesis using w lexer_splits_words [of "''a  b''" "[''a'', ''b'']"] by blast
qed

text \<open>
  C25. Round trip: words written with white space between them (any amount, before and after too) are the
  tokens read back, in order, if the byte 0xFF is not among the characters.
\<close>

theorem lexer_round_trip:
  assumes "well_spaced ws" and "\<forall>c \<in> set lead. char_is_whitespace c"
    and "eof_char \<notin> set lead" and "eof_char \<notin> set (spaced ws)"
  shows "test_tokens (lead @ spaced ws) (map fst ws) = Ret ()"
  using assms words_lead [OF assms(2)] by (simp add: test_tokens_eq compare_tokens_Ret words_spaced)

theorem lexer_round_trip_witness:
  "test_tokens (''  '' @ spaced [(''ab'', '' ''), (''c'', [])]) (map fst [(''ab'', '' ''), (''c'', [] :: string)]) = Ret ()"
  by (rule lexer_round_trip) (simp_all add: char_is_whitespace_def eof_char_def)

text \<open>
  C37. The driver aborts: the fifth test case expects the punctuation as tokens of its own, which
  the lexer does not split off, and the assertion of \<open>test_lexer\<close> fails.
\<close>

theorem driver_aborts: "driver_main = Fault Assertion_Failed"
proof -
  have w: "words ''test this message'' = [''test'', ''this'', ''message'']" "words [] = []"
    "words ''     '' = []"
    "words (''   test   this'' @ [CHR 0x09] @ ''message  '') = [''test'', ''this'', ''message'']"
    "words ''hello, world! test.'' = [''hello,'', ''world!'', ''test.'']"
    by code_simp+
  have e: "eof_char \<notin> set ''test this message''" "eof_char \<notin> set []" "eof_char \<notin> set ''     ''"
    "eof_char \<notin> set (''   test   this'' @ [CHR 0x09] @ ''message  '')" "eof_char \<notin> set ''hello, world! test.''"
    by (simp_all add: eof_char_def)
  show ?thesis
    unfolding driver_main_def test_lexer_def
    by (simp only: test_tokens_eq [OF e(1)] test_no_token_eq [OF e(2)] test_no_token_eq [OF e(3)]
        test_tokens_eq [OF e(4)] test_tokens_eq [OF e(5)] w) simp
qed

section \<open>Positions\<close>

text \<open>The states of a lexer on an input: any calls of its two operations, in any order.\<close>

inductive lexing :: "string \<Rightarrow> char_stream \<Rightarrow> bool" for input where
  lexing_start: "lexing input (lexer_new (istringstream input))"
| lexing_has: "lexing input cs \<Longrightarrow> has_next_token cs = (out, cs') \<Longrightarrow> lexing input cs'"
| lexing_get: "lexing input cs \<Longrightarrow> get_next_token cs = (tok, cs') \<Longrightarrow> lexing input cs'"

definition position_counts :: "string \<Rightarrow> char_stream_position \<Rightarrow> bool" where
  "position_counts s p \<longleftrightarrow> m_cur_line p = of_nat (count_list s newline_char) \<and> m_cur_col p = 0
     \<and> m_cur_pos p = of_nat (length s)"

lemma position_counts_moved:
  "moved s cs cs' \<Longrightarrow> position_counts (taken cs) (m_char_stream_position cs) \<Longrightarrow>
    position_counts (taken cs') (m_char_stream_position cs')"
  by (simp add: moved_def position_counts_def advance_all)

text \<open>
  C26. At every point of lexing an input without the byte 0xFF, characters read and characters left make
  up the input, the line and the position count the newlines and the characters read, and the column
  is 0: nothing ever advances it.
\<close>

theorem lexer_position_counts:
  assumes "lexing input cs" and "eof_char \<notin> set input"
  shows "taken cs @ rest cs = input \<and> plain cs \<and> position_counts (taken cs) (lexer_position cs)"
  using assms
proof (induction rule: lexing.induct)
  case lexing_start
  have "position_counts [] (m_char_stream_position (char_stream_new (istringstream input)))"
    by (simp add: position_counts_def char_stream_new_def)
  then show ?case using lexing_start plain_new [of input]
    by (simp add: lexer_new_def rest_new taken_new lexer_position_def get_position_def)
next
  case (lexing_has cs out cs')
  then obtain cs1 where "snd (has_next_token cs) = cs1" "moved (takeWhile char_is_whitespace (rest cs)) cs cs1"
    by (metis has_next_token_eq snd_conv)
  then show ?case using lexing_has position_counts_moved
    by (auto simp: lexer_position_def get_position_def moved_def)
next
  case (lexing_get cs tok cs')
  then obtain s cs1 where "snd (get_next_token cs) = cs1" "moved s cs cs1"
    by (metis get_next_token_eq snd_conv)
  then show ?case using lexing_get position_counts_moved
    by (auto simp: lexer_position_def get_position_def moved_def)
qed

theorem lexer_position_counts_witness:
  "\<exists>cs. lexing [CHR ''a'', newline_char, CHR ''b''] cs \<and> cs \<noteq> lexer_new (istringstream [CHR ''a'', newline_char, CHR ''b''])
    \<and> position_counts (taken cs) (lexer_position cs)"
proof -
  let ?i = "[CHR ''a'', newline_char, CHR ''b'']"
  let ?l = "lexer_new (istringstream ?i)"
  have e: "eof_char \<notin> set ?i" by (simp add: eof_char_def newline_char_def)
  obtain cs where g: "get_next_token ?l = (Ret (Some (takeWhile black (dropWhile char_is_whitespace (rest ?l)))), cs)"
    and m: "moved (takeWhile char_is_whitespace (rest ?l)
      @ takeWhile black (dropWhile char_is_whitespace (rest ?l))) ?l cs"
    using plain_new [OF e] by (rule get_next_token_eq)
  have "rest ?l = ?i" by (simp add: lexer_new_def rest_new)
  then have "rest cs = [newline_char, CHR ''b'']"
    using rest_moved [OF m] by (simp add: char_is_whitespace_def newline_char_def)
  then have "cs \<noteq> ?l" using \<open>rest ?l = ?i\<close> by auto
  moreover have "lexing ?i cs" using lexing_start g by (rule lexing_get)
  then have "lexing ?i cs \<and> position_counts (taken cs) (lexer_position cs)"
    using lexer_position_counts e by blast
  ultimately show ?thesis by blast
qed

section \<open>The character stream\<close>

lemma skip_to_eof_char:
  assumes "stream_ok cs" and "rest cs = lead @ eof_char # s" and "\<forall>c \<in> set lead. char_is_whitespace c"
  shows "fst (skip_whitespace cs) = Throw Bad_Optional_Access"
  using assms
proof (induction lead arbitrary: cs)
  case Nil
  obtain cs1 where "is_end_of_stream cs = (rest cs = [], cs1)" "stream_ok cs1" "same_place cs cs1"
    using Nil(1) by (rule is_end_of_stream_eq)
  then show ?case using Nil peek_next_char_eq [of cs1 eof_char s]
    by (simp add: skip_whitespace.simps [of cs] same_place_def)
next
  case (Cons c lead)
  obtain cs1 where 1: "is_end_of_stream cs = (rest cs = [], cs1)" "stream_ok cs1" "same_place cs cs1"
    using Cons.prems(1) by (rule is_end_of_stream_eq)
  have c: "char_is_whitespace c" "c \<noteq> eof_char"
    using Cons.prems(3) by (auto simp: char_is_whitespace_def eof_char_def)
  have r: "rest cs1 = c # lead @ eof_char # s" using 1(3) Cons.prems(2) by (simp add: same_place_def)
  obtain cs2 where 2: "get_next_char cs1 = (Some c, cs2)" "stream_ok cs2" "rest cs2 = lead @ eof_char # s"
    using 1(2) r c(2) by (rule get_next_char_eq)
  then have "fst (skip_whitespace cs2) = Throw Bad_Optional_Access" using Cons by simp
  then show ?case using 1(1) Cons.prems(2) peek_next_char_eq [OF 1(2) r] 2(1) c
    by (simp add: skip_whitespace.simps [of cs])
qed

text \<open>
  C38. The byte 0xFF stops the lexer: as a \<open>char\<close> it equals the end-of-file value, so the peek
  yields no character where the stream is not at its end, and \<open>value()\<close> throws.
\<close>

theorem eof_byte_throws:
  assumes "\<forall>c \<in> set lead. char_is_whitespace c"
  shows "test_no_token (lead @ eof_char # s) = Throw Bad_Optional_Access"
proof -
  let ?cs = "lexer_new (istringstream (lead @ eof_char # s))"
  have "fst (skip_whitespace ?cs) = Throw Bad_Optional_Access"
    using assms by (intro skip_to_eof_char [of _ lead s]) (simp_all add: lexer_new_def stream_ok_new rest_new)
  then have "fst (has_next_token ?cs) = Throw Bad_Optional_Access"
    by (cases "skip_whitespace ?cs") (simp add: has_next_token_def bindc_eqs)
  then show ?thesis by (simp add: test_no_token_def)
qed

theorem eof_byte_throws_witness: "test_no_token ('' '' @ eof_char # ''a'') = Throw Bad_Optional_Access"
  by (rule eof_byte_throws) (simp add: char_is_whitespace_def)

text \<open>
  Putting a character back after reading it restores the stream, but not the position: it
  stays advanced, and a later read of the same character counts it, and its line, again.
\<close>

theorem put_back_after_get:
  assumes "stream_ok cs" and "rest cs = c # r" and "c \<noteq> eof_char"
  shows "put_back_char c (snd (get_next_char cs)) =
    cs\<lparr>m_char_stream_position := advance c (m_char_stream_position cs)\<rparr>"
proof -
  note R = rest_Cons [OF assms(2)]
  have g: "good (m_stream cs)" using assms by (intro stream_ok_good) simp_all
  then have e: "(m_stream cs)\<lparr>in_pos := in_pos (m_stream cs), eofbit := False\<rparr> = m_stream cs"
    by (simp add: good_def)
  show ?thesis
    using g R assms(3) by (simp add: get_next_char_def is_get_def Let_def char_is_eof put_back_char_def
        is_putback_def good_def)
qed

theorem put_back_after_get_witness:
  "m_cur_pos (get_position (put_back_char CHR ''a'' (snd (get_next_char
     (char_stream_new (istringstream ''ab'')))))) = 1"
proof -
  let ?cs = "char_stream_new (istringstream ''ab'')"
  have "put_back_char CHR ''a'' (snd (get_next_char ?cs)) =
      ?cs\<lparr>m_char_stream_position := advance CHR ''a'' (m_char_stream_position ?cs)\<rparr>"
    using stream_ok_new rest_new by (rule put_back_after_get) (simp add: eof_char_def)
  then show ?thesis by (simp add: get_position_def advance_def char_stream_new_def newline_char_def Let_def)
qed

end
