(* ===== verification/Spec2Isabelle.thy ===== *)
theory Spec2Isabelle
  imports Library_Properties Disk_Lives Disk_Error_Properties Buffer_Properties Heap_Properties Lexer_Properties
begin

text \<open>
  lewsql: the verification of the storage layers and the lexer of a small database.

  \<^bold>\<open>The program.\<close>  lewsql is a set of C++ libraries.  \<open>library\<close> has a bitmap, a result class
  with two early-return macros, and a logger.  \<open>disk_manager\<close> keeps disks as files:
  \<open>PosixDisk\<close> is one open file of pages, \<open>PosixDiskManager\<close> a table of loaded disks that opens a
  file anew for each call.  \<open>buffer_manager\<close> is a pool of pages in memory: a page with checked
  access, a tracker of the taken pages on the bitmap, a map from disk pages to pages of the pool,
  and \<open>pin\<close> and \<open>unpin\<close>, which are commented out at this commit.  \<open>organizers\<close> has column types,
  tuples and a heap file, which calls the disk manager for its file and the buffer manager for its
  pages.  \<open>compiler\<close> has a character stream and a lexer; \<open>driver\<close> runs test cases of the lexer, and
  \<open>tests\<close> tests the disk manager.

  \<^bold>\<open>Conventions\<close> (\<open>Prelude\<close>, \<open>Errors\<close>).  A C++ function is a HOL function to an \<open>outcome\<close>: a value
  (\<open>Ret\<close>), a thrown exception (\<open>Throw\<close>) or a fault (\<open>Fault\<close>: a failed assertion,
  \<open>std::terminate\<close>, undefined behaviour), sequenced by \<open>obind\<close>; with state it is a function from
  the state to an outcome and the state, also on exceptions and faults, sequenced by \<open>bindc\<close>.
  \<open>noexcept\<close> turns an exception that leaves a \<open>noexcept\<close> function into \<open>Terminated\<close>, and
  \<open>in_scope\<close> runs the destructor of a local object.  Integers have their width (\<open>32 word\<close>) and
  wrap as in the code.  Memory is a list of bytes, and access outside of it is \<open>Out_Of_Bounds\<close>.
  Assertions are live, as in the build of \<open>run_build.sh\<close>; the workflow of the CI builds \<open>Release\<close>,
  where CMake's default flags define \<open>NDEBUG\<close> and the assertions are compiled out, which is not modelled (it
  concerns \<open>partial_page_locks_disk\<close>, half of \<open>transient_error_kills_load\<close>, \<open>first_heap_aborts\<close>,
  \<open>driver_aborts\<close> and the last part of \<open>log_statement_output\<close>).  The platform is LP64, little endian,
  with signed \<open>char\<close>.

  \<^bold>\<open>Theories and sources.\<close>
  \<^item> \<open>Bitmap\<close>: \<open>library/src/bitmap.{h,cpp}\<close>.  The record has the class's members; \<open>bits\<close> is its
    abstract value, \<open>wf_bitmap\<close> its invariant.
  \<^item> \<open>Result_Class\<close>: \<open>library/src/result.h\<close>, as two optionals and as the sum \<open>'e + 'r\<close> that the
    other theories use; the macros run their argument again, as they do in C++, and are compared
    with plain sequencing (\<open>seq_result\<close>, \<open>bind_result\<close>).
  \<^item> \<open>Logger\<close>: \<open>library/src/logger.h\<close>, a stream from its construction to the flush of its destructor,
    the static vector of streams, and programs of log statements.
  \<^item> \<open>Posix\<close>: the system calls, a parameter \<open>P\<close> of everything above.  The locale \<open>posix_fs\<close> says
    what a call may do to the files (\<open>view\<close>) when it can also fail at any time, and
    \<open>posix_reliable\<close> adds that calls on existing files succeed.  \<open>sim_posix\<close> (a file system in
    lists, with a schedule of faults) and \<open>calm_posix\<close> (the same without faults) interpret them.
  \<^item> \<open>Posix_Disk\<close>, \<open>Posix_Disk_Manager\<close>: \<open>disk_manager/src/impl/\<close> and \<open>disk_manager.h\<close>, every
    method, with what each does on a reliable system.
  \<^item> \<open>Disk_Manager_Frame\<close>: what each method leaves alone on a system that may fail; \<open>Disk_Torn\<close>: the
    other pages of a disk under a write that fails or stores only a part.
  \<^item> \<open>Disk_Store\<close>: the contract of the disk manager, a store of pages (\<open>spec\<close>), and the refinement,
    call by call and for sequences of calls.  \<open>Disk_Lives\<close>: managers constructed one after another
    over the same directory (\<open>run_lives\<close>), which share the files only.
  \<^item> \<open>Disk_Ids\<close>: histories of a manager as a step relation (\<open>run\<close>), with other processes in between.
  \<^item> \<open>Disk_Errors\<close>: the error codes that each call can answer, on any system (\<open>reports\<close>, a rule per
    construct and a lemma per method); \<open>Disk_Codes\<close>: systems on which each of them is answered.
  \<^item> \<open>Test_Framework\<close>: \<open>tests/src/unit_test_framework.hpp\<close>, the assertions, the test cases, the suite
    with its command line and output; \<open>test_program\<close> is what a run amounts to.  \<open>Test_Log\<close>: what
    the first call of every test, \<open>test_begin\<close>, does to the log.
  \<^item> \<open>Manager_Tests\<close>: the rest of \<open>tests/src/\<close>, the test cases of the disk manager as clients of its
    model; \<open>sim\<close> runs them on the store of pages.
  \<^item> \<open>Page_Tracker\<close>: \<open>buffer_page_tracker/\<close>.  The abstract class is the locale \<open>page_tracker\<close>,
    interpreted by \<open>BitmapTracker\<close>; the records of base classes are extended by those of derived
    ones, here and in \<open>Posix_Disk_Manager\<close>.
  \<^item> \<open>Buffer_Page\<close>: \<open>buffer_page.h\<close>, \<open>mem/buffer_page_allocator\<close>.
  \<^item> \<open>Buffer_Manager\<close>: \<open>buffer_manager.{h,cpp}\<close>, \<open>replacement/\<close>.
  \<^item> \<open>Column_Type\<close>: \<open>organizers/src/types/\<close>, \<open>tuple.{h,cpp}\<close>.
  \<^item> \<open>Heap\<close>, \<open>Heap_Insert\<close>, \<open>Heap_Life\<close>: \<open>organizers/src/heap.{h,cpp}\<close>, \<open>organizer.h\<close>.  The heap's
    managers are a parameter (\<open>heap_env\<close>): the program's own (\<open>lewsql_env\<close>), or a pool in which every
    page of the disk is in memory (\<open>resident_env\<close>), for the code that \<open>pin\<close> stops today.  What the
    heap needs of such a pool is the locale \<open>page_pool\<close>; \<open>pooled_env\<close>, which keeps the pages in memory
    and takes the disk operations from \<open>PosixDiskManager\<close>, is an instance, so that a heap can be followed
    from its constructor through its insertions together with its file.  Both pools are stand-ins, not
    models of \<open>BufferManager\<close>: they never call the disk manager, whereas the commented-out body of \<open>pin\<close> would read the
    page, and a read extends the file.  What they show is what the code of \<open>heap.cpp\<close> does with its pages;
    that the file stays empty, and \<open>extend\<close> answers 1, holds for these pools.
  \<^item> \<open>Char_Stream\<close>, \<open>Lexer\<close>, \<open>Driver\<close>: \<open>compiler/src/\<close> and \<open>driver/src/run.cpp\<close>; \<open>words\<close> is the
    specification of the lexer.

  \<^bold>\<open>Properties.\<close>  They are in the theories \<open>..._Properties\<close> and \<open>Disk_Lives\<close>, each with its claim
  number and, where it has hypotheses, a witness on concrete values.  \<open>Disk_Properties\<close>: the refinement of the store of pages, pages that
  stay as they were written (for a later manager too: \<open>Disk_Lives\<close>), files and pages that a call leaves alone even when the system fails
  half-way, ids that are never used twice, the test program with these tests, which descriptors stay
  open, and the places where the code does not keep its limits.  \<open>Disk_Error_Properties\<close>: the codes of each call, and a file
  that ends within a page.  \<open>Library_Properties\<close>: the bitmap as a list of bits and its external
  forms, when the early-return macros are plain sequencing, what log statements write, what a test
  program runs and answers.  \<open>Buffer_Properties\<close>: the tracker, the map of resident pages, access to
  the bytes of a page.  \<open>Heap_Properties\<close>: cells and tuples, what one
  insertion and many store, what they need and where they overrun the page, the list of full pages, and
  the life of a heap over the program's disk manager: where its tuples go, that the heap writes nothing to its file,
  that the table of disk 0 aborts at its second tuple and that a table opened again is empty.  \<open>Lexer_Properties\<close>: the lexer against
  \<open>words\<close>, positions, and the inputs that stop it.  Several of the properties state defects: the
  model has them because the code has them.  The conditions of the properties about the disk manager (\<open>store_inv\<close>, \<open>admissible\<close>)
  leave out the cursors whose page wraps around 2 ^ 32, for which \<open>wrapped_cursor_write\<close> says what
  happens; those about the heap (\<open>narrow\<close>, \<open>slotted\<close>) leave out the wider columns, which
  \<open>serialize_lossy\<close> shows to be lost, and the page sizes with which no insertion returns
  (\<open>insert_needs_page_size\<close>).

  \<^bold>\<open>Bounds.\<close>  The loops of the bitmap, the page, the lexer and the driver are total functions, with
  the overflow of their \<open>int\<close> counters as a fault.  Only the walk along the heap's full list can
  run forever: \<open>full_list_end\<close> takes fuel, one unit per page visited, and answers \<open>None\<close> when the
  walk is still under way; fuel of the length of a well-formed list is enough
  (\<open>append_full_list\<close>), and for a cycle none is (\<open>append_never_ends\<close>).

  \<^bold>\<open>Not modelled.\<close>  The log messages inside the other components (they change no state the program
  reads) and the failure of memory allocation; alignment of pointers into pages, as the target
  machines read unaligned words; the thread-safety of any class, since the program has one
  thread; commented-out bodies, whose models are the empty bodies that are left; manipulators of
  a stream that change how it formats; the empty headers \<open>array_type.h\<close> and \<open>bool_type.h\<close>; of the test framework,
  \<open>assert_almost_equal\<close> (floating point, used by no test), the regular expressions, which the build
  does not enable, and the guard against calls of \<open>exit\<close>, which no test makes; the build files, and the SQL grammar in \<open>res\<close>, which no code reads.
\<close>

end
